(* ===== verification/C_Prelude.thy ===== *)
theory C_Prelude
  imports Main "HOL-Library.Word" "HOL-Library.Signed_Division"
begin

text \<open>
  Shared vocabulary of the development: the C integer types of the audio code as HOL \<open>int\<close>
  with the two's complement conversions written out, shifts, the array copies of
  \<^verbatim>\<open>memcpy\<close>/\<^verbatim>\<open>memset\<close>, and the generic facts on ranges, masks, lists and sums that the
  component theories use.

  Conventions.  A value of a C type is an \<open>int\<close> inside the range of that type
  (\<open>in_i16\<close>, \<open>in_i32\<close>, \<open>in_u32\<close>, ...).  Arithmetic on C's \<^verbatim>\<open>int\<close> is exact
  arithmetic followed by \<open>i32\<close>; an assignment to, or a cast to, a narrower type is the
  conversion of that type.  A chain of \<open>+\<close>, \<open>-\<close> and \<open>*\<close> is converted once, at its end,
  which is the same as converting after each operation (\<open>i32_add_left\<close> and the lemmas
  next to it).  Signed overflow, which C leaves undefined, is thereby modelled as the wrap-around
  of the compiled code; the properties that matter prove that it does not occur.
\<close>

unbundle bit_operations_syntax

named_theorems c_conv "definitions of the C integer conversions"

type_synonym byte = "8 word"

section \<open>Integer conversions\<close>

definition i8 :: "int \<Rightarrow> int" where
  [c_conv]: "i8 x = (x + 128) mod 256 - 128"

definition i16 :: "int \<Rightarrow> int" where
  [c_conv]: "i16 x = (x + 32768) mod 65536 - 32768"

definition i32 :: "int \<Rightarrow> int" where
  [c_conv]: "i32 x = (x + 2147483648) mod 4294967296 - 2147483648"

definition u8 :: "int \<Rightarrow> int" where
  [c_conv]: "u8 x = x mod 256"

definition u16 :: "int \<Rightarrow> int" where
  [c_conv]: "u16 x = x mod 65536"

definition u32 :: "int \<Rightarrow> int" where
  [c_conv]: "u32 x = x mod 4294967296"

abbreviation in_i8 :: "int \<Rightarrow> bool" where
  "in_i8 x \<equiv> - 128 \<le> x \<and> x \<le> 127"

abbreviation in_i16 :: "int \<Rightarrow> bool" where
  "in_i16 x \<equiv> - 32768 \<le> x \<and> x \<le> 32767"

abbreviation in_i32 :: "int \<Rightarrow> bool" where
  "in_i32 x \<equiv> - 2147483648 \<le> x \<and> x \<le> 2147483647"

abbreviation in_u8 :: "int \<Rightarrow> bool" where
  "in_u8 x \<equiv> 0 \<le> x \<and> x \<le> 255"

abbreviation in_u16 :: "int \<Rightarrow> bool" where
  "in_u16 x \<equiv> 0 \<le> x \<and> x \<le> 65535"

abbreviation in_u32 :: "int \<Rightarrow> bool" where
  "in_u32 x \<equiv> 0 \<le> x \<and> x \<le> 4294967295"

text \<open>Right shifts of C: arithmetic on signed values, logical on unsigned ones; on the
  mathematical value both are division by a power of two rounding down.\<close>

definition shr :: "int \<Rightarrow> nat \<Rightarrow> int" where
  "shr x n = x div 2 ^ n"

definition shl32 :: "int \<Rightarrow> nat \<Rightarrow> int" where
  "shl32 x n = i32 (x * 2 ^ n)"

lemma i8_id [simp]: "in_i8 x \<Longrightarrow> i8 x = x"
  by (simp add: i8_def)

lemma i16_id [simp]: "in_i16 x \<Longrightarrow> i16 x = x"
  by (simp add: i16_def)

lemma i32_id [simp]: "in_i32 x \<Longrightarrow> i32 x = x"
  by (simp add: i32_def)

lemma u8_id [simp]: "in_u8 x \<Longrightarrow> u8 x = x"
  by (simp add: u8_def)

lemma u16_id [simp]: "in_u16 x \<Longrightarrow> u16 x = x"
  by (simp add: u16_def)

lemma u32_id [simp]: "in_u32 x \<Longrightarrow> u32 x = x"
  by (simp add: u32_def)

lemma i16_range: "in_i16 (i16 x)"
proof -
  have "0 \<le> (x + 32768) mod 65536" "(x + 32768) mod 65536 < 65536" by simp_all
  then show ?thesis unfolding i16_def by linarith
qed

lemma i32_range: "in_i32 (i32 x)"
proof -
  have "0 \<le> (x + 2147483648) mod 4294967296" "(x + 2147483648) mod 4294967296 < 4294967296"
    by simp_all
  then show ?thesis unfolding i32_def by linarith
qed

lemma u8_range: "in_u8 (u8 x)"
proof -
  have "0 \<le> x mod 256" "x mod 256 < 256" by simp_all
  then show ?thesis unfolding u8_def by linarith
qed

lemma u16_range: "in_u16 (u16 x)"
proof -
  have "0 \<le> x mod 65536" "x mod 65536 < 65536" by simp_all
  then show ?thesis unfolding u16_def by linarith
qed

lemma u32_range: "in_u32 (u32 x)"
proof -
  have "0 \<le> x mod 4294967296" "x mod 4294967296 < 4294967296" by simp_all
  then show ?thesis unfolding u32_def by linarith
qed

text \<open>The conversions are ring homomorphisms modulo the width.\<close>

lemma i32_mod: "i32 x mod 4294967296 = x mod 4294967296"
proof -
  define k where "k = (x + 2147483648) div 4294967296"
  have "x = i32 x + 4294967296 * k"
    using mult_div_mod_eq [of 4294967296 "x + 2147483648"] unfolding i32_def k_def by linarith
  then have "x mod 4294967296 = (i32 x + 4294967296 * k) mod 4294967296"
    by (rule arg_cong)
  also have "\<dots> = i32 x mod 4294967296"
    by (rule mod_mult_self2)
  finally show ?thesis by (rule sym)
qed

lemma i32_cong: "x mod 4294967296 = y mod 4294967296 \<Longrightarrow> i32 x = i32 y"
  unfolding i32_def using mod_add_cong [OF _ refl, of x 4294967296 y 2147483648] by simp

lemma i32_add_left: "i32 (i32 x + y) = i32 (x + y)"
  by (rule i32_cong) (metis i32_mod mod_add_left_eq)

lemma i32_add_right: "i32 (x + i32 y) = i32 (x + y)"
  using i32_add_left [of y x] by (simp add: add.commute)

lemma i32_mult_left: "i32 (i32 x * y) = i32 (x * y)"
  by (rule i32_cong) (metis i32_mod mod_mult_left_eq)

lemma i32_idem [simp]: "i32 (i32 x) = i32 x"
  using i32_range by simp

lemma i16_i32 [simp]: "i16 (i32 x) = i16 x"
proof -
  have "i32 x mod 65536 = (i32 x mod 4294967296) mod 65536"
    by (rule mod_mod_cancel [symmetric]) simp
  also have "\<dots> = (x mod 4294967296) mod 65536"
    by (simp only: i32_mod)
  also have "\<dots> = x mod 65536"
    by (rule mod_mod_cancel) simp
  finally show ?thesis unfolding i16_def by (metis mod_add_left_eq)
qed

lemma u32_i32 [simp]: "u32 (i32 x) = u32 x"
  by (simp only: u32_def i32_mod)

section \<open>Shifts and masks\<close>

lemma shr_0 [simp]: "shr x 0 = x"
  by (simp add: shr_def)

lemma shr_nonneg [simp]: "0 \<le> x \<Longrightarrow> 0 \<le> shr x n"
  by (simp add: shr_def pos_imp_zdiv_nonneg_iff)

lemma shr_mono: "x \<le> y \<Longrightarrow> shr x n \<le> shr y n"
  by (simp add: shr_def zdiv_mono1)

lemma shr_lower: "b * 2 ^ n \<le> x \<Longrightarrow> b \<le> shr x n"
  using zdiv_mono1 [of "b * 2 ^ n" x "2 ^ n"] by (simp add: shr_def)

lemma shr_upper: "x < b * 2 ^ n \<Longrightarrow> shr x n < b"
proof -
  assume x: "x < b * 2 ^ n"
  have "0 \<le> x mod 2 ^ n" by simp
  then have "shr x n * 2 ^ n \<le> x"
    using div_mult_mod_eq [of x "2 ^ n"] unfolding shr_def by linarith
  with x have "shr x n * 2 ^ n < b * 2 ^ n" by linarith
  then show ?thesis by simp
qed

lemma shr_upper_le: "x \<le> b * 2 ^ n \<Longrightarrow> shr x n \<le> b"
  using zdiv_mono1 [of x "b * 2 ^ n" "2 ^ n"] by (simp add: shr_def)

lemma in_i32_shr: "in_i32 x \<Longrightarrow> in_i32 (shr x n)"
proof -
  assume x: "in_i32 x"
  have p: "(1::int) \<le> 2 ^ n" by simp
  have "2147483648 * (1::int) \<le> 2147483648 * 2 ^ n" using p by (intro mult_left_mono) simp_all
  with x have "- 2147483648 * 2 ^ n \<le> x" "x < 2147483648 * 2 ^ n" by linarith+
  from shr_lower [OF this(1)] shr_upper [OF this(2)] show ?thesis by simp
qed

text \<open>A high mask tests a magnitude: \<open>a & 0xFF..F00..0\<close> with \<open>k\<close> low zeros out of
  \<open>k + m\<close> bits is zero exactly when \<open>a < 2 ^ k\<close>.\<close>

lemma and_high_mask_eq_0:
  fixes a :: int
  assumes "0 \<le> a" "a < 2 ^ (k + m)"
  shows "a AND (2 ^ (k + m) - 2 ^ k) = 0 \<longleftrightarrow> a < 2 ^ k"
proof -
  have hm: "(2 :: int) ^ (k + m) - 2 ^ k = push_bit k (mask m)"
    by (simp add: push_bit_eq_mult mask_eq_exp_minus_1 power_add algebra_simps)
  have "a AND push_bit k (mask m) = push_bit k (drop_bit k a AND mask m)"
    by (rule bit_eqI) (auto simp: bit_and_iff bit_push_bit_iff bit_drop_bit_eq)
  also have "\<dots> = push_bit k (take_bit m (drop_bit k a))"
    by (simp add: take_bit_eq_mask)
  finally have e: "a AND push_bit k (mask m) = push_bit k (take_bit m (drop_bit k a))" .
  have "drop_bit k a < 2 ^ m"
    using shr_upper [of a "2 ^ m" k] assms by (simp add: shr_def drop_bit_eq_div power_add mult.commute)
  then have t: "take_bit m (drop_bit k a) = drop_bit k a"
    using assms by (simp add: take_bit_int_eq_self_iff)
  have "push_bit k (drop_bit k a) = 0 \<longleftrightarrow> a < 2 ^ k"
    using assms by (auto simp: drop_bit_eq_div push_bit_eq_mult zdiv_eq_0_iff)
  with e t hm show ?thesis by simp
qed

lemma div_less_upper:
  fixes x n b :: int
  assumes "0 < n" "x < b * n"
  shows "x div n < b"
proof -
  have "x div n * n \<le> x" using assms(1) div_mult_mod_eq [of x n] pos_mod_sign [OF assms(1), of x] by linarith
  with assms(2) have "x div n * n < b * n" by linarith
  then show ?thesis using assms(1) by simp
qed

section \<open>Arrays\<close>

text \<open>\<open>memcpy a off src\<close> is the array \<open>a\<close> after \<open>src\<close> was copied to it at offset
  \<open>off\<close>; the callers show that the copied region lies inside the array.\<close>

definition memcpy :: "'a list \<Rightarrow> nat \<Rightarrow> 'a list \<Rightarrow> 'a list" where
  "memcpy a off src = take off a @ src @ drop (off + length src) a"

lemma length_memcpy [simp]:
  "off + length src \<le> length a \<Longrightarrow> length (memcpy a off src) = length a"
  by (simp add: memcpy_def)

lemma nth_memcpy:
  assumes "off + length src \<le> length a" "i < length a"
  shows "memcpy a off src ! i =
    (if off \<le> i \<and> i < off + length src then src ! (i - off) else a ! i)"
  using assms by (auto simp: memcpy_def nth_append min_def)

lemma memcpy_Nil [simp]: "memcpy a off [] = a"
  by (simp add: memcpy_def)

lemma take_memcpy_0: "length src \<le> length a \<Longrightarrow> take (length src) (memcpy a 0 src) = src"
  by (simp add: memcpy_def)

end
