(* ===== verification/Fifo_Interface.thy ===== *)
theory Fifo_Interface
  imports Main
begin

text \<open>
  The contract of a bounded first-in first-out store of fixed-size elements, as a locale, and what
  a client may conclude from it alone.  \<open>content\<close> lists the stored units (bytes), oldest
  first; an element is \<open>esize\<close> units; \<open>put\<close> takes a source array and an element count and
  returns how many elements it accepted; \<open>get\<close> takes the caller's array and an element count
  and returns the units the caller sees.
\<close>

datatype 'a fifo_op = Put "'a list" nat | Get "'a list" nat

text \<open>A run of operations: everything accepted, everything delivered, the final state.\<close>

fun fifo_run ::
  "('s \<Rightarrow> nat) \<Rightarrow> ('s \<Rightarrow> 'a list \<Rightarrow> nat \<Rightarrow> nat \<times> 's) \<Rightarrow> ('s \<Rightarrow> 'a list \<Rightarrow> nat \<Rightarrow> 'a list \<times> 's) \<Rightarrow>
   's \<Rightarrow> 'a fifo_op list \<Rightarrow> 'a list \<times> 'a list \<times> 's" where
  "fifo_run esize put get s [] = ([], [], s)"
| "fifo_run esize put get s (Put d n # ops) =
     (let (w, s') = put s d n; (acc, del, s'') = fifo_run esize put get s' ops
      in (take (w * esize s) d @ acc, del, s''))"
| "fifo_run esize put get s (Get d n # ops) =
     (let (out, s') = get s d n; (acc, del, s'') = fifo_run esize put get s' ops
      in (acc, out @ del, s''))"

text \<open>The arrays of an operation hold at least the requested number of elements.\<close>

fun op_ok :: "nat \<Rightarrow> 'a fifo_op \<Rightarrow> bool" where
  "op_ok es (Put d n) \<longleftrightarrow> n * es \<le> length d"
| "op_ok es (Get d n) \<longleftrightarrow> n * es \<le> length d"

locale bounded_fifo =
  fixes inv :: "'s \<Rightarrow> bool"
    and content :: "'s \<Rightarrow> 'a list"
    and esize :: "'s \<Rightarrow> nat"
    and capacity :: "'s \<Rightarrow> nat"
    and fill :: "'s \<Rightarrow> nat"
    and put :: "'s \<Rightarrow> 'a list \<Rightarrow> nat \<Rightarrow> nat \<times> 's"
    and get :: "'s \<Rightarrow> 'a list \<Rightarrow> nat \<Rightarrow> 'a list \<times> 's"
  assumes length_content: "inv s \<Longrightarrow> length (content s) = fill s * esize s"
    and fill_capacity: "inv s \<Longrightarrow> fill s \<le> capacity s"
    and put_inv: "inv s \<Longrightarrow> n * esize s \<le> length d \<Longrightarrow> inv (snd (put s d n))"
    and put_count: "inv s \<Longrightarrow> fst (put s d n) = min n (capacity s - fill s)"
    and put_content: "inv s \<Longrightarrow> n * esize s \<le> length d \<Longrightarrow>
      content (snd (put s d n)) = content s @ take (fst (put s d n) * esize s) d"
    and put_esize: "inv s \<Longrightarrow> esize (snd (put s d n)) = esize s"
    and put_capacity: "inv s \<Longrightarrow> capacity (snd (put s d n)) = capacity s"
    and get_inv: "inv s \<Longrightarrow> inv (snd (get s d n))"
    and get_content: "inv s \<Longrightarrow> n * esize s \<le> length d \<Longrightarrow>
      fst (get s d n) = take (n * esize s) (content s) \<and>
      content (snd (get s d n)) = drop (n * esize s) (content s)"
    and get_esize: "inv s \<Longrightarrow> esize (snd (get s d n)) = esize s"
    and get_capacity: "inv s \<Longrightarrow> capacity (snd (get s d n)) = capacity s"
begin

lemma run_conserves:
  assumes "inv s" "\<forall>op \<in> set ops. op_ok (esize s) op"
    and "fifo_run esize put get s ops = (acc, del, s')"
  shows "inv s' \<and> esize s' = esize s \<and> capacity s' = capacity s \<and>
    content s @ acc = del @ content s'"
  using assms
proof (induction ops arbitrary: s acc del s')
  case Nil
  then show ?case by simp
next
  case (Cons op ops)
  show ?case
  proof (cases op)
    case (Put d n)
    obtain w s1 where p: "put s d n = (w, s1)" by force
    obtain acc1 del1 s2 where r: "fifo_run esize put get s1 ops = (acc1, del1, s2)"
      by (metis surj_pair)
    have d: "n * esize s \<le> length d" using Cons.prems(2) Put by simp
    have i: "inv s1" "esize s1 = esize s" "capacity s1 = capacity s"
      "content s1 = content s @ take (w * esize s) d"
      using put_inv [OF Cons.prems(1) d] put_content [OF Cons.prems(1) d]
        put_esize [OF Cons.prems(1), of d n] put_capacity [OF Cons.prems(1), of d n] p by simp_all
    have "acc = take (w * esize s) d @ acc1" "del = del1" "s' = s2"
      using Cons.prems(3) Put p r by simp_all
    then show ?thesis using Cons.IH [OF i(1) _ r] Cons.prems(2) i by simp
  next
    case (Get d n)
    obtain out s1 where p: "get s d n = (out, s1)" by force
    obtain acc1 del1 s2 where r: "fifo_run esize put get s1 ops = (acc1, del1, s2)"
      by (metis surj_pair)
    have d: "n * esize s \<le> length d" using Cons.prems(2) Get by simp
    have i: "inv s1" "esize s1 = esize s" "capacity s1 = capacity s"
      "content s = out @ content s1"
      using get_inv [OF Cons.prems(1), of d n] get_content [OF Cons.prems(1) d]
        get_esize [OF Cons.prems(1), of d n] get_capacity [OF Cons.prems(1), of d n] p by simp_all
    have "acc = acc1" "del = out @ del1" "s' = s2"
      using Cons.prems(3) Get p r by simp_all
    then show ?thesis using Cons.IH [OF i(1) _ r] Cons.prems(2) i by simp
  qed
qed

text \<open>What fits is accepted whole and comes back unchanged after what was stored before it.\<close>

lemma put_get:
  assumes "inv s" "n * esize s \<le> length d" "fill s + n \<le> capacity s"
    and "(fill s + n) * esize s \<le> length d'"
  shows "fst (put s d n) = n \<and>
    fst (get (snd (put s d n)) d' (fill s + n)) = content s @ take (n * esize s) d \<and>
    content (snd (get (snd (put s d n)) d' (fill s + n))) = []"
proof -
  have c: "fst (put s d n) = n" using put_count [OF assms(1)] assms(3) by simp
  have i: "inv (snd (put s d n))" using assms put_inv by blast
  have e: "esize (snd (put s d n)) = esize s" using put_esize assms(1) by blast
  have k: "content (snd (put s d n)) = content s @ take (n * esize s) d"
    using put_content [OF assms(1,2)] c by simp
  have l: "length (content s @ take (n * esize s) d) = (fill s + n) * esize s"
    using length_content [OF assms(1)] assms(2) by (simp add: distrib_right)
  have "(fill s + n) * esize s - length (content s) = n * esize s"
    using length_content [OF assms(1)] by (simp add: distrib_right)
  then show ?thesis using get_content [OF i, of "fill s + n" d'] assms(4) c k l e by simp
qed

end

end
