(* ===== verification/Ring_Buffer.thy ===== *)
theory Ring_Buffer
  imports C_Prelude Fifo_Interface
begin

text \<open>
  The ring buffer of \<^verbatim>\<open>webrtc/common_audio/ring_buffer.c\<close>, byte for byte: the
  \<^verbatim>\<open>data\<close> array holds \<^verbatim>\<open>element_count * element_size\<close> bytes and the two positions
  count elements.  \<^verbatim>\<open>size_t\<close> values are \<open>nat\<close>s below \<open>2 ^ 64\<close> with the wrap-around of
  subtraction and multiplication written out, the \<^verbatim>\<open>(int)\<close> casts of
  \<^verbatim>\<open>WebRtc_MoveReadPtr\<close> are \<open>i32\<close>.  A pointer argument that may be NULL is an
  \<open>option\<close>.  The theory ends with the refinement of the buffer to a bounded FIFO of bytes.
\<close>

section \<open>State\<close>

datatype Wrap = SAME_WRAP | DIFF_WRAP

record RingBuffer =
  read_pos :: nat
  write_pos :: nat
  element_count :: nat
  element_size :: nat
  rw_wrap :: Wrap
  rb_data :: "byte list"

definition size_sub :: "nat \<Rightarrow> nat \<Rightarrow> nat" where
  "size_sub a b = (if b \<le> a then a - b else a + 2 ^ 64 - b)"

definition size_mult :: "nat \<Rightarrow> nat \<Rightarrow> nat" where
  "size_mult a b = (a * b) mod 2 ^ 64"

section \<open>Operations\<close>

definition available_read :: "RingBuffer \<Rightarrow> nat" where
  "available_read self =
     (if rw_wrap self = SAME_WRAP then size_sub (write_pos self) (read_pos self)
      else (size_sub (element_count self) (read_pos self) + write_pos self) mod 2 ^ 64)"

definition WebRtc_available_read :: "RingBuffer option \<Rightarrow> nat" where
  "WebRtc_available_read self = (case self of None \<Rightarrow> 0 | Some b \<Rightarrow> available_read b)"

definition available_write :: "RingBuffer \<Rightarrow> nat" where
  "available_write self = size_sub (element_count self) (available_read self)"

definition WebRtc_available_write :: "RingBuffer option \<Rightarrow> nat" where
  "WebRtc_available_write self = (case self of None \<Rightarrow> 0 | Some b \<Rightarrow> available_write b)"

definition WebRtc_InitBuffer :: "RingBuffer \<Rightarrow> RingBuffer" where
  "WebRtc_InitBuffer self = self\<lparr>read_pos := 0, write_pos := 0, rw_wrap := SAME_WRAP,
     rb_data := memcpy (rb_data self) 0
       (replicate (size_mult (element_count self) (element_size self)) 0)\<rparr>"

text \<open>\<^verbatim>\<open>malloc\<close> is a parameter: \<open>None\<close> is its NULL, and \<open>Some\<close> carries the
  uninitialised bytes of the new block.  The first call allocates the struct, whose bytes are
  all assigned before they are read.\<close>

definition WebRtc_CreateBuffer ::
  "(nat \<Rightarrow> unit option) \<Rightarrow> (nat \<Rightarrow> byte list option) \<Rightarrow> nat \<Rightarrow> nat \<Rightarrow> RingBuffer option" where
  "WebRtc_CreateBuffer malloc_self malloc_data count esize =
     (if count = 0 \<or> esize = 0 then None
      else case malloc_self 48 of None \<Rightarrow> None
      | Some _ \<Rightarrow>
        (case malloc_data (size_mult count esize) of None \<Rightarrow> None
         | Some d \<Rightarrow> Some (WebRtc_InitBuffer
             \<lparr>read_pos = 0, write_pos = 0, element_count = count, element_size = esize,
              rw_wrap = SAME_WRAP, rb_data = d\<rparr>)))"

definition MoveReadPtr :: "RingBuffer \<Rightarrow> int \<Rightarrow> int \<times> RingBuffer" where
  "MoveReadPtr self n =
     (let free_elements = i32 (int (available_write self));
          readable_elements = i32 (int (available_read self));
          read_pos0 = i32 (int (read_pos self));
          n1 = (if n > readable_elements then readable_elements else n);
          n2 = (if n1 < i32 (- free_elements) then i32 (- free_elements) else n1);
          pos1 = i32 (read_pos0 + n2);
          count = i32 (int (element_count self));
          (pos2, wrap2) = (if pos1 > count then (i32 (pos1 - count), SAME_WRAP)
                           else (pos1, rw_wrap self));
          (pos3, wrap3) = (if pos2 < 0 then (i32 (pos2 + count), DIFF_WRAP)
                           else (pos2, wrap2))
      in (n2, self\<lparr>read_pos := nat (pos3 mod 2 ^ 64), rw_wrap := wrap3\<rparr>))"

definition WebRtc_MoveReadPtr :: "RingBuffer option \<Rightarrow> int \<Rightarrow> int \<times> RingBuffer option" where
  "WebRtc_MoveReadPtr self n = (case self of None \<Rightarrow> (0, None)
     | Some b \<Rightarrow> (let (moved, b') = MoveReadPtr b n in (moved, Some b')))"

text \<open>A pointer handed out by a read: a byte offset inside \<^verbatim>\<open>self->data\<close>, or the
  caller's own \<^verbatim>\<open>data\<close> array.\<close>

datatype read_ptr = In_buffer nat | In_data

text \<open>\<^verbatim>\<open>GetBufferReadRegions\<close>: the element count, offset and byte length of the first
  region, and the second region, which starts at offset 0 when it is not NULL.\<close>

definition GetBufferReadRegions ::
  "RingBuffer \<Rightarrow> nat \<Rightarrow> nat \<times> nat \<times> nat \<times> nat option \<times> nat" where
  "GetBufferReadRegions buf n =
     (let readable_elements = available_read buf;
          read_elements = (if readable_elements < n then readable_elements else n);
          margin = size_sub (element_count buf) (read_pos buf);
          off = size_mult (read_pos buf) (element_size buf)
      in if read_elements > margin
         then (read_elements, off, size_mult margin (element_size buf),
               Some 0, size_mult (size_sub read_elements margin) (element_size buf))
         else (read_elements, off, size_mult read_elements (element_size buf), None, 0))"

record read_result =
  rr_count :: nat
  rr_self :: RingBuffer
  rr_data :: "byte list"
  rr_ptr :: "read_ptr option"

definition ReadBuffer :: "RingBuffer \<Rightarrow> bool \<Rightarrow> byte list \<Rightarrow> nat \<Rightarrow> read_result" where
  "ReadBuffer self data_ptr data n =
     (let (read_count, off1, bytes1, reg2, bytes2) = GetBufferReadRegions self n;
          block1 = take bytes1 (drop off1 (rb_data self));
          block2 = (case reg2 of None \<Rightarrow> [] | Some off2 \<Rightarrow> take bytes2 (drop off2 (rb_data self)));
          (data', ptr1) =
            (if bytes2 > 0 then (memcpy (memcpy data 0 block1) bytes1 block2, In_data)
             else if \<not> data_ptr then (memcpy data 0 block1, In_buffer off1)
             else (data, In_buffer off1))
      in \<lparr>rr_count = read_count,
          rr_self = snd (MoveReadPtr self (i32 (int read_count))),
          rr_data = data',
          rr_ptr = (if data_ptr then Some ptr1 else None)\<rparr>)"

definition WebRtc_ReadBuffer ::
  "RingBuffer option \<Rightarrow> bool \<Rightarrow> byte list option \<Rightarrow> nat \<Rightarrow> nat \<times> read_result option" where
  "WebRtc_ReadBuffer self data_ptr data n =
     (case self of None \<Rightarrow> (0, None) | Some b \<Rightarrow>
       (case data of None \<Rightarrow> (0, None)
        | Some d \<Rightarrow> (let r = ReadBuffer b data_ptr d n in (rr_count r, Some r))))"

definition WriteBuffer :: "RingBuffer \<Rightarrow> byte list \<Rightarrow> nat \<Rightarrow> nat \<times> RingBuffer" where
  "WriteBuffer self data n =
     (let free_elements = available_write self;
          write_elements = (if free_elements < n then free_elements else n);
          es = element_size self;
          margin = size_sub (element_count self) (write_pos self);
          (self1, rest) =
            (if write_elements > margin
             then (self\<lparr>rb_data := memcpy (rb_data self) (size_mult (write_pos self) es)
                               (take (size_mult margin es) data),
                        write_pos := 0, rw_wrap := DIFF_WRAP\<rparr>,
                   size_sub write_elements margin)
             else (self, write_elements))
      in (write_elements,
          self1\<lparr>rb_data := memcpy (rb_data self1) (size_mult (write_pos self1) es)
                   (take (size_mult rest es)
                     (drop (size_mult (size_sub write_elements rest) es) data)),
                write_pos := (write_pos self1 + rest) mod 2 ^ 64\<rparr>))"

definition WebRtc_WriteBuffer ::
  "RingBuffer option \<Rightarrow> byte list option \<Rightarrow> nat \<Rightarrow> nat \<times> RingBuffer option" where
  "WebRtc_WriteBuffer self data n =
     (case self of None \<Rightarrow> (0, None) | Some b \<Rightarrow>
       (case data of None \<Rightarrow> (0, Some b)
        | Some d \<Rightarrow> (let (w, b') = WriteBuffer b d n in (w, Some b'))))"

section \<open>Invariant\<close>

text \<open>The representation invariant.  The bound on \<^verbatim>\<open>element_count\<close> is what the \<^verbatim>\<open>(int)\<close>
  casts need, the bound on the product is what \<^verbatim>\<open>malloc\<close>'s argument needs.\<close>

definition rb_inv :: "RingBuffer \<Rightarrow> bool" where
  "rb_inv b \<longleftrightarrow>
     0 < element_count b \<and> 0 < element_size b \<and> element_count b < 2 ^ 30 \<and>
     element_count b * element_size b < 2 ^ 64 \<and>
     length (rb_data b) = element_count b * element_size b \<and>
     read_pos b \<le> element_count b \<and> write_pos b \<le> element_count b \<and>
     (case rw_wrap b of SAME_WRAP \<Rightarrow> read_pos b \<le> write_pos b
      | DIFF_WRAP \<Rightarrow> write_pos b \<le> read_pos b)"

text \<open>The number of readable elements and the bytes they hold, oldest first.\<close>

definition rb_fill :: "RingBuffer \<Rightarrow> nat" where
  "rb_fill b = (case rw_wrap b of SAME_WRAP \<Rightarrow> write_pos b - read_pos b
     | DIFF_WRAP \<Rightarrow> element_count b - read_pos b + write_pos b)"

definition rb_bytes :: "RingBuffer \<Rightarrow> byte list" where
  "rb_bytes b = map (\<lambda>j. rb_data b ! ((read_pos b * element_size b + j) mod
     (element_count b * element_size b))) [0..<rb_fill b * element_size b]"

subsection \<open>Arithmetic of the invariant\<close>

lemma rb_fill_le: "rb_inv b \<Longrightarrow> rb_fill b \<le> element_count b"
  by (auto simp: rb_inv_def rb_fill_def split: Wrap.splits)

lemma size_sub_le [simp]: "b \<le> a \<Longrightarrow> size_sub a b = a - b"
  by (simp add: size_sub_def)

lemma available_read_eq: "rb_inv b \<Longrightarrow> available_read b = rb_fill b"
  by (auto simp: rb_inv_def rb_fill_def available_read_def split: Wrap.splits)

lemma available_write_eq: "rb_inv b \<Longrightarrow> available_write b = element_count b - rb_fill b"
  by (simp add: available_write_def available_read_eq rb_fill_le)

lemma size_mult_inv:
  assumes "rb_inv b" "n \<le> element_count b"
  shows "size_mult n (element_size b) = n * element_size b"
proof -
  have "n * element_size b \<le> element_count b * element_size b"
    using assms(2) by (rule mult_le_mono1)
  also have "\<dots> < 2 ^ 64" using assms(1) by (simp add: rb_inv_def)
  finally show ?thesis by (simp add: size_mult_def)
qed

lemma rb_read_le: "rb_inv b \<Longrightarrow> read_pos b \<le> element_count b"
  and rb_write_le: "rb_inv b \<Longrightarrow> write_pos b \<le> element_count b"
  and rb_size_pos: "rb_inv b \<Longrightarrow> 0 < element_size b"
  and rb_count_pos: "rb_inv b \<Longrightarrow> 0 < element_count b"
  and rb_length: "rb_inv b \<Longrightarrow> length (rb_data b) = element_count b * element_size b"
  by (simp_all add: rb_inv_def)

lemmas rb_basic = rb_fill_le rb_read_le rb_write_le rb_size_pos rb_count_pos rb_length

lemma length_rb_bytes [simp]: "length (rb_bytes b) = rb_fill b * element_size b"
  by (simp add: rb_bytes_def)

subsection \<open>Moving the read position\<close>

definition move_amount :: "RingBuffer \<Rightarrow> int \<Rightarrow> int" where
  "move_amount b n = max (- int (element_count b - rb_fill b)) (min n (int (rb_fill b)))"

lemma move_amount_bounds:
  "rb_inv b \<Longrightarrow> - int (element_count b - rb_fill b) \<le> move_amount b n \<and> move_amount b n \<le> int (rb_fill b)"
  by (simp add: move_amount_def)

lemma MoveReadPtr_eq:
  fixes n :: int
  assumes inv: "rb_inv b"
  defines "m \<equiv> move_amount b n"
  defines "pos \<equiv> int (read_pos b) + m"
  shows "MoveReadPtr b n = (m,
    if pos > int (element_count b)
    then b\<lparr>read_pos := nat (pos - int (element_count b)), rw_wrap := SAME_WRAP\<rparr>
    else if pos < 0 then b\<lparr>read_pos := nat (pos + int (element_count b)), rw_wrap := DIFF_WRAP\<rparr>
    else b\<lparr>read_pos := nat pos\<rparr>)"
proof -
  have c: "element_count b < 2 ^ 30" using inv by (simp add: rb_inv_def)
  have f: "rb_fill b \<le> element_count b" and r: "read_pos b \<le> element_count b"
    using inv by (simp_all add: rb_fill_le rb_read_le)
  have i: "i32 (int (available_write b)) = int (element_count b - rb_fill b)"
    "i32 (int (available_read b)) = int (rb_fill b)" "i32 (int (read_pos b)) = int (read_pos b)"
    "i32 (int (element_count b)) = int (element_count b)"
    "i32 (- int (element_count b - rb_fill b)) = - int (element_count b - rb_fill b)"
    using inv c f r by (simp_all add: available_write_eq available_read_eq)
  have n2: "(let n1 = if n > int (rb_fill b) then int (rb_fill b) else n in
      if n1 < - int (element_count b - rb_fill b) then - int (element_count b - rb_fill b) else n1) = m"
    using f by (auto simp: m_def move_amount_def Let_def)
  have mb: "- int (element_count b - rb_fill b) \<le> m" "m \<le> int (rb_fill b)"
    using move_amount_bounds [OF inv] by (simp_all add: m_def)
  have p: "i32 pos = pos" and p2: "i32 (pos - int (element_count b)) = pos - int (element_count b)"
    and p3: "pos < 0 \<Longrightarrow> i32 (pos + int (element_count b)) = pos + int (element_count b)"
    using mb c f r by (simp_all add: pos_def)
  have bnd: "pos \<le> 2 * int (element_count b)" "- int (element_count b) \<le> pos"
    using mb c f r by (simp_all add: pos_def)
  show ?thesis
    using n2 mb c bnd unfolding MoveReadPtr_def i Let_def pos_def [symmetric]
    by (auto simp: p p2 p3 simp flip: pos_def)
qed

lemma MoveReadPtr_amount: "rb_inv b \<Longrightarrow> fst (MoveReadPtr b n) = move_amount b n"
  by (simp add: MoveReadPtr_eq)

lemma MoveReadPtr_frame:
  assumes "rb_inv b"
  shows "element_count (snd (MoveReadPtr b n)) = element_count b"
    "element_size (snd (MoveReadPtr b n)) = element_size b"
    "rb_data (snd (MoveReadPtr b n)) = rb_data b"
    "write_pos (snd (MoveReadPtr b n)) = write_pos b"
  by (simp_all add: MoveReadPtr_eq [OF assms])

lemma MoveReadPtr_inv:
  assumes "rb_inv b"
  shows "rb_inv (snd (MoveReadPtr b n))"
  using assms move_amount_bounds [OF assms, of n] rb_fill_le [OF assms]
  by (auto simp: MoveReadPtr_eq [OF assms] rb_inv_def rb_fill_def split: Wrap.splits)

lemma MoveReadPtr_fill:
  assumes "rb_inv b"
  shows "int (rb_fill (snd (MoveReadPtr b n))) = int (rb_fill b) - move_amount b n"
  using assms move_amount_bounds [OF assms, of n] rb_fill_le [OF assms]
  by (auto simp: MoveReadPtr_eq [OF assms] rb_inv_def rb_fill_def split: Wrap.splits)

lemma MoveReadPtr_pos:
  assumes "rb_inv b"
  shows "\<exists>k. int (read_pos (snd (MoveReadPtr b n))) =
    int (read_pos b) + move_amount b n + k * int (element_count b)"
  using assms move_amount_bounds [OF assms, of n] rb_fill_le [OF assms] rb_read_le [OF assms]
  by (auto simp: MoveReadPtr_eq [OF assms] intro: exI [of _ "- 1"] exI [of _ 0] exI [of _ 1])

subsection \<open>Contents\<close>

text \<open>Two buffers over the same array whose read positions differ by \<open>k\<close> elements around the
  ring: the later one holds the contents of the earlier one without its first \<open>k\<close> elements.\<close>

lemma rb_bytes_shift:
  assumes same: "rb_data b2 = rb_data b1" "element_count b2 = element_count b1"
      "element_size b2 = element_size b1"
    and pos: "read_pos b2 mod element_count b1 = (read_pos b1 + k) mod element_count b1"
    and fill: "rb_fill b1 = k + rb_fill b2"
  shows "rb_bytes b2 = drop (k * element_size b1) (rb_bytes b1)"
proof (rule nth_equalityI)
  show "length (rb_bytes b2) = length (drop (k * element_size b1) (rb_bytes b1))"
    using fill same by (simp add: algebra_simps)
next
  fix j assume "j < length (rb_bytes b2)"
  then have j: "j < rb_fill b2 * element_size b1" using same by simp
  define es N where "es = element_size b1" and "N = element_count b1 * element_size b1"
  have "(read_pos b2 * es) mod N = ((read_pos b1 + k) * es) mod N"
    using pos by (simp add: N_def es_def flip: mod_mult_mult2)
  then have "(read_pos b2 * es + j) mod N = ((read_pos b1 + k) * es + j) mod N"
    by (metis mod_add_left_eq)
  then have e: "(read_pos b2 * es + j) mod N = (read_pos b1 * es + (k * es + j)) mod N"
    by (simp add: algebra_simps)
  have "k * es + j < rb_fill b1 * es" using j fill by (simp add: es_def algebra_simps)
  then show "rb_bytes b2 ! j = drop (k * element_size b1) (rb_bytes b1) ! j"
    using j e same fill by (simp add: rb_bytes_def es_def N_def)
qed

lemma MoveReadPtr_pos_mod:
  assumes inv: "rb_inv b" and k: "move_amount b n = int k"
  shows "read_pos (snd (MoveReadPtr b n)) mod element_count b = (read_pos b + k) mod element_count b"
proof -
  let ?p = "read_pos (snd (MoveReadPtr b n))"
  obtain c where "int ?p = int (read_pos b) + int k + c * int (element_count b)"
    using MoveReadPtr_pos [OF inv, of n] k by auto
  then have "int ?p mod int (element_count b) = (int (read_pos b) + int k) mod int (element_count b)"
    by simp
  then have "int (?p mod element_count b) = int ((read_pos b + k) mod element_count b)"
    by (simp add: zmod_int)
  then show ?thesis by simp
qed

lemma MoveReadPtr_back_pos_mod:
  assumes inv: "rb_inv b" and k: "move_amount b n = - int k"
  shows "read_pos b mod element_count b = (read_pos (snd (MoveReadPtr b n)) + k) mod element_count b"
proof -
  let ?p = "read_pos (snd (MoveReadPtr b n))"
  obtain c where "int ?p = int (read_pos b) - int k + c * int (element_count b)"
    using MoveReadPtr_pos [OF inv, of n] k by auto
  then have "int ?p + int k = int (read_pos b) + c * int (element_count b)" by linarith
  then have "(int ?p + int k) mod int (element_count b) = int (read_pos b) mod int (element_count b)"
    by simp
  then have "int ((?p + k) mod element_count b) = int (read_pos b mod element_count b)"
    by (simp add: zmod_int)
  then show ?thesis by simp
qed

text \<open>A forward move drops elements, a backward move exposes old ones in front.\<close>

lemma MoveReadPtr_flush:
  assumes inv: "rb_inv b" and k: "move_amount b n = int k"
  shows "rb_bytes (snd (MoveReadPtr b n)) = drop (k * element_size b) (rb_bytes b)"
  using MoveReadPtr_fill [OF inv, of n] k
  by (intro rb_bytes_shift)
     (simp_all add: MoveReadPtr_frame [OF inv] MoveReadPtr_pos_mod [OF inv k])

lemma MoveReadPtr_stuff:
  assumes inv: "rb_inv b" and k: "move_amount b n = - int k"
  shows "rb_bytes b = drop (k * element_size b) (rb_bytes (snd (MoveReadPtr b n)))"
  using MoveReadPtr_fill [OF inv, of n] k
    rb_bytes_shift [of b "snd (MoveReadPtr b n)" k] MoveReadPtr_back_pos_mod [OF inv k]
  by (simp add: MoveReadPtr_frame [OF inv])

text \<open>The readable bytes as at most two contiguous regions.\<close>

lemma rb_bytes_take:
  assumes inv: "rb_inv b" and n: "n \<le> rb_fill b"
  shows "take (n * element_size b) (rb_bytes b) =
    (if n \<le> element_count b - read_pos b
     then take (n * element_size b) (drop (read_pos b * element_size b) (rb_data b))
     else drop (read_pos b * element_size b) (rb_data b) @
          take ((n - (element_count b - read_pos b)) * element_size b) (rb_data b))"
    (is "?l = ?r")
proof -
  define es where "es = element_size b"
  define N R where "N = element_count b * es" and "R = read_pos b * es"
  note fold = es_def [symmetric] R_def [symmetric] N_def [symmetric]
  have RN: "R \<le> N" using rb_read_le [OF inv] by (simp add: R_def N_def es_def)
  have fN: "rb_fill b * es \<le> N" using rb_fill_le [OF inv] by (simp add: N_def es_def)
  have nf: "n * es \<le> rb_fill b * es" using n by simp
  have len: "length (rb_data b) = N" using rb_length [OF inv] by (simp add: N_def es_def)
  have cases: "n \<le> element_count b - read_pos b \<longleftrightarrow> n * es \<le> N - R"
    using rb_size_pos [OF inv] by (simp add: N_def R_def es_def flip: diff_mult_distrib)
  have sub: "(n - (element_count b - read_pos b)) * es = n * es - (N - R)"
    by (simp add: N_def R_def es_def diff_mult_distrib)
  have nN: "n * es \<le> N" using nf fN by linarith
  have "length ?l = length ?r"
    using RN nf nN len unfolding cases sub fold by (auto simp: sub fold)
  moreover have "?l ! j = ?r ! j" if "j < length ?l" for j
  proof -
    from that have j: "j < n * es" using nf by (simp add: es_def)
    have "j < rb_fill b * es" using j nf by linarith
    then have lj: "?l ! j = rb_data b ! ((R + j) mod N)"
      using j by (simp add: rb_bytes_def fold)
    show ?thesis
    proof (cases "R + j < N")
      case True
      then show ?thesis using lj j len RN cases by (auto simp: nth_append fold)
    next
      case False
      then have "R + j - N < N" using j nN RN by linarith
      with False have "(R + j) mod N = R + j - N" by (simp add: le_mod_geq)
      moreover have "j - (N - R) = R + j - N" "\<not> j < N - R" "\<not> n * es \<le> N - R"
        "R + j - N < n * es + R - N"
        using RN False j by linarith+
      ultimately show ?thesis using lj j len RN cases sub
        by (auto simp: nth_append fold)
    qed
  qed
  ultimately show ?thesis by (rule nth_equalityI)
qed

section \<open>Behaviour of the operations\<close>

subsection \<open>Creation\<close>

lemma InitBuffer_data:
  assumes "length d = c * s" "c * s < 2 ^ 64"
  shows "memcpy d 0 (replicate (size_mult c s) (0::byte)) = replicate (c * s) 0"
  using assms by (simp add: memcpy_def size_mult_def)

lemma CreateBuffer_cases:
  assumes mem: "\<And>n d. malloc_data n = Some d \<Longrightarrow> length d = n"
    and sz: "c < 2 ^ 30" "c * s < 2 ^ 64"
    and cr: "WebRtc_CreateBuffer malloc_self malloc_data c s = Some b"
  shows "0 < c \<and> 0 < s \<and> b = \<lparr>read_pos = 0, write_pos = 0, element_count = c, element_size = s,
    rw_wrap = SAME_WRAP, rb_data = replicate (c * s) 0\<rparr>"
proof -
  obtain d where "malloc_data (size_mult c s) = Some d" "0 < c" "0 < s"
    "b = WebRtc_InitBuffer \<lparr>read_pos = 0, write_pos = 0, element_count = c, element_size = s,
      rw_wrap = SAME_WRAP, rb_data = d\<rparr>"
    using cr by (auto simp: WebRtc_CreateBuffer_def split: if_splits option.splits)
  moreover from this mem sz have "length d = c * s" by (auto simp: size_mult_def)
  ultimately show ?thesis using InitBuffer_data [of d c s] sz by (simp add: WebRtc_InitBuffer_def)
qed

lemma InitBuffer_inv: "rb_inv b \<Longrightarrow> rb_inv (WebRtc_InitBuffer b)"
  using InitBuffer_data [of "rb_data b"] by (simp add: rb_inv_def WebRtc_InitBuffer_def)

lemma InitBuffer_bytes: "rb_bytes (WebRtc_InitBuffer b) = []"
  by (simp add: rb_bytes_def rb_fill_def WebRtc_InitBuffer_def)

subsection \<open>Reading\<close>

text \<open>The bytes a caller sees after a read: through the returned pointer when there is one, in
  its own array otherwise.\<close>

definition delivered :: "read_result \<Rightarrow> byte list" where
  "delivered r = (let bytes = rr_count r * element_size (rr_self r) in
     case rr_ptr r of Some (In_buffer off) \<Rightarrow> take bytes (drop off (rb_data (rr_self r)))
     | Some In_data \<Rightarrow> take bytes (rr_data r)
     | None \<Rightarrow> take bytes (rr_data r))"

lemma GetBufferReadRegions_eq:
  fixes n :: nat
  assumes inv: "rb_inv b"
  defines "k \<equiv> min n (rb_fill b)"
  shows "GetBufferReadRegions b n =
    (if k > element_count b - read_pos b
     then (k, read_pos b * element_size b, (element_count b - read_pos b) * element_size b, Some 0,
           (k - (element_count b - read_pos b)) * element_size b)
     else (k, read_pos b * element_size b, k * element_size b, None, 0))"
proof -
  have k: "(if rb_fill b < n then rb_fill b else n) = k" by (simp add: k_def)
  have kc: "k \<le> element_count b" using rb_fill_le [OF inv] by (simp add: k_def)
  show ?thesis
    using kc rb_read_le [OF inv]
    by (simp add: GetBufferReadRegions_def available_read_eq [OF inv] k size_mult_inv [OF inv] Let_def)
qed

lemma ReadBuffer_count: "rb_inv b \<Longrightarrow> rr_count (ReadBuffer b p d n) = min n (rb_fill b)"
  by (auto simp: ReadBuffer_def GetBufferReadRegions_eq Let_def)

lemma ReadBuffer_self:
  assumes "rb_inv b"
  shows "rr_self (ReadBuffer b p d n) = snd (MoveReadPtr b (int (min n (rb_fill b))))"
proof -
  have "rb_fill b < 2 ^ 30" using rb_fill_le [OF assms] assms by (simp add: rb_inv_def)
  then have "i32 (int (min n (rb_fill b))) = int (min n (rb_fill b))" by simp
  then show ?thesis
    using assms by (auto simp: ReadBuffer_def GetBufferReadRegions_eq Let_def)
qed

lemma ReadBuffer_inv: "rb_inv b \<Longrightarrow> rb_inv (rr_self (ReadBuffer b p d n))"
  by (simp add: ReadBuffer_self MoveReadPtr_inv)

lemma ReadBuffer_rest:
  assumes "rb_inv b"
  shows "rb_bytes (rr_self (ReadBuffer b p d n)) = drop (min n (rb_fill b) * element_size b) (rb_bytes b)"
  unfolding ReadBuffer_self [OF assms]
  by (rule MoveReadPtr_flush [OF assms]) (simp add: move_amount_def)

lemma ReadBuffer_delivered:
  assumes inv: "rb_inv b" and room: "min n (rb_fill b) * element_size b \<le> length d"
  shows "delivered (ReadBuffer b p d n) = take (min n (rb_fill b) * element_size b) (rb_bytes b)"
proof -
  define k es m where "k = min n (rb_fill b)" and "es = element_size b"
    and "m = element_count b - read_pos b"
  note fold = k_def [symmetric] es_def [symmetric] m_def [symmetric]
  have kf: "k \<le> rb_fill b" by (simp add: k_def)
  have self: "rb_data (rr_self (ReadBuffer b p d n)) = rb_data b"
    "element_size (rr_self (ReadBuffer b p d n)) = es"
    by (simp_all add: ReadBuffer_self [OF inv] MoveReadPtr_frame [OF inv] es_def)
  have len: "length (drop (read_pos b * es) (rb_data b)) = m * es"
    using rb_length [OF inv] by (simp add: m_def es_def diff_mult_distrib)
  show ?thesis
  proof (cases "m < k")
    case True
    have "take (k * es) (memcpy (memcpy d 0 (drop (read_pos b * es) (rb_data b))) (m * es)
        (take ((k - m) * es) (rb_data b))) = drop (read_pos b * es) (rb_data b) @
        take ((k - m) * es) (rb_data b)"
    proof -
      have "(k - m) * es \<le> length (rb_data b)"
      proof -
        have "k - m \<le> element_count b" using kf rb_fill_le [OF inv] by linarith
        then show ?thesis using mult_le_mono1 rb_length [OF inv] by (simp add: es_def)
      qed
      moreover have "m * es + (k - m) * es = k * es" using True by (simp flip: distrib_right)
      ultimately show ?thesis using len room True by (simp add: memcpy_def fold diff_mult_distrib)
    qed
    moreover have "0 < (k - m) * es" using True rb_size_pos [OF inv] by (simp add: es_def)
    ultimately show ?thesis
      using True len self rb_bytes_take [OF inv kf] ReadBuffer_count [OF inv, of p d n]
      by (auto simp: delivered_def ReadBuffer_def GetBufferReadRegions_eq [OF inv] fold Let_def)
  next
    case False
    then have "k * es \<le> m * es" by simp
    then have "length (take (k * es) (drop (read_pos b * es) (rb_data b))) = k * es"
      using len by simp
    then show ?thesis
      using False self rb_bytes_take [OF inv kf] ReadBuffer_count [OF inv, of p d n] room
        take_memcpy_0 [of "take (k * es) (drop (read_pos b * es) (rb_data b))" d]
      by (auto simp: delivered_def ReadBuffer_def GetBufferReadRegions_eq [OF inv] fold Let_def)
  qed
qed

subsection \<open>Writing\<close>

definition write_amount :: "RingBuffer \<Rightarrow> nat \<Rightarrow> nat" where
  "write_amount b n = min n (element_count b - rb_fill b)"

text \<open>The write in its two branches, with the \<^verbatim>\<open>size_t\<close> arithmetic resolved.\<close>

lemma WriteBuffer_eq:
  fixes n :: nat
  assumes inv: "rb_inv b"
  defines "w \<equiv> write_amount b n" and "m \<equiv> element_count b - write_pos b" and "es \<equiv> element_size b"
  shows "WriteBuffer b d n = (w,
    if w > m
    then b\<lparr>rb_data := memcpy (memcpy (rb_data b) (write_pos b * es) (take (m * es) d)) 0
              (take ((w - m) * es) (drop (m * es) d)),
           write_pos := w - m, rw_wrap := DIFF_WRAP\<rparr>
    else b\<lparr>rb_data := memcpy (rb_data b) (write_pos b * es) (take (w * es) d),
           write_pos := write_pos b + w\<rparr>)"
proof -
  have w: "(if available_write b < n then available_write b else n) = w"
    by (simp add: available_write_eq [OF inv] w_def write_amount_def)
  have wc: "w \<le> element_count b" and wp: "write_pos b \<le> element_count b"
    using rb_write_le [OF inv] by (simp_all add: w_def write_amount_def)
  have big: "element_count b < 2 ^ 64" using inv by (simp add: rb_inv_def)
  have m: "size_sub (element_count b) (write_pos b) = m" using wp by (simp add: m_def)
  show ?thesis
    using wc wp big size_mult_inv [OF inv]
    by (auto simp: WriteBuffer_def Let_def w m es_def [symmetric] m_def)
qed

lemma WriteBuffer_amount: "rb_inv b \<Longrightarrow> fst (WriteBuffer b d n) = write_amount b n"
  by (simp add: WriteBuffer_eq)

lemma WriteBuffer_inv:
  assumes inv: "rb_inv b" and room: "write_amount b n * element_size b \<le> length d"
  shows "rb_inv (snd (WriteBuffer b d n)) \<and>
    rb_fill (snd (WriteBuffer b d n)) = rb_fill b + write_amount b n"
proof -
  define w m es where "w = write_amount b n" and "m = element_count b - write_pos b"
    and "es = element_size b"
  note fold = w_def [symmetric] m_def [symmetric] es_def [symmetric]
  have len: "length (rb_data b) = element_count b * es" using rb_length [OF inv] by (simp add: es_def)
  have wf: "w \<le> element_count b - rb_fill b" by (simp add: w_def write_amount_def)
  have mes: "write_pos b * es + m * es = element_count b * es"
    using rb_write_le [OF inv] by (simp add: m_def flip: distrib_right)
  show ?thesis
  proof (cases "w > m")
    case True
    have a: "m * es + (w - m) * es = w * es" using True by (simp flip: distrib_right)
    have le: "(w - m) * es \<le> element_count b * es" using wf by (intro mult_le_mono1) linarith
    define D where "D = memcpy (memcpy (rb_data b) (write_pos b * es) (take (m * es) d)) 0
        (take ((w - m) * es) (drop (m * es) d))"
    have l: "length (memcpy (rb_data b) (write_pos b * es) (take (m * es) d)) = element_count b * es"
      using len mes by simp
    have "length (take ((w - m) * es) (drop (m * es) d)) \<le> element_count b * es"
      by (rule order_trans [OF _ le]) simp
    with l have D: "length D = element_count b * es" by (simp add: D_def)
    have b': "snd (WriteBuffer b d n) = b\<lparr>rb_data := D, write_pos := w - m, rw_wrap := DIFF_WRAP\<rparr>"
      using True by (simp add: WriteBuffer_eq [OF inv] fold D_def)
    show ?thesis unfolding b'
      using inv wf True rb_fill_le [OF inv] D
      by (auto simp: w_def [symmetric] rb_inv_def rb_fill_def m_def es_def split: Wrap.splits)
  next
    case False
    then have "w * es \<le> m * es" by simp
    define D where "D = memcpy (rb_data b) (write_pos b * es) (take (w * es) d)"
    have "length (take (w * es) d) \<le> w * es" by simp
    then have "write_pos b * es + length (take (w * es) d) \<le> element_count b * es"
      using \<open>w * es \<le> m * es\<close> mes by linarith
    with len have D: "length D = element_count b * es" by (simp add: D_def)
    have b': "snd (WriteBuffer b d n) = b\<lparr>rb_data := D, write_pos := write_pos b + w\<rparr>"
      using False by (simp add: WriteBuffer_eq [OF inv] fold D_def)
    show ?thesis unfolding b'
      using inv wf False rb_fill_le [OF inv] D
      by (auto simp: w_def [symmetric] rb_inv_def rb_fill_def m_def es_def split: Wrap.splits)
  qed
qed

lemma WriteBuffer_frame:
  assumes "rb_inv b"
  shows "element_count (snd (WriteBuffer b d n)) = element_count b"
    "element_size (snd (WriteBuffer b d n)) = element_size b"
    "read_pos (snd (WriteBuffer b d n)) = read_pos b"
  by (simp_all add: WriteBuffer_eq [OF assms])

text \<open>Byte \<open>i\<close> of the array after a write: the bytes of \<open>d\<close> lie from the write position on,
  around the end of the array.\<close>

lemma WriteBuffer_data:
  assumes inv: "rb_inv b" and room: "write_amount b n * element_size b \<le> length d"
    and i: "i < element_count b * element_size b"
  defines "N \<equiv> element_count b * element_size b" and "W \<equiv> write_pos b * element_size b"
  defines "off \<equiv> (if W \<le> i then i - W else i + N - W)"
  shows "rb_data (snd (WriteBuffer b d n)) ! i =
    (if off < write_amount b n * element_size b then d ! off else rb_data b ! i)"
proof -
  define w m es where "w = write_amount b n" and "m = element_count b - write_pos b"
    and "es = element_size b"
  note fold = w_def [symmetric] m_def [symmetric] es_def [symmetric]
  have len: "length (rb_data b) = N" using rb_length [OF inv] by (simp add: N_def)
  have WN: "W + m * es = N"
    using rb_write_le [OF inv] by (simp add: m_def es_def N_def W_def flip: distrib_right)
  have W: "write_pos b * es = W" by (simp add: W_def es_def)
  have "w \<le> element_count b" unfolding w_def write_amount_def by linarith
  then have wN: "w * es \<le> N" unfolding N_def es_def by (rule mult_le_mono1)
  have iN: "i < N" using i by (simp add: N_def)
  have wd: "w * es \<le> length d" using room by (simp add: fold)
  show ?thesis
  proof (cases "w > m")
    case True
    have a: "m * es + (w - m) * es = w * es" using True by (simp flip: distrib_right)
    then have "rb_data (snd (WriteBuffer b d n)) ! i =
        (if i < (w - m) * es then d ! (m * es + i)
         else if W \<le> i then d ! (i - W) else rb_data b ! i)"
      using True iN len wN WN wd by (simp add: WriteBuffer_eq [OF inv] fold W nth_memcpy)
    moreover have "(w - m) * es = w * es - m * es" by (rule diff_mult_distrib)
    moreover have "m * es + i = i + N - W" "(w - m) * es \<le> W"
      using WN a wN by linarith+
    ultimately show ?thesis
      using a WN iN unfolding off_def fold by (auto simp: not_less)
  next
    case False
    then have "w * es \<le> m * es" by simp
    with WN have "W + w * es \<le> N" by linarith
    then show ?thesis
      using False iN len WN wd
      by (auto simp: WriteBuffer_eq [OF inv] fold W nth_memcpy off_def)
  qed
qed

text \<open>Byte \<open>j\<close> of the contents, as an offset from the write position around the ring.\<close>

lemma write_offset:
  fixes R W F N j i :: nat
  assumes le: "R \<le> N" "W \<le> N" "F \<le> N" "j < N" and i: "i = (R + j) mod N"
    and wrap: "W = R + F \<or> (W + N = R + F \<and> W \<le> R)"
  shows "(if W \<le> i then i - W else i + N - W) = (if j < F then j + N - F else j - F)"
proof (cases "R + j < N")
  case True
  then have "i = R + j" using i by simp
  then show ?thesis using le wrap True by auto
next
  case False
  then have "R + j - N < N" using le by linarith
  with False have "i = R + j - N" using i by (simp add: le_mod_geq)
  then show ?thesis using le wrap False by auto
qed

lemma rb_wrap_bytes:
  assumes "rb_inv b"
  shows "write_pos b * element_size b = read_pos b * element_size b + rb_fill b * element_size b \<or>
    (write_pos b * element_size b + element_count b * element_size b =
       read_pos b * element_size b + rb_fill b * element_size b \<and>
     write_pos b * element_size b \<le> read_pos b * element_size b)"
  using assms
  by (auto simp: rb_inv_def rb_fill_def simp flip: distrib_right split: Wrap.splits)

lemma WriteBuffer_bytes:
  assumes inv: "rb_inv b" and room: "write_amount b n * element_size b \<le> length d"
  shows "rb_bytes (snd (WriteBuffer b d n)) = rb_bytes b @ take (write_amount b n * element_size b) d"
    (is "?l = ?r")
proof (rule nth_equalityI)
  define w es where "w = write_amount b n" and "es = element_size b"
  define N R F W where "N = element_count b * es" and "R = read_pos b * es"
    and "F = rb_fill b * es" and "W = write_pos b * es"
  note fold = w_def [symmetric] es_def [symmetric] N_def [symmetric] R_def [symmetric]
    F_def [symmetric] W_def [symmetric]
  have fill: "rb_fill (snd (WriteBuffer b d n)) = rb_fill b + w"
    using WriteBuffer_inv [OF inv room] by (simp add: w_def)
  then have FW: "rb_fill (snd (WriteBuffer b d n)) * es = F + w * es"
    by (simp add: F_def distrib_right)
  show "length ?l = length ?r"
    using room by (simp add: WriteBuffer_frame [OF inv] FW fold)
  fix j assume "j < length ?l"
  then have j: "j < F + w * es" by (simp add: WriteBuffer_frame [OF inv] FW fold)
  have "rb_fill b + w \<le> element_count b"
    using rb_fill_le [OF inv] by (simp add: w_def write_amount_def)
  then have "(rb_fill b + w) * es \<le> N" unfolding N_def by (rule mult_le_mono1)
  then have FN: "F + w * es \<le> N" by (simp add: F_def distrib_right)
  have le: "R \<le> N" "W \<le> N"
    using rb_read_le [OF inv] rb_write_le [OF inv] by (simp_all add: R_def W_def N_def)
  define i where "i = (R + j) mod N"
  have "i < N" using j FN by (simp add: i_def)
  have off: "(if W \<le> i then i - W else i + N - W) = (if j < F then j + N - F else j - F)"
    using le FN j rb_wrap_bytes [OF inv] by (intro write_offset [of R]) (auto simp: i_def fold)
  have "?l ! j = rb_data (snd (WriteBuffer b d n)) ! i"
    using j by (simp add: rb_bytes_def WriteBuffer_frame [OF inv] FW fold i_def)
  also have "\<dots> = (if (if W \<le> i then i - W else i + N - W) < w * es
      then d ! (if W \<le> i then i - W else i + N - W) else rb_data b ! i)"
    using WriteBuffer_data [OF inv room, of i] \<open>i < N\<close> by (simp add: fold)
  also have "\<dots> = ?r ! j"
    unfolding off using j FN room by (auto simp: nth_append rb_bytes_def fold i_def)
  finally show "?l ! j = ?r ! j" .
qed

section \<open>The buffer as a bounded FIFO\<close>

definition rb_get :: "bool \<Rightarrow> RingBuffer \<Rightarrow> byte list \<Rightarrow> nat \<Rightarrow> byte list \<times> RingBuffer" where
  "rb_get data_ptr b d n = (let r = ReadBuffer b data_ptr d n in (delivered r, rr_self r))"

lemma take_min_fill: "take (min n (rb_fill b) * element_size b) (rb_bytes b) = take (n * element_size b) (rb_bytes b)"
  by (cases "n \<le> rb_fill b") (simp_all add: min_def)

lemma drop_min_fill: "drop (min n (rb_fill b) * element_size b) (rb_bytes b) = drop (n * element_size b) (rb_bytes b)"
  by (cases "n \<le> rb_fill b") (simp_all add: min_def)

lemma rb_get_eq:
  assumes inv: "rb_inv b" and d: "n * element_size b \<le> length d"
  shows "rb_get p b d n = (take (n * element_size b) (rb_bytes b), rr_self (ReadBuffer b p d n))"
    "rb_bytes (rr_self (ReadBuffer b p d n)) = drop (n * element_size b) (rb_bytes b)"
proof -
  have "min n (rb_fill b) * element_size b \<le> n * element_size b" by (intro mult_le_mono1) simp
  with d have "min n (rb_fill b) * element_size b \<le> length d" by linarith
  then show "rb_get p b d n = (take (n * element_size b) (rb_bytes b), rr_self (ReadBuffer b p d n))"
    by (simp add: rb_get_def ReadBuffer_delivered [OF inv] take_min_fill)
  show "rb_bytes (rr_self (ReadBuffer b p d n)) = drop (n * element_size b) (rb_bytes b)"
    by (simp add: ReadBuffer_rest [OF inv] drop_min_fill)
qed

lemma write_room:
  assumes "n * element_size b \<le> length d"
  shows "write_amount b n * element_size b \<le> length d"
proof -
  have "write_amount b n * element_size b \<le> n * element_size b"
    by (intro mult_le_mono1) (simp add: write_amount_def)
  with assms show ?thesis by linarith
qed

interpretation rbf: bounded_fifo rb_inv rb_bytes element_size element_count rb_fill WriteBuffer "rb_get p"
  for p
proof unfold_locales
  fix b :: RingBuffer and d :: "byte list" and n :: nat
  assume inv: "rb_inv b"
  show "length (rb_bytes b) = rb_fill b * element_size b" by simp
  show "rb_fill b \<le> element_count b" by (rule rb_fill_le [OF inv])
  show "fst (WriteBuffer b d n) = min n (element_count b - rb_fill b)"
    by (simp add: WriteBuffer_amount [OF inv] write_amount_def)
  show "element_size (snd (WriteBuffer b d n)) = element_size b"
    "element_count (snd (WriteBuffer b d n)) = element_count b"
    by (simp_all add: WriteBuffer_frame [OF inv])
  show "rb_inv (snd (rb_get p b d n))"
    "element_size (snd (rb_get p b d n)) = element_size b"
    "element_count (snd (rb_get p b d n)) = element_count b"
    by (simp_all add: rb_get_def Let_def inv ReadBuffer_self MoveReadPtr_inv MoveReadPtr_frame)
  assume d: "n * element_size b \<le> length d"
  show "rb_inv (snd (WriteBuffer b d n))" using WriteBuffer_inv [OF inv write_room [OF d]] by simp
  show "rb_bytes (snd (WriteBuffer b d n)) = rb_bytes b @ take (fst (WriteBuffer b d n) * element_size b) d"
    using WriteBuffer_bytes [OF inv write_room [OF d]] by (simp add: WriteBuffer_amount [OF inv])
  show "fst (rb_get p b d n) = take (n * element_size b) (rb_bytes b) \<and>
      rb_bytes (snd (rb_get p b d n)) = drop (n * element_size b) (rb_bytes b)"
    by (simp add: rb_get_eq [OF inv d])
qed

lemma MoveReadPtr_unread:
  assumes inv: "rb_inv b" and k: "k \<le> rb_fill b"
  shows "rb_bytes (snd (MoveReadPtr (snd (MoveReadPtr b (int k))) (- int k))) = rb_bytes b"
proof -
  let ?b1 = "snd (MoveReadPtr b (int k))"
  let ?b2 = "snd (MoveReadPtr ?b1 (- int k))"
  have m1: "move_amount b (int k) = int k" using k by (simp add: move_amount_def)
  have i1: "rb_inv ?b1" by (rule MoveReadPtr_inv [OF inv])
  have f1: "rb_fill ?b1 = rb_fill b - k" using MoveReadPtr_fill [OF inv, of "int k"] m1 k by simp
  have c1: "element_count ?b1 = element_count b" by (rule MoveReadPtr_frame [OF inv])
  have m2: "move_amount ?b1 (- int k) = - int k"
    using k f1 c1 rb_fill_le [OF inv] by (simp add: move_amount_def)
  have f2: "rb_fill ?b2 = rb_fill b"
    using MoveReadPtr_fill [OF i1, of "- int k"] m2 f1 k by simp
  obtain c where c: "int (read_pos ?b1) = int (read_pos b) + int k + c * int (element_count b)"
    using MoveReadPtr_pos [OF inv, of "int k"] m1 by auto
  moreover obtain d where "int (read_pos ?b2) = int (read_pos ?b1) - int k + d * int (element_count b)"
    using MoveReadPtr_pos [OF i1, of "- int k"] m2 c1 by auto
  ultimately have "int (read_pos ?b2) = int (read_pos b) + (c + d) * int (element_count b)"
    by (simp add: distrib_right)
  then have "int (read_pos ?b2) mod int (element_count b) = int (read_pos b) mod int (element_count b)"
    by simp
  then have "read_pos ?b2 mod element_count b = (read_pos b + 0) mod element_count b"
    by (simp flip: zmod_int)
  then show ?thesis
    using rb_bytes_shift [of ?b2 b 0] f2
    by (simp add: MoveReadPtr_frame [OF inv] MoveReadPtr_frame [OF i1])
qed

section \<open>Reachable buffers\<close>

text \<open>The buffers a program can hold: created with sizes that \<^verbatim>\<open>malloc\<close> and the \<^verbatim>\<open>int\<close>
  casts can represent, then passed to the operations in any order, with caller arrays that hold
  what the call asks for.\<close>

inductive rb_reach :: "RingBuffer \<Rightarrow> bool" where
  create: "WebRtc_CreateBuffer malloc_self malloc_data c s = Some b \<Longrightarrow>
    (\<And>n d. malloc_data n = Some d \<Longrightarrow> length d = n) \<Longrightarrow> c < 2 ^ 30 \<Longrightarrow> c * s < 2 ^ 64 \<Longrightarrow>
    rb_reach b"
| init: "rb_reach b \<Longrightarrow> rb_reach (WebRtc_InitBuffer b)"
| wr: "rb_reach b \<Longrightarrow> n * element_size b \<le> length d \<Longrightarrow>
    WebRtc_WriteBuffer (Some b) (Some d) n = (w, Some b') \<Longrightarrow> rb_reach b'"
| rd: "rb_reach b \<Longrightarrow> WebRtc_ReadBuffer (Some b) p (Some d) n = (k, Some r) \<Longrightarrow>
    rb_reach (rr_self r)"
| mv: "rb_reach b \<Longrightarrow> WebRtc_MoveReadPtr (Some b) n = (m, Some b') \<Longrightarrow> rb_reach b'"

lemma rb_reach_inv: "rb_reach b \<Longrightarrow> rb_inv b"
proof (induction rule: rb_reach.induct)
  case (create malloc_self malloc_data c s b)
  from CreateBuffer_cases [OF create(2,3,4,1)] create(3,4) show ?case by (auto simp: rb_inv_def)
next
  case (init b)
  then show ?case by (simp add: InitBuffer_inv)
next
  case (wr b n d w b')
  then show ?case using WriteBuffer_inv [OF wr.IH write_room [OF wr.hyps(2)]]
    by (simp add: WebRtc_WriteBuffer_def split: prod.splits)
next
  case (rd b p d n k r)
  then show ?case by (auto simp: WebRtc_ReadBuffer_def Let_def ReadBuffer_inv)
next
  case (mv b n m b')
  then show ?case using MoveReadPtr_inv [OF mv.IH, of n]
    by (simp add: WebRtc_MoveReadPtr_def split: prod.splits)
qed

section \<open>Properties\<close>

text \<open>C7. For every sequence of writes and reads (with \<open>data_ptr\<close> passed or NULL) on a
  well-formed buffer, the bytes delivered to the readers followed by what is still stored are
  exactly the bytes stored at the start followed by the bytes the writes accepted, in order:
  the ring buffer is a FIFO and loses, invents and reorders nothing.\<close>

theorem ring_buffer_stream:
  assumes "rb_inv b" "\<forall>op \<in> set ops. op_ok (element_size b) op"
    and "fifo_run element_size WriteBuffer (rb_get p) b ops = (acc, del, b')"
  shows "rb_inv b' \<and> rb_bytes b @ acc = del @ rb_bytes b'"
  using rbf.run_conserves [OF assms] by simp

definition rb_example :: RingBuffer where
  "rb_example = \<lparr>read_pos = 2, write_pos = 2, element_count = 3, element_size = 1,
     rw_wrap = SAME_WRAP, rb_data = [7, 8, 9]\<rparr>"

theorem ring_buffer_stream_witness:
  "fifo_run element_size WriteBuffer (rb_get True) rb_example [Put [1, 2, 3, 4] 4, Get [0, 0] 2]
     = ([1, 2, 3], [1, 2], rb_example\<lparr>read_pos := 1, rb_data := [2, 3, 1]\<rparr>) \<and>
   rb_bytes rb_example @ [1, 2, 3] =
     [1, 2] @ rb_bytes (rb_example\<lparr>read_pos := 1, rb_data := [2, 3, 1]\<rparr>)"
proof -
  have i: "rb_inv rb_example" by (simp add: rb_example_def rb_inv_def)
  have o: "\<forall>op \<in> set [Put [1, 2, 3, 4 :: byte] 4, Get [0, 0] 2]. op_ok (element_size rb_example) op"
    by (simp add: rb_example_def)
  have r: "fifo_run element_size WriteBuffer (rb_get True) rb_example [Put [1, 2, 3, 4] 4, Get [0, 0] 2]
     = ([1, 2, 3], [1, 2], rb_example\<lparr>read_pos := 1, rb_data := [2, 3, 1]\<rparr>)"
  proof -
    define b1 where "b1 = \<lparr>read_pos = 2, write_pos = 2, element_count = 3, element_size = 1,
      rw_wrap = DIFF_WRAP, rb_data = [2, 3, 1 :: byte]\<rparr>"
    have i1: "rb_inv b1" by (simp add: b1_def rb_inv_def)
    have "WriteBuffer rb_example [1, 2, 3, 4] 4 = (3, b1)"
      unfolding WriteBuffer_eq [OF i]
      by (simp add: write_amount_def rb_fill_def memcpy_def rb_example_def b1_def)
    moreover have "rb_get True b1 [0, 0] 2 = ([1, 2], rb_example\<lparr>read_pos := 1, rb_data := [2, 3, 1]\<rparr>)"
      using rb_get_eq(1) [OF i1, of 2 "[0, 0]" True]
      unfolding ReadBuffer_self [OF i1] MoveReadPtr_eq [OF i1]
      by (simp add: move_amount_def rb_fill_def rb_bytes_def b1_def rb_example_def upt_rec)
    ultimately show ?thesis by (simp add: b1_def rb_example_def)
  qed
  show ?thesis using r ring_buffer_stream [OF i o r] by simp
qed

text \<open>C8. Every buffer a program can reach from \<^verbatim>\<open>WebRtc_CreateBuffer\<close> by initialising,
  writing, reading and moving the read position keeps the representation invariant, and its
  readable and writable element counts always add up to its capacity.\<close>

theorem ring_buffer_reachable:
  assumes "rb_reach b"
  shows "rb_inv b \<and>
    WebRtc_available_read (Some b) + WebRtc_available_write (Some b) = element_count b"
  using rb_reach_inv [OF assms] rb_fill_le
  by (simp add: WebRtc_available_read_def WebRtc_available_write_def available_read_eq available_write_eq)

lemma rb_reach_example:
  "rb_reach \<lparr>read_pos = 0, write_pos = 0, element_count = 2, element_size = 1, rw_wrap = SAME_WRAP,
     rb_data = replicate 2 0\<rparr>"
  by (rule rb_reach.create [where malloc_self = "\<lambda>_. Some ()" and malloc_data = "\<lambda>n. Some (replicate n 1)"
        and c = 2 and s = 1])
     (auto simp: WebRtc_CreateBuffer_def WebRtc_InitBuffer_def size_mult_def memcpy_def)

theorem ring_buffer_reachable_witness:
  "WebRtc_available_read (Some \<lparr>read_pos = 0, write_pos = 0, element_count = 2, element_size = 1,
      rw_wrap = SAME_WRAP, rb_data = replicate 2 0\<rparr>) +
   WebRtc_available_write (Some \<lparr>read_pos = 0, write_pos = 0, element_count = 2, element_size = 1,
      rw_wrap = SAME_WRAP, rb_data = replicate 2 0\<rparr>) = 2"
  using ring_buffer_reachable [OF rb_reach_example] by simp

text \<open>C16. A write that fits is accepted whole, and a read of everything then returns the earlier
  contents followed by the written bytes and leaves the buffer empty, on whichever of the wrapped
  and unwrapped branches the two calls take.\<close>

theorem ring_buffer_write_read:
  assumes "rb_inv b" "n * element_size b \<le> length d" "rb_fill b + n \<le> element_count b"
    and "(rb_fill b + n) * element_size b \<le> length d'"
  shows "fst (WriteBuffer b d n) = n \<and>
    fst (rb_get p (snd (WriteBuffer b d n)) d' (rb_fill b + n)) =
      rb_bytes b @ take (n * element_size b) d \<and>
    rb_bytes (snd (rb_get p (snd (WriteBuffer b d n)) d' (rb_fill b + n))) = []"
  by (rule rbf.put_get [OF assms])

theorem ring_buffer_write_read_witness:
  "fst (rb_get False (snd (WriteBuffer rb_example [4, 5] 2)) [0, 0] 2) = [4, 5]"
proof -
  have "rb_inv rb_example" by (simp add: rb_example_def rb_inv_def)
  then have "fst (rb_get False (snd (WriteBuffer rb_example [4, 5] 2)) [0, 0] (rb_fill rb_example + 2)) =
      rb_bytes rb_example @ take (2 * element_size rb_example) [4, 5]"
    using ring_buffer_write_read [of rb_example 2 "[4, 5]" "[0, 0]" False]
    by (simp add: rb_example_def rb_fill_def)
  then show ?thesis by (simp add: rb_example_def rb_fill_def rb_bytes_def numeral_2_eq_2)
qed

text \<open>C17. \<^verbatim>\<open>WebRtc_MoveReadPtr\<close> moves by the requested amount clamped to what can be flushed
  or stuffed; flushing drops the oldest elements, and moving back by as much as was flushed
  restores the flushed contents.\<close>

theorem ring_buffer_move:
  assumes "rb_inv b"
  shows "fst (WebRtc_MoveReadPtr (Some b) n) =
      max (- int (WebRtc_available_write (Some b))) (min n (int (WebRtc_available_read (Some b)))) \<and>
    (k \<le> rb_fill b \<longrightarrow>
      rb_bytes (snd (MoveReadPtr b (int k))) = drop (k * element_size b) (rb_bytes b) \<and>
      rb_bytes (snd (MoveReadPtr (snd (MoveReadPtr b (int k))) (- int k))) = rb_bytes b)"
proof -
  have "fst (WebRtc_MoveReadPtr (Some b) n) = move_amount b n"
    using MoveReadPtr_amount [OF assms, of n]
    by (simp add: WebRtc_MoveReadPtr_def case_prod_unfold)
  moreover have "rb_bytes (snd (MoveReadPtr b (int k))) = drop (k * element_size b) (rb_bytes b)"
    if "k \<le> rb_fill b"
    using that by (intro MoveReadPtr_flush [OF assms]) (simp add: move_amount_def)
  ultimately show ?thesis
    using MoveReadPtr_unread [OF assms]
    by (simp add: move_amount_def WebRtc_available_read_def WebRtc_available_write_def
        available_read_eq [OF assms] available_write_eq [OF assms])
qed

theorem ring_buffer_move_witness:
  "fst (WebRtc_MoveReadPtr (Some (rb_example\<lparr>read_pos := 0\<rparr>)) (- 5)) = - 1"
proof -
  have "rb_inv (rb_example\<lparr>read_pos := 0\<rparr>)" by (simp add: rb_example_def rb_inv_def)
  from ring_buffer_move [OF this, of "- 5" 0] show ?thesis
    by (simp add: WebRtc_available_read_def WebRtc_available_write_def available_read_def
        available_write_def rb_example_def)
qed

end
