(* ===== verification/Spl_Inline.thy ===== *)
theory Spl_Inline
  imports C_Prelude
begin

text \<open>
  The inline functions of \<^verbatim>\<open>signal_processing/include/spl_inl.h\<close> (generic C branch): saturation,
  saturating addition and subtraction, bit size and the normalisation shifts on which every
  fixed-point routine of the library rests.
\<close>

section \<open>Saturation\<close>

definition WebRtcSpl_SatW32ToW16 :: "int \<Rightarrow> int" where
  "WebRtcSpl_SatW32ToW16 value32 =
     (if value32 > 32767 then 32767 else if value32 < - 32768 then - 32768 else i16 value32)"

definition WebRtcSpl_AddSatW32 :: "int \<Rightarrow> int \<Rightarrow> int" where
  "WebRtcSpl_AddSatW32 l_var1 l_var2 =
     (let l_sum = i32 (l_var1 + l_var2)
      in if l_var1 < 0
         then (if l_var2 < 0 \<and> l_sum \<ge> 0 then - 2147483648 else l_sum)
         else (if l_var2 > 0 \<and> l_sum < 0 then 2147483647 else l_sum))"

definition WebRtcSpl_SubSatW32 :: "int \<Rightarrow> int \<Rightarrow> int" where
  "WebRtcSpl_SubSatW32 l_var1 l_var2 =
     (let l_diff = i32 (l_var1 - l_var2)
      in if l_var1 < 0
         then (if l_var2 > 0 \<and> l_diff > 0 then - 2147483648 else l_diff)
         else (if l_var2 < 0 \<and> l_diff < 0 then 2147483647 else l_diff))"

definition WebRtcSpl_AddSatW16 :: "int \<Rightarrow> int \<Rightarrow> int" where
  "WebRtcSpl_AddSatW16 a b = WebRtcSpl_SatW32ToW16 (i32 (a + b))"

definition WebRtcSpl_SubSatW16 :: "int \<Rightarrow> int \<Rightarrow> int" where
  "WebRtcSpl_SubSatW16 var1 var2 = WebRtcSpl_SatW32ToW16 (i32 (var1 - var2))"

definition WebRtc_MulAccumW16 :: "int \<Rightarrow> int \<Rightarrow> int \<Rightarrow> int" where
  "WebRtc_MulAccumW16 a b c = i32 (a * b + c)"

text \<open>The specification of saturation: the nearest value of the type.\<close>

definition clamp :: "int \<Rightarrow> int \<Rightarrow> int \<Rightarrow> int" where
  "clamp lo hi x = max lo (min hi x)"

lemma SatW32ToW16_clamp: "WebRtcSpl_SatW32ToW16 x = clamp (- 32768) 32767 x"
  by (auto simp: WebRtcSpl_SatW32ToW16_def clamp_def)

lemma SatW32ToW16_range: "in_i16 (WebRtcSpl_SatW32ToW16 x)"
  by (auto simp: SatW32ToW16_clamp clamp_def)

lemma SatW32ToW16_id [simp]: "in_i16 x \<Longrightarrow> WebRtcSpl_SatW32ToW16 x = x"
  by (simp add: WebRtcSpl_SatW32ToW16_def)

text \<open>One wrap at most: the sum of two 32-bit values, read back.\<close>

lemma i32_wrap_cases:
  assumes "- 4294967296 \<le> x" "x \<le> 4294967295"
  shows "i32 x = (if x > 2147483647 then x - 4294967296 else if x < - 2147483648 then x + 4294967296 else x)"
proof -
  have "i32 x = i32 (x - 4294967296)" "i32 x = i32 (x + 4294967296)"
    by (rule i32_cong, simp)+
  then show ?thesis using assms by auto
qed

lemma AddSatW32_clamp:
  "in_i32 a \<Longrightarrow> in_i32 b \<Longrightarrow> WebRtcSpl_AddSatW32 a b = clamp (- 2147483648) 2147483647 (a + b)"
  by (auto simp: WebRtcSpl_AddSatW32_def clamp_def i32_wrap_cases Let_def)

lemma SubSatW32_clamp:
  "in_i32 a \<Longrightarrow> in_i32 b \<Longrightarrow> WebRtcSpl_SubSatW32 a b = clamp (- 2147483648) 2147483647 (a - b)"
  by (auto simp: WebRtcSpl_SubSatW32_def clamp_def i32_wrap_cases Let_def)

section \<open>Bit size\<close>

definition WebRtcSpl_GetSizeInBits :: "int \<Rightarrow> int" where
  "WebRtcSpl_GetSizeInBits n =
     (let bits = (if 0xFFFF0000 AND n \<noteq> 0 then 16 else 0);
          bits = (if 0x0000FF00 AND shr n bits \<noteq> 0 then bits + 8 else bits);
          bits = (if 0x000000F0 AND shr n bits \<noteq> 0 then bits + 4 else bits);
          bits = (if 0x0000000C AND shr n bits \<noteq> 0 then bits + 2 else bits);
          bits = (if 0x00000002 AND shr n bits \<noteq> 0 then bits + 1 else bits);
          bits = (if 0x00000001 AND shr n bits \<noteq> 0 then bits + 1 else bits)
      in int bits)"

text \<open>One bisection step: when \<open>n\<close> shifted by \<open>b\<close> fits in \<open>k + m\<close> bits, testing the upper
  \<open>m\<close> of them and adding \<open>k\<close> leaves a value that fits in \<open>k\<close> bits.\<close>

definition size_inv :: "int \<Rightarrow> nat \<Rightarrow> nat \<Rightarrow> bool" where
  "size_inv n b w \<longleftrightarrow> n < 2 ^ (b + w) \<and> (0 < n \<longrightarrow> 2 ^ b \<le> n)"

lemma size_step:
  assumes n: "0 \<le> n" and inv: "size_inv n b (k + k)"
  shows "size_inv n (if (2 ^ (k + k) - 2 ^ k) AND shr n b \<noteq> 0 then b + k else b) k"
proof -
  have s: "0 \<le> shr n b" "shr n b < 2 ^ (k + k)"
    using n inv by (auto simp: size_inv_def power_add mult_ac intro!: shr_upper)
  then have t: "((2 ^ (k + k) - 2 ^ k) AND shr n b = 0) = (shr n b < 2 ^ k)"
    using and_high_mask_eq_0 [of "shr n b" k k] by (simp add: and.commute)
  show ?thesis
  proof (cases "shr n b < 2 ^ k")
    case True
    have "n < 2 ^ (b + k)"
    proof (rule ccontr)
      assume "\<not> n < 2 ^ (b + k)"
      then have "2 ^ k * 2 ^ b \<le> n" by (simp add: power_add mult.commute)
      then have "2 ^ k \<le> shr n b" by (rule shr_lower)
      with True show False by simp
    qed
    then show ?thesis using True t inv by (simp add: size_inv_def)
  next
    case False
    have "2 ^ (b + k) \<le> n"
    proof (rule ccontr)
      assume "\<not> 2 ^ (b + k) \<le> n"
      then have "n < 2 ^ k * 2 ^ b" by (simp add: power_add mult.commute)
      then have "shr n b < 2 ^ k" by (rule shr_upper)
      with False show False by simp
    qed
    then show ?thesis using False t inv by (simp add: size_inv_def add.assoc)
  qed
qed

text \<open>\<open>GetSizeInBits\<close> is the number of significant bits.\<close>

lemma GetSizeInBits_spec:
  assumes "in_u32 n"
  shows "\<exists>k. WebRtcSpl_GetSizeInBits n = int k \<and> k \<le> 32 \<and> n < 2 ^ k \<and> (0 < n \<longrightarrow> 0 < k \<and> 2 ^ (k - 1) \<le> n)"
proof -
  have n: "0 \<le> n" using assms by simp
  define b1 :: nat where "b1 = (if 0xFFFF0000 AND n \<noteq> 0 then 16 else 0)"
  define b2 where "b2 = (if 0x0000FF00 AND shr n b1 \<noteq> 0 then b1 + 8 else b1)"
  define b3 where "b3 = (if 0x000000F0 AND shr n b2 \<noteq> 0 then b2 + 4 else b2)"
  define b4 where "b4 = (if 0x0000000C AND shr n b3 \<noteq> 0 then b3 + 2 else b3)"
  define b5 where "b5 = (if 0x00000002 AND shr n b4 \<noteq> 0 then b4 + 1 else b4)"
  have "size_inv n 0 (16 + 16)" using assms by (simp add: size_inv_def)
  from size_step [OF n this] have "size_inv n b1 (8 + 8)" by (simp add: b1_def split: if_splits)
  from size_step [OF n this] have "size_inv n b2 (4 + 4)" by (simp add: b2_def split: if_splits)
  from size_step [OF n this] have "size_inv n b3 (2 + 2)" by (simp add: b3_def split: if_splits)
  from size_step [OF n this] have "size_inv n b4 (1 + 1)" by (simp add: b4_def numeral_2_eq_2 split: if_splits)
  from size_step [OF n this] have i5: "size_inv n b5 1" by (simp add: b5_def split: if_splits)
  have b5: "b5 \<le> 31" by (simp add: b5_def b4_def b3_def b2_def b1_def)
  have bit: "0x00000001 AND shr n b5 \<noteq> 0 \<longleftrightarrow> 0 < n"
  proof -
    have "shr n b5 < 2" using i5 n by (auto simp: size_inv_def power_add mult.commute intro!: shr_upper)
    moreover have "1 \<le> shr n b5" if "0 < n"
      using i5 that by (intro shr_lower) (simp add: size_inv_def)
    moreover have "shr n b5 = 0" if "n = 0" using that by (simp add: shr_def)
    ultimately have "shr n b5 = (if 0 < n then 1 else 0)" using n shr_nonneg [OF n, of b5] by force
    then show ?thesis by simp
  qed
  have "WebRtcSpl_GetSizeInBits n = int (if 0 < n then b5 + 1 else b5)"
    unfolding WebRtcSpl_GetSizeInBits_def Let_def b1_def [symmetric] b2_def [symmetric]
      b3_def [symmetric] b4_def [symmetric] b5_def [symmetric] bit by simp
  moreover have "n < 2 ^ (if 0 < n then b5 + 1 else b5)" using i5 n by (auto simp: size_inv_def)
  ultimately show ?thesis using i5 b5
    by (intro exI [of _ "if 0 < n then b5 + 1 else b5"]) (auto simp: size_inv_def)
qed

section \<open>Normalisation\<close>

text \<open>The bisection step shared by the three functions: \<^verbatim>\<open>if (!(mask & (a << zeros))) zeros += k\<close>
  on 32-bit operands.\<close>

definition norm_step :: "int \<Rightarrow> nat \<Rightarrow> int \<Rightarrow> nat \<Rightarrow> nat" where
  "norm_step mask_bits k a zeros = (if mask_bits AND u32 (a * 2 ^ zeros) = 0 then zeros + k else zeros)"

definition WebRtcSpl_NormW32 :: "int \<Rightarrow> int" where
  "WebRtcSpl_NormW32 a =
     (if a = 0 then 0
      else let a = (if a < 0 then NOT a else a);
               zeros = (if 0xFFFF8000 AND u32 a = 0 then 16 else 0);
               zeros = norm_step 0xFF800000 8 a zeros;
               zeros = norm_step 0xF8000000 4 a zeros;
               zeros = norm_step 0xE0000000 2 a zeros;
               zeros = norm_step 0xC0000000 1 a zeros
           in int zeros)"

definition WebRtcSpl_NormU32 :: "int \<Rightarrow> int" where
  "WebRtcSpl_NormU32 a =
     (if a = 0 then 0
      else let zeros = (if 0xFFFF0000 AND a = 0 then 16 else 0);
               zeros = norm_step 0xFF000000 8 a zeros;
               zeros = norm_step 0xF0000000 4 a zeros;
               zeros = norm_step 0xC0000000 2 a zeros;
               zeros = norm_step 0x80000000 1 a zeros
           in int zeros)"

definition WebRtcSpl_NormW16 :: "int \<Rightarrow> int" where
  "WebRtcSpl_NormW16 a =
     (if a = 0 then 0
      else let a = (if a < 0 then NOT a else a);
               zeros = (if 0xFF80 AND u32 a = 0 then 8 else 0);
               zeros = norm_step 0xF800 4 a zeros;
               zeros = norm_step 0xE000 2 a zeros;
               zeros = norm_step 0xC000 1 a zeros
           in int zeros)"

text \<open>With \<open>a\<close> shifted below \<open>2 ^ w\<close>, the mask of the bits from \<open>t\<close> to \<open>w' > w\<close> decides
  whether another \<open>k\<close> places fit; afterwards \<open>a\<close> is shifted to at least \<open>2 ^ t\<close>.\<close>

lemma norm_step_spec:
  assumes a: "0 \<le> a" "a * 2 ^ z < 2 ^ w" and w: "w \<le> t + m" "t + m \<le> 32" "t + k = w"
  defines "z' \<equiv> norm_step (2 ^ (t + m) - 2 ^ t) k a z"
  shows "a * 2 ^ z' < 2 ^ w" "2 ^ (t - k) \<le> a * 2 ^ z \<Longrightarrow> k \<le> t \<Longrightarrow> 2 ^ t \<le> a * 2 ^ z'"
proof -
  have "(2 :: int) ^ w \<le> 2 ^ (t + m)" using w(1) by simp
  moreover have "(2 :: int) ^ (t + m) \<le> 2 ^ 32" using w(2) by (rule power_increasing) simp
  ultimately have b: "a * 2 ^ z < 2 ^ (t + m)" "a * 2 ^ z < 2 ^ 32" using a by linarith+
  have u: "u32 (a * 2 ^ z) = a * 2 ^ z" using a b(2) by (intro u32_id) simp
  have t: "((2 ^ (t + m) - 2 ^ t) AND u32 (a * 2 ^ z) = 0) = (a * 2 ^ z < 2 ^ t)"
    unfolding u using and_high_mask_eq_0 [of "a * 2 ^ z" t m] a b by (simp add: and.commute)
  have pw: "(2 :: int) ^ w = 2 ^ t * 2 ^ k" using w(3) by (metis power_add)
  show "a * 2 ^ z' < 2 ^ w"
  proof (cases "a * 2 ^ z < 2 ^ t")
    case True
    then have "a * 2 ^ z * 2 ^ k < 2 ^ t * 2 ^ k" by simp
    then show ?thesis using True t by (simp add: z'_def norm_step_def pw power_add mult_ac)
  qed (use a t in \<open>simp add: z'_def norm_step_def\<close>)
  show "2 ^ t \<le> a * 2 ^ z'" if lo: "2 ^ (t - k) \<le> a * 2 ^ z" and "k \<le> t"
  proof (cases "a * 2 ^ z < 2 ^ t")
    case True
    have "(2 :: int) ^ (t - k) * 2 ^ k \<le> a * 2 ^ z * 2 ^ k" using lo by simp
    moreover have "(2 :: int) ^ (t - k) * 2 ^ k = 2 ^ t" using that by (simp flip: power_add)
    ultimately have "2 ^ t \<le> a * 2 ^ z * 2 ^ k" by linarith
    then show ?thesis using True t by (simp add: z'_def norm_step_def power_add mult_ac)
  qed (use t in \<open>simp add: z'_def norm_step_def\<close>)
qed

lemma norm_step_le: "norm_step mk k a z \<le> z + k"
  by (simp add: norm_step_def)

text \<open>The normalisation of a non-negative 31-bit value: the shift keeps it below \<open>2 ^ 31\<close> and
  brings a positive one to at least \<open>2 ^ 30\<close>.\<close>

definition norm31 :: "int \<Rightarrow> nat" where
  "norm31 a = (let zeros = (if 0xFFFF8000 AND u32 a = 0 then 16 else 0);
     zeros = norm_step 0xFF800000 8 a zeros; zeros = norm_step 0xF8000000 4 a zeros;
     zeros = norm_step 0xE0000000 2 a zeros in norm_step 0xC0000000 1 a zeros)"

lemma norm31_spec:
  assumes a: "0 \<le> a" "a < 2147483648"
  shows "a * 2 ^ norm31 a < 2147483648" "0 < a \<Longrightarrow> 1073741824 \<le> a * 2 ^ norm31 a" "norm31 a \<le> 31"
proof -
  define z1 :: nat where "z1 = (if 0xFFFF8000 AND u32 a = 0 then 16 else 0)"
  define z2 where "z2 = norm_step 0xFF800000 8 a z1"
  define z3 where "z3 = norm_step 0xF8000000 4 a z2"
  define z4 where "z4 = norm_step 0xE0000000 2 a z3"
  define z5 where "z5 = norm_step 0xC0000000 1 a z4"
  have eq: "norm31 a = z5"
    by (simp add: norm31_def Let_def z1_def z2_def z3_def z4_def z5_def)
  have "(0xFFFF8000 AND u32 a = 0) = (a < 32768)"
    using and_high_mask_eq_0 [of a 15 17] a by (simp add: and.commute)
  then have z1: "z1 = (if a < 32768 then 16 else 0)" by (simp add: z1_def)
  have u1: "a * 2 ^ z1 < 2 ^ 31" using a by (simp add: z1)
  have l1: "2 ^ (23 - 8) \<le> a * 2 ^ z1" if "0 < a" using that by (simp add: z1)
  note s2 = norm_step_spec [of a z1 31 23 9 8, simplified, folded z2_def]
  have u2: "a * 2 ^ z2 < 2 ^ 31" using s2 a u1 by simp
  have l2: "2 ^ (27 - 4) \<le> a * 2 ^ z2" if "0 < a" using s2 a u1 l1 [OF that] by simp
  note s3 = norm_step_spec [of a z2 31 27 5 4, simplified, folded z3_def]
  have u3: "a * 2 ^ z3 < 2 ^ 31" using s3 a u2 by simp
  have l3: "2 ^ (29 - 2) \<le> a * 2 ^ z3" if "0 < a" using s3 a u2 l2 [OF that] by simp
  note s4 = norm_step_spec [of a z3 31 29 3 2, simplified, folded z4_def]
  have u4: "a * 2 ^ z4 < 2 ^ 31" using s4 a u3 by simp
  have l4: "2 ^ (30 - 1) \<le> a * 2 ^ z4" if "0 < a" using s4 a u3 l3 [OF that] by simp
  note s5 = norm_step_spec [of a z4 31 30 2 1, simplified, folded z5_def [simplified]]
  show "a * 2 ^ norm31 a < 2147483648" using s5 a u4 by (simp add: eq)
  show "1073741824 \<le> a * 2 ^ norm31 a" if "0 < a" using s5 a u4 l4 [OF that] by (simp add: eq)
  show "norm31 a \<le> 31"
    by (simp add: eq z5_def z4_def z3_def z2_def z1_def norm_step_def)
qed

lemma NormW32_norm31:
  "a \<noteq> 0 \<Longrightarrow> WebRtcSpl_NormW32 a = int (norm31 (if a < 0 then NOT a else a))"
  by (simp add: WebRtcSpl_NormW32_def norm31_def Let_def)

lemma NormW32_pos:
  assumes "0 < a" "a < 2147483648"
  obtains z where "WebRtcSpl_NormW32 a = int z" "z \<le> 30" "1073741824 \<le> a * 2 ^ z" "a * 2 ^ z < 2147483648"
proof -
  have "norm31 a \<noteq> 31"
  proof
    assume "norm31 a = 31"
    then have "a * 2147483648 < 2147483648" using norm31_spec(1) [of a] assms by simp
    with assms show False by simp
  qed
  then show ?thesis
    using assms norm31_spec [of a] by (intro that [of "norm31 a"]) (simp_all add: NormW32_norm31)
qed

lemma NormU32_pos:
  assumes a: "0 < a" "a < 4294967296"
  obtains z where "WebRtcSpl_NormU32 a = int z" "z \<le> 31" "2147483648 \<le> a * 2 ^ z" "a * 2 ^ z < 4294967296"
proof -
  define z1 :: nat where "z1 = (if 0xFFFF0000 AND a = 0 then 16 else 0)"
  define z2 where "z2 = norm_step 0xFF000000 8 a z1"
  define z3 where "z3 = norm_step 0xF0000000 4 a z2"
  define z4 where "z4 = norm_step 0xC0000000 2 a z3"
  define z5 where "z5 = norm_step 0x80000000 1 a z4"
  have eq: "WebRtcSpl_NormU32 a = int z5"
    using a by (simp add: WebRtcSpl_NormU32_def Let_def z1_def z2_def z3_def z4_def z5_def)
  have "(0xFFFF0000 AND a = 0) = (a < 65536)"
    using and_high_mask_eq_0 [of a 16 16] a by (simp add: and.commute)
  then have z1: "z1 = (if a < 65536 then 16 else 0)" by (simp add: z1_def)
  have u1: "a * 2 ^ z1 < 2 ^ 32" and l1: "2 ^ (24 - 8) \<le> a * 2 ^ z1" using a by (simp_all add: z1)
  note s2 = norm_step_spec [of a z1 32 24 8 8, simplified, folded z2_def]
  have u2: "a * 2 ^ z2 < 2 ^ 32" and l2: "2 ^ (28 - 4) \<le> a * 2 ^ z2" using s2 a u1 l1 by simp_all
  note s3 = norm_step_spec [of a z2 32 28 4 4, simplified, folded z3_def]
  have u3: "a * 2 ^ z3 < 2 ^ 32" and l3: "2 ^ (30 - 2) \<le> a * 2 ^ z3" using s3 a u2 l2 by simp_all
  note s4 = norm_step_spec [of a z3 32 30 2 2, simplified, folded z4_def]
  have u4: "a * 2 ^ z4 < 2 ^ 32" and l4: "2 ^ (31 - 1) \<le> a * 2 ^ z4" using s4 a u3 l3 by simp_all
  note s5 = norm_step_spec [of a z4 32 31 1 1, simplified, folded z5_def [simplified]]
  have "a * 2 ^ z5 < 4294967296" "2147483648 \<le> a * 2 ^ z5" using s5 a u4 l4 by simp_all
  moreover have "z5 \<le> 31" by (simp add: z5_def z4_def z3_def z2_def z1_def norm_step_def)
  ultimately show ?thesis using eq that by blast
qed

lemma NormW16_pos:
  assumes a: "0 < a" "a < 32768"
  obtains z where "WebRtcSpl_NormW16 a = int z" "z \<le> 14" "16384 \<le> a * 2 ^ z" "a * 2 ^ z < 32768"
proof -
  define z1 :: nat where "z1 = (if 0xFF80 AND u32 a = 0 then 8 else 0)"
  define z2 where "z2 = norm_step 0xF800 4 a z1"
  define z3 where "z3 = norm_step 0xE000 2 a z2"
  define z4 where "z4 = norm_step 0xC000 1 a z3"
  have eq: "WebRtcSpl_NormW16 a = int z4"
    using a by (simp add: WebRtcSpl_NormW16_def Let_def z1_def z2_def z3_def z4_def)
  have "(0xFF80 AND u32 a = 0) = (a < 128)"
    using and_high_mask_eq_0 [of a 7 9] a by (simp add: and.commute)
  then have z1: "z1 = (if a < 128 then 8 else 0)" by (simp add: z1_def)
  have u1: "a * 2 ^ z1 < 2 ^ 15" and l1: "2 ^ (11 - 4) \<le> a * 2 ^ z1" using a by (simp_all add: z1)
  note s2 = norm_step_spec [of a z1 15 11 5 4, simplified, folded z2_def]
  have u2: "a * 2 ^ z2 < 2 ^ 15" and l2: "2 ^ (13 - 2) \<le> a * 2 ^ z2" using s2 a u1 l1 by simp_all
  note s3 = norm_step_spec [of a z2 15 13 3 2, simplified, folded z3_def]
  have u3: "a * 2 ^ z3 < 2 ^ 15" and l3: "2 ^ (14 - 1) \<le> a * 2 ^ z3" using s3 a u2 l2 by simp_all
  note s4 = norm_step_spec [of a z3 15 14 2 1, simplified, folded z4_def [simplified]]
  have f: "a * 2 ^ z4 < 32768" "16384 \<le> a * 2 ^ z4" using s4 a u3 l3 by simp_all
  have "z4 \<le> 15" by (simp add: z4_def z3_def z2_def z1_def norm_step_def)
  moreover have "z4 \<noteq> 15" using f a by auto
  ultimately show ?thesis using eq that f by (metis le_neq_implies_less less_Suc_eq_le eval_nat_numeral(3) Suc_numeral semiring_norm(5))
qed

text \<open>C18. \<^verbatim>\<open>WebRtcSpl_NormW32\<close> of a non-zero 32-bit value is the largest left shift that does not
  change its sign: the shifted value is still a 32-bit value and it uses the full magnitude.\<close>

theorem NormW32_normalises:
  assumes "in_i32 a" "a \<noteq> 0"
  shows "\<exists>z. WebRtcSpl_NormW32 a = int z \<and> z \<le> 31 \<and> in_i32 (a * 2 ^ z) \<and>
    (0 < a \<longrightarrow> 1073741824 \<le> a * 2 ^ z) \<and> (a < 0 \<longrightarrow> a * 2 ^ z < - 1073741824)"
proof (cases "0 < a")
  case True
  with assms obtain z where "WebRtcSpl_NormW32 a = int z" "z \<le> 30" "1073741824 \<le> a * 2 ^ z"
    "a * 2 ^ z < 2147483648" using NormW32_pos [of a] by force
  with True show ?thesis by (intro exI [of _ z]) auto
next
  case False
  with assms have neg: "a < 0" by simp
  define c z where "c = NOT a" and "z = norm31 c"
  have c: "0 \<le> c" "c < 2147483648" "a = - c - 1" using assms neg by (simp_all add: c_def not_int_def)
  have zz: "z \<le> 31" and up: "c * 2 ^ z < 2147483648" and lo: "0 < c \<Longrightarrow> 1073741824 \<le> c * 2 ^ z"
    using norm31_spec [OF c(1,2)] by (simp_all add: z_def)
  have p: "(2 :: int) ^ (31 - z) * 2 ^ z = 2147483648" using zz by (simp flip: power_add)
  have "c < 2 ^ (31 - z)"
  proof (rule ccontr)
    assume "\<not> c < 2 ^ (31 - z)"
    then have "2 ^ (31 - z) * 2 ^ z \<le> c * 2 ^ z" by simp
    with p up show False by linarith
  qed
  then have "(c + 1) * 2 ^ z \<le> 2 ^ (31 - z) * 2 ^ z" by (intro mult_right_mono) simp_all
  with p have b1: "- 2147483648 \<le> a * 2 ^ z" by (simp add: c(3) algebra_simps)
  have b2: "a * 2 ^ z < - 1073741824"
  proof (cases "c = 0")
    case True
    have "norm31 0 = 31" by (simp add: norm31_def norm_step_def Let_def)
    then show ?thesis using True c(3) by (simp add: z_def)
  next
    case False
    have "(0 :: int) < 2 ^ z" by simp
    moreover have "a * 2 ^ z = - (c * 2 ^ z) - 2 ^ z" by (simp add: c(3) algebra_simps)
    ultimately show ?thesis using lo False c(1) by linarith
  qed
  have "WebRtcSpl_NormW32 a = int z" using neg by (simp add: NormW32_norm31 z_def c_def)
  then show ?thesis using zz b1 b2 neg by (intro exI [of _ z]) auto
qed

theorem NormW32_normalises_witness: "in_i32 (- 5 * 2 ^ nat (WebRtcSpl_NormW32 (- 5)))"
  using NormW32_normalises [of "- 5"] by auto

text \<open>C19. The saturating 32-bit addition and subtraction return the exact result clamped to the
  32-bit range for all operands, although they detect overflow from the sign of the wrapped
  result, and the 16-bit conversion and operations clamp likewise.\<close>

theorem saturating_arithmetic:
  "(in_i32 a \<and> in_i32 b \<longrightarrow>
     WebRtcSpl_AddSatW32 a b = clamp (- 2147483648) 2147483647 (a + b) \<and>
     WebRtcSpl_SubSatW32 a b = clamp (- 2147483648) 2147483647 (a - b) \<and>
     WebRtcSpl_SatW32ToW16 a = clamp (- 32768) 32767 a) \<and>
   (in_i16 c \<and> in_i16 d \<longrightarrow>
     WebRtcSpl_AddSatW16 c d = clamp (- 32768) 32767 (c + d) \<and>
     WebRtcSpl_SubSatW16 c d = clamp (- 32768) 32767 (c - d))"
  by (simp add: AddSatW32_clamp SubSatW32_clamp SatW32ToW16_clamp WebRtcSpl_AddSatW16_def
      WebRtcSpl_SubSatW16_def)

theorem saturating_arithmetic_witness:
  "WebRtcSpl_AddSatW32 2147483647 1 = 2147483647 \<and> WebRtcSpl_SubSatW32 (- 2147483648) 1 = - 2147483648"
  using saturating_arithmetic [of 2147483647 1] saturating_arithmetic [of "- 2147483648" 1]
  by (simp add: clamp_def)

end
