(* ===== verification/Spl_MinMax.thy ===== *)
theory Spl_MinMax
  imports C_Prelude
begin

text \<open>
  \<^verbatim>\<open>signal_processing/min_max_operations.c\<close>: the generic C versions of the searches for the
  largest, smallest and largest absolute value of a vector and for its index.  A vector argument
  is \<open>None\<close> for NULL, or the samples from the pointer on; \<open>length\<close> is the C argument.
  The value loops and the index loops are \<open>foldl\<close>s over the samples; the comparison they use
  is a parameter of the loop, and the contract of the index loops is proved once, in a locale over
  any strict linear order.
\<close>

section \<open>Loops\<close>

definition best_value_loop :: "(int \<Rightarrow> int \<Rightarrow> bool) \<Rightarrow> (int \<Rightarrow> int) \<Rightarrow> int \<Rightarrow> int list \<Rightarrow> int" where
  "best_value_loop better f start xs = foldl (\<lambda>m x. if better (f x) m then f x else m) start xs"

text \<open>The state of an index loop: the loop counter, \<^verbatim>\<open>index\<close>, and the best value so far.\<close>

definition best_index_step ::
  "(int \<Rightarrow> int \<Rightarrow> bool) \<Rightarrow> (int \<Rightarrow> int) \<Rightarrow> nat \<times> nat \<times> int \<Rightarrow> int \<Rightarrow> nat \<times> nat \<times> int" where
  "best_index_step better f st x = (case st of (i, index, m) \<Rightarrow>
     if better (f x) m then (Suc i, i, f x) else (Suc i, index, m))"

definition best_index_loop :: "(int \<Rightarrow> int \<Rightarrow> bool) \<Rightarrow> (int \<Rightarrow> int) \<Rightarrow> int \<Rightarrow> int list \<Rightarrow> nat" where
  "best_index_loop better f start xs = fst (snd (foldl (best_index_step better f) (0, 0, start) xs))"

section \<open>Functions\<close>

text \<open>The common guard \<^verbatim>\<open>vector == NULL || length <= 0\<close>.\<close>

definition guarded :: "int list option \<Rightarrow> int \<Rightarrow> int \<Rightarrow> (int list \<Rightarrow> int) \<Rightarrow> int" where
  "guarded vec len err body = (case vec of None \<Rightarrow> err
     | Some xs \<Rightarrow> if len \<le> 0 then err else body (take (nat len) xs))"

definition WebRtcSpl_MaxAbsValueW16C :: "int list option \<Rightarrow> int \<Rightarrow> int" where
  "WebRtcSpl_MaxAbsValueW16C vec len = guarded vec len (- 1) (\<lambda>xs.
     let maximum = best_value_loop (\<lambda>a b. a > b) abs 0 xs
     in i16 (if maximum > 32767 then 32767 else maximum))"

text \<open>\<^verbatim>\<open>abs\<close> of the most negative \<^verbatim>\<open>int\<close> is itself, which as \<^verbatim>\<open>uint32_t\<close> is
  \<^verbatim>\<open>0x80000000\<close>.\<close>

definition WebRtcSpl_MaxAbsValueW32C :: "int list option \<Rightarrow> int \<Rightarrow> int" where
  "WebRtcSpl_MaxAbsValueW32C vec len = guarded vec len (- 1) (\<lambda>xs.
     let maximum = best_value_loop (\<lambda>a b. a > b) (\<lambda>x. u32 (i32 \<bar>x\<bar>)) 0 xs;
         maximum = (if maximum < 2147483647 then maximum else 2147483647)
     in i32 maximum)"

definition WebRtcSpl_MaxValueW16C :: "int list option \<Rightarrow> int \<Rightarrow> int" where
  "WebRtcSpl_MaxValueW16C vec len =
     guarded vec len (- 32768) (best_value_loop (\<lambda>a b. a > b) (\<lambda>x. x) (- 32768))"

definition WebRtcSpl_MaxValueW32C :: "int list option \<Rightarrow> int \<Rightarrow> int" where
  "WebRtcSpl_MaxValueW32C vec len =
     guarded vec len (- 2147483648) (best_value_loop (\<lambda>a b. a > b) (\<lambda>x. x) (- 2147483648))"

definition WebRtcSpl_MinValueW16C :: "int list option \<Rightarrow> int \<Rightarrow> int" where
  "WebRtcSpl_MinValueW16C vec len =
     guarded vec len 32767 (best_value_loop (\<lambda>a b. a < b) (\<lambda>x. x) 32767)"

definition WebRtcSpl_MinValueW32C :: "int list option \<Rightarrow> int \<Rightarrow> int" where
  "WebRtcSpl_MinValueW32C vec len =
     guarded vec len 2147483647 (best_value_loop (\<lambda>a b. a < b) (\<lambda>x. x) 2147483647)"

definition WebRtcSpl_MaxAbsIndexW16 :: "int list option \<Rightarrow> int \<Rightarrow> int" where
  "WebRtcSpl_MaxAbsIndexW16 vec len =
     guarded vec len (- 1) (\<lambda>xs. int (best_index_loop (\<lambda>a b. a > b) abs 0 xs))"

definition WebRtcSpl_MaxIndexW16 :: "int list option \<Rightarrow> int \<Rightarrow> int" where
  "WebRtcSpl_MaxIndexW16 vec len =
     guarded vec len (- 1) (\<lambda>xs. int (best_index_loop (\<lambda>a b. a > b) (\<lambda>x. x) (- 32768) xs))"

definition WebRtcSpl_MaxIndexW32 :: "int list option \<Rightarrow> int \<Rightarrow> int" where
  "WebRtcSpl_MaxIndexW32 vec len =
     guarded vec len (- 1) (\<lambda>xs. int (best_index_loop (\<lambda>a b. a > b) (\<lambda>x. x) (- 2147483648) xs))"

definition WebRtcSpl_MinIndexW16 :: "int list option \<Rightarrow> int \<Rightarrow> int" where
  "WebRtcSpl_MinIndexW16 vec len =
     guarded vec len (- 1) (\<lambda>xs. int (best_index_loop (\<lambda>a b. a < b) (\<lambda>x. x) 32767 xs))"

definition WebRtcSpl_MinIndexW32 :: "int list option \<Rightarrow> int \<Rightarrow> int" where
  "WebRtcSpl_MinIndexW32 vec len =
     guarded vec len (- 1) (\<lambda>xs. int (best_index_loop (\<lambda>a b. a < b) (\<lambda>x. x) 2147483647 xs))"

section \<open>The contract of the loops\<close>

locale strict_scan =
  fixes better :: "int \<Rightarrow> int \<Rightarrow> bool"
  assumes irrefl: "\<not> better a a"
    and trans: "better a b \<Longrightarrow> better b c \<Longrightarrow> better a c"
    and total: "better a b \<or> a = b \<or> better b a"
begin

lemma asym: "better a b \<Longrightarrow> \<not> better b a"
  using irrefl trans by blast

text \<open>The value loop ends with a value of the vector (or the start value) that nothing beats.\<close>

lemma value_loop:
  "(best_value_loop better f start xs = start \<or> best_value_loop better f start xs \<in> f ` set xs) \<and>
   \<not> better start (best_value_loop better f start xs) \<and>
   (\<forall>x \<in> set xs. \<not> better (f x) (best_value_loop better f start xs))"
proof (induction xs rule: rev_induct)
  case Nil
  then show ?case by (simp add: best_value_loop_def irrefl)
next
  case (snoc x xs)
  let ?m = "best_value_loop better f start xs"
  have step: "best_value_loop better f start (xs @ [x]) = (if better (f x) ?m then f x else ?m)"
    by (simp add: best_value_loop_def)
  show ?case
  proof (cases "better (f x) ?m")
    case True
    have nb: "\<not> better y (f x)" if "\<not> better y ?m" for y
      using True that trans by blast
    show ?thesis using snoc.IH step True nb by (auto simp: irrefl)
  next
    case False
    then show ?thesis using snoc.IH step by auto
  qed
qed

definition index_inv :: "(int \<Rightarrow> int) \<Rightarrow> int \<Rightarrow> int list \<Rightarrow> nat \<times> nat \<times> int \<Rightarrow> bool" where
  "index_inv f start ys st \<longleftrightarrow> (case st of (i, index, m) \<Rightarrow> i = length ys \<and>
     ((m = start \<and> index = 0 \<and> (\<forall>y \<in> set ys. f y = start)) \<or>
      (index < length ys \<and> m = f (ys ! index) \<and> (\<forall>y \<in> set ys. \<not> better (f y) m) \<and>
       (\<forall>j < index. better m (f (ys ! j))))))"

lemma index_step:
  assumes inv: "index_inv f start ys st" and ok: "\<not> better start (f x)"
    and oks: "\<forall>y \<in> set ys. \<not> better start (f y)"
  shows "index_inv f start (ys @ [x]) (best_index_step better f st x)"
proof -
  obtain i index m where st: "st = (i, index, m)" by (cases st)
  have i: "i = length ys" using inv by (simp add: index_inv_def st)
  show ?thesis
  proof (cases "better (f x) m")
    case True
    have below: "better (f x) (f y)" if "y \<in> set ys" for y
    proof -
      have "f y = m \<or> \<not> better (f y) m" using inv that by (auto simp: index_inv_def st)
      then have "f y = m \<or> better m (f y)" using total by blast
      then show ?thesis using True trans by blast
    qed
    then have "\<forall>y \<in> set ys. \<not> better (f y) (f x)" using asym by blast
    moreover have "\<forall>j < length ys. better (f x) (f (ys ! j))" using below by simp
    ultimately show ?thesis using True i
      by (simp add: index_inv_def st best_index_step_def nth_append irrefl)
  next
    case False
    have "m = start \<Longrightarrow> f x = start" using False ok total by blast
    then show ?thesis using inv False
      by (auto simp: index_inv_def st best_index_step_def nth_append)
  qed
qed

lemma index_loop_inv:
  assumes "\<forall>x \<in> set xs. \<not> better start (f x)"
  shows "index_inv f start xs (foldl (best_index_step better f) (0, 0, start) xs)"
  using assms
proof (induction xs rule: rev_induct)
  case Nil
  then show ?case by (simp add: index_inv_def)
next
  case (snoc x xs)
  then show ?case using index_step [of f start xs _ x] by simp
qed

text \<open>The index loop returns the first position of an unbeaten value.\<close>

lemma index_loop:
  assumes "xs \<noteq> []" "\<forall>x \<in> set xs. \<not> better start (f x)"
  defines "k \<equiv> best_index_loop better f start xs"
  shows "k < length xs" "\<forall>x \<in> set xs. \<not> better (f x) (f (xs ! k))"
    "\<forall>j < k. better (f (xs ! k)) (f (xs ! j))"
proof -
  obtain i m where st: "foldl (best_index_step better f) (0, 0, start) xs = (i, k, m)"
    by (metis best_index_loop_def k_def prod.collapse)
  have "index_inv f start xs (i, k, m)" using index_loop_inv [OF assms(2)] st by simp
  then consider "m = start" "k = 0" "\<forall>y \<in> set xs. f y = start" |
    "k < length xs" "\<forall>y \<in> set xs. \<not> better (f y) (f (xs ! k))" "\<forall>j < k. better (f (xs ! k)) (f (xs ! j))"
    by (auto simp: index_inv_def)
  then show "k < length xs" "\<forall>x \<in> set xs. \<not> better (f x) (f (xs ! k))"
    "\<forall>j < k. better (f (xs ! k)) (f (xs ! j))"
    using assms(1) by (cases, auto simp: irrefl)+
qed

end

interpretation gt: strict_scan "\<lambda>a b :: int. a > b"
  by unfold_locales auto

interpretation lt: strict_scan "\<lambda>a b :: int. a < b"
  by unfold_locales auto

section \<open>Values\<close>

lemma max_loop_Max:
  assumes "xs \<noteq> []" "\<forall>x \<in> set xs. start \<le> f x"
  shows "best_value_loop (\<lambda>a b. a > b) f start xs = Max (f ` set xs)"
proof (rule Max_eqI [symmetric])
  let ?m = "best_value_loop (\<lambda>a b. a > b) f start xs"
  note L = gt.value_loop [of f start xs]
  show "y \<le> ?m" if "y \<in> f ` set xs" for y using L that by (auto simp: not_less)
  show "?m \<in> f ` set xs"
  proof (cases "?m = start")
    case True
    then have "f (hd xs) = start"
      using L assms by (metis hd_in_set not_less order_antisym)
    then show ?thesis using True assms(1) by (metis hd_in_set imageI)
  qed (use L in blast)
qed simp

lemma min_loop_Min:
  assumes "xs \<noteq> []" "\<forall>x \<in> set xs. f x \<le> start"
  shows "best_value_loop (\<lambda>a b. a < b) f start xs = Min (f ` set xs)"
proof (rule Min_eqI [symmetric])
  let ?m = "best_value_loop (\<lambda>a b. a < b) f start xs"
  note L = lt.value_loop [of f start xs]
  show "?m \<le> y" if "y \<in> f ` set xs" for y using L that by (auto simp: not_less)
  show "?m \<in> f ` set xs"
  proof (cases "?m = start")
    case True
    then have "f (hd xs) = start"
      using L assms by (metis hd_in_set not_less order_antisym)
    then show ?thesis using True assms(1) by (metis hd_in_set imageI)
  qed (use L in blast)
qed simp

lemma MaxAbsValueW16C_eq:
  assumes "0 < len" "take (nat len) xs \<noteq> []"
  shows "WebRtcSpl_MaxAbsValueW16C (Some xs) len = min 32767 (Max (abs ` set (take (nat len) xs)))"
proof -
  define M where "M = Max (abs ` set (take (nat len) xs))"
  have "best_value_loop (\<lambda>a b. a > b) abs 0 (take (nat len) xs) = M"
    unfolding M_def by (rule max_loop_Max) (use assms in auto)
  moreover have "0 \<le> M"
    unfolding M_def using assms(2) by (subst Max_ge_iff) (auto simp: ex_in_conv)
  ultimately show ?thesis using assms unfolding M_def [symmetric]
    by (auto simp: WebRtcSpl_MaxAbsValueW16C_def guarded_def Let_def min_def)
qed

text \<open>The absolute maximum bounds every sample, exactly unless it is the saturated \<open>32767\<close>.\<close>

lemma MaxAbsValueW16C_bound:
  assumes "\<forall>x \<in> set xs. in_i16 x" "xs \<noteq> []"
  defines "m \<equiv> WebRtcSpl_MaxAbsValueW16C (Some xs) (int (length xs))"
  shows "0 \<le> m" "m \<le> 32767" "x \<in> set xs \<Longrightarrow> \<bar>x\<bar> \<le> m \<or> (m = 32767 \<and> x = - 32768)"
proof -
  define M where "M = Max (abs ` set xs)"
  have m: "m = min 32767 M"
    using MaxAbsValueW16C_eq [of "int (length xs)" xs] assms(2) by (simp add: m_def M_def)
  have ge: "\<bar>x\<bar> \<le> M" if "x \<in> set xs" for x using that by (simp add: M_def)
  have "0 \<le> M" using ge [of "hd xs"] assms(2) by (meson abs_ge_zero hd_in_set order_trans)
  then show "0 \<le> m" "m \<le> 32767" by (simp_all add: m)
  show "\<bar>x\<bar> \<le> m \<or> (m = 32767 \<and> x = - 32768)" if "x \<in> set xs"
    using ge [OF that] assms(1) that by (auto simp: m min_def abs_if split: if_splits)
qed

text \<open>C20. On a non-empty vector of 16-bit samples the value searches return the largest, the
  smallest and the largest absolute sample, the last one saturated to 32767 so that the result
  for \<open>- 32768\<close> is still a 16-bit value.\<close>

theorem minmax_values:
  assumes "0 < len" "nat len \<le> length xs" "\<forall>x \<in> set xs. in_i16 x"
  shows "WebRtcSpl_MaxAbsValueW16C (Some xs) len = min 32767 (Max (abs ` set (take (nat len) xs))) \<and>
    WebRtcSpl_MaxValueW16C (Some xs) len = Max (set (take (nat len) xs)) \<and>
    WebRtcSpl_MinValueW16C (Some xs) len = Min (set (take (nat len) xs))"
proof -
  have ne: "take (nat len) xs \<noteq> []" using assms by auto
  have r: "\<forall>x \<in> set (take (nat len) xs). in_i16 x" using assms(3) by (meson in_set_takeD)
  show ?thesis
    using MaxAbsValueW16C_eq [OF assms(1) ne] assms(1) r
      max_loop_Max [OF ne, of "- 32768" "\<lambda>x. x"] min_loop_Min [OF ne, of "\<lambda>x. x" 32767]
    by (simp add: WebRtcSpl_MaxValueW16C_def WebRtcSpl_MinValueW16C_def guarded_def)
qed

theorem minmax_values_witness: "WebRtcSpl_MaxAbsValueW16C (Some [3, - 32768, 5]) 3 = 32767"
  using minmax_values [of 3 "[3, - 32768, 5]"] by simp

text \<open>C21. On a non-empty vector of 16-bit samples \<^verbatim>\<open>WebRtcSpl_MaxIndexW16\<close>,
  \<^verbatim>\<open>WebRtcSpl_MinIndexW16\<close> and \<^verbatim>\<open>WebRtcSpl_MaxAbsIndexW16\<close> return the first
  position of the maximum, of the minimum and of the maximum absolute value (unsaturated, so
  \<open>- 32768\<close> wins over \<open>32767\<close>).\<close>

theorem minmax_indices:
  assumes "xs \<noteq> []" "\<forall>x \<in> set xs. in_i16 x"
  shows "\<exists>p q r. WebRtcSpl_MaxIndexW16 (Some xs) (int (length xs)) = int p \<and>
      p < length xs \<and> (\<forall>x \<in> set xs. x \<le> xs ! p) \<and> (\<forall>j < p. xs ! j < xs ! p) \<and>
    WebRtcSpl_MinIndexW16 (Some xs) (int (length xs)) = int q \<and>
      q < length xs \<and> (\<forall>x \<in> set xs. xs ! q \<le> x) \<and> (\<forall>j < q. xs ! q < xs ! j) \<and>
    WebRtcSpl_MaxAbsIndexW16 (Some xs) (int (length xs)) = int r \<and>
      r < length xs \<and> (\<forall>x \<in> set xs. \<bar>x\<bar> \<le> \<bar>xs ! r\<bar>) \<and> (\<forall>j < r. \<bar>xs ! j\<bar> < \<bar>xs ! r\<bar>)"
proof -
  have s: "\<forall>x \<in> set xs. \<not> - 32768 > x" "\<forall>x \<in> set xs. \<not> 32767 < x" "\<forall>x \<in> set xs. \<not> 0 > \<bar>x\<bar>"
    using assms(2) by auto
  show ?thesis
    using gt.index_loop [OF assms(1) s(1)] lt.index_loop [OF assms(1) s(2)]
      gt.index_loop [OF assms(1) s(3)] assms(1)
    by (auto simp: WebRtcSpl_MaxIndexW16_def WebRtcSpl_MinIndexW16_def WebRtcSpl_MaxAbsIndexW16_def
        guarded_def not_less)
qed

theorem minmax_indices_witness: "WebRtcSpl_MaxAbsIndexW16 (Some [3, - 7, 7]) 3 = 1"
proof -
  obtain r where "WebRtcSpl_MaxAbsIndexW16 (Some [3, - 7, 7]) 3 = int r" "r < 3"
    "\<forall>x \<in> set [3, - 7, 7 :: int]. \<bar>x\<bar> \<le> \<bar>[3, - 7, 7] ! r\<bar>" "\<forall>j < r. \<bar>[3, - 7, 7] ! j\<bar> < \<bar>[3, - 7, 7 :: int] ! r\<bar>"
    using minmax_indices [of "[3, - 7, 7]"] by auto
  then show ?thesis by (auto simp: less_Suc_eq numeral_3_eq_3)
qed

end
