(* ===== verification/Spl_Correlation.thy ===== *)
theory Spl_Correlation
  imports Spl_Inline Spl_MinMax
begin

text \<open>
  The scaled sums of products of the signal processing library:
  \<^verbatim>\<open>get_scaling_square.c\<close>, \<^verbatim>\<open>energy.c\<close>, \<^verbatim>\<open>dot_product_with_scale.c\<close>,
  \<^verbatim>\<open>cross_correlation.c\<close> and \<^verbatim>\<open>auto_correlation.c\<close>.  Every accumulation wraps at 32 bits in
  the model; the lemmas show when the scaling that the routines choose keeps the sums exact.
\<close>

section \<open>Definitions\<close>

text \<open>One multiply-accumulate \<^verbatim>\<open>sum += (a * b) >> scaling\<close>.\<close>

definition mac :: "nat \<Rightarrow> int \<Rightarrow> int \<times> int \<Rightarrow> int" where
  "mac s acc ab = (case ab of (a, b) \<Rightarrow> i32 (acc + shr (i32 (a * b)) s))"

text \<open>The loop of the dot products: four products per iteration while at least four are left,
  then one at a time.\<close>

fun dot_unrolled :: "nat \<Rightarrow> int \<Rightarrow> (int \<times> int) list \<Rightarrow> int" where
  "dot_unrolled s acc (p0 # p1 # p2 # p3 # ps) =
     dot_unrolled s (mac s (mac s (mac s (mac s acc p0) p1) p2) p3) ps"
| "dot_unrolled s acc [] = acc"
| "dot_unrolled s acc [p0] = mac s acc p0"
| "dot_unrolled s acc [p0, p1] = mac s (mac s acc p0) p1"
| "dot_unrolled s acc [p0, p1, p2] = mac s (mac s (mac s acc p0) p1) p2"

definition WebRtcSpl_DotProductWithScale :: "int list \<Rightarrow> int list \<Rightarrow> nat \<Rightarrow> nat \<Rightarrow> int" where
  "WebRtcSpl_DotProductWithScale vector1 vector2 len scaling =
     dot_unrolled scaling 0 (zip (take len vector1) (take len vector2))"

text \<open>\<^verbatim>\<open>seq2\<close> may step backwards, so its argument is the array and the position of the pointer
  in it.\<close>

definition WebRtcSpl_CrossCorrelationC ::
  "int list \<Rightarrow> int list \<Rightarrow> nat \<Rightarrow> nat \<Rightarrow> nat \<Rightarrow> nat \<Rightarrow> int \<Rightarrow> int list" where
  "WebRtcSpl_CrossCorrelationC seq1 seq2 base dim_seq dim_cross_correlation right_shifts step_seq2 =
     map (\<lambda>i. foldl (mac right_shifts) 0
       (map (\<lambda>j. (seq1 ! j, seq2 ! nat (int base + step_seq2 * int i + int j))) [0..<dim_seq]))
     [0..<dim_cross_correlation]"

definition WebRtcSpl_GetScalingSquare :: "int list \<Rightarrow> int \<Rightarrow> int" where
  "WebRtcSpl_GetScalingSquare in_vector ntimes =
     (let nbits = WebRtcSpl_GetSizeInBits (u32 ntimes);
          smax = foldl (\<lambda>smax x. let sabs = i16 (if x > 0 then x else - x)
                   in if sabs > smax then sabs else smax) (- 1) in_vector;
          t = WebRtcSpl_NormW32 (i32 (smax * smax))
      in if smax = 0 then 0 else if t > nbits then 0 else i16 (nbits - t))"

text \<open>The energy and the value stored through \<^verbatim>\<open>scale_factor\<close>.\<close>

definition WebRtcSpl_Energy :: "int list \<Rightarrow> int \<times> int" where
  "WebRtcSpl_Energy vector =
     (let scaling = WebRtcSpl_GetScalingSquare vector (int (length vector))
      in (foldl (\<lambda>en x. mac (nat scaling) en (x, x)) 0 vector, scaling))"

definition autocorr_scaling :: "int list \<Rightarrow> int" where
  "autocorr_scaling in_vector =
     (let len = int (length in_vector);
          smax = WebRtcSpl_MaxAbsValueW16C (Some in_vector) len
      in if smax = 0 then 0
         else let nbits = WebRtcSpl_GetSizeInBits (u32 len);
                  t = WebRtcSpl_NormW32 (i32 (smax * smax))
              in if t > nbits then 0 else nbits - t)"

text \<open>\<^verbatim>\<open>WebRtcSpl_AutoCorrelation\<close>: the return value, the values written to \<^verbatim>\<open>result\<close>, and
  the value written to \<^verbatim>\<open>scale\<close> (nothing is written on the error return).\<close>

definition WebRtcSpl_AutoCorrelation :: "int list \<Rightarrow> int \<Rightarrow> int \<times> int list \<times> int option" where
  "WebRtcSpl_AutoCorrelation in_vector order =
     (let len = int (length in_vector)
      in if order > len then (- 1, [], None)
         else let order = (if order < 0 then len else order);
                  scaling = autocorr_scaling in_vector
              in (order + 1,
                  map (\<lambda>i. dot_unrolled (nat scaling) 0
                        (zip (take (length in_vector - i) in_vector) (drop i in_vector)))
                    [0..<nat (order + 1)],
                  Some scaling))"

section \<open>The unrolled loop\<close>

lemma dot_unrolled_foldl: "dot_unrolled s acc ps = foldl (mac s) acc ps"
  by (induction s acc ps rule: dot_unrolled.induct) simp_all

section \<open>Exactness\<close>

text \<open>If every scaled product is at most \<open>C\<close> in magnitude and \<open>C\<close> times their number stays
  below \<open>2 ^ 31\<close>, no accumulation wraps.\<close>

lemma mac_foldl_exact:
  assumes "\<forall>(a, b) \<in> set ps. in_i32 (a * b) \<and> - C \<le> shr (a * b) s \<and> shr (a * b) s \<le> C"
    and "\<bar>acc\<bar> + int (length ps) * C \<le> 2147483647"
  shows "foldl (mac s) acc ps = acc + (\<Sum>(a, b) \<leftarrow> ps. shr (a * b) s)"
  using assms
proof (induction ps arbitrary: acc)
  case Nil
  then show ?case by simp
next
  case (Cons p ps)
  obtain a b where p: "p = (a, b)" by (cases p)
  let ?t = "shr (a * b) s"
  have t: "in_i32 (a * b)" "- C \<le> ?t" "?t \<le> C" using Cons.prems(1) p by auto
  have C: "0 \<le> C" using t by linarith
  have l: "0 \<le> int (length ps) * C" using C by simp
  have tot: "\<bar>acc\<bar> + C + int (length ps) * C \<le> 2147483647"
    using Cons.prems(2) by (simp add: algebra_simps)
  have ab: "acc \<le> \<bar>acc\<bar>" "- acc \<le> \<bar>acc\<bar>" by simp_all
  have "in_i32 (acc + ?t)" using tot t l ab by linarith
  then have m: "mac s acc p = acc + ?t" using t by (simp add: mac_def p)
  have "\<bar>acc + ?t\<bar> + int (length ps) * C \<le> 2147483647" using tot t by linarith
  then show ?case using Cons.IH [of "acc + ?t"] Cons.prems(1) m p by simp
qed

text \<open>The scaling rule of the library: with \<open>t\<close> free bits in the largest product and \<open>nb\<close> bits
  in the number of terms, shifting by \<open>nb - t\<close> (or not at all when \<open>t > nb\<close>) leaves each term
  at most \<open>2 ^ (31 - nb)\<close>.\<close>

lemma scaled_term_bound:
  assumes p: "- (2 ^ (31 - t)) \<le> p" "p \<le> 2 ^ (31 - t)" and t: "t \<le> 31" and nb: "nb \<le> 31"
  defines "s \<equiv> nb - t"
  shows "- (2 ^ (31 - nb)) \<le> shr p s" "shr p s \<le> 2 ^ (31 - nb)"
proof -
  have e: "(2 :: int) ^ (31 - t) \<le> 2 ^ (31 - nb) * 2 ^ s"
  proof -
    have "31 - t \<le> (31 - nb) + s" using t nb by (simp add: s_def)
    then have "(2 :: int) ^ (31 - t) \<le> 2 ^ ((31 - nb) + s)" by (rule power_increasing) simp
    then show ?thesis by (simp add: power_add)
  qed
  show "- (2 ^ (31 - nb)) \<le> shr p s" using p e by (intro shr_lower) simp
  show "shr p s \<le> 2 ^ (31 - nb)" using p e by (intro shr_upper_le) simp
qed

lemma terms_fit:
  assumes "n < 2 ^ nb" "nb \<le> 31"
  shows "int n * 2 ^ (31 - nb) \<le> 2147483647"
proof -
  have "int n + 1 \<le> 2 ^ nb"
    using assms(1) by (metis Suc_leI of_nat_Suc of_nat_le_iff of_nat_power of_nat_numeral add.commute)
  then have "(int n + 1) * 2 ^ (31 - nb) \<le> 2 ^ nb * 2 ^ (31 - nb)" by (rule mult_right_mono) simp
  also have "\<dots> = 2147483648" using assms(2) by (simp flip: power_add)
  finally have "int n * 2 ^ (31 - nb) + 2 ^ (31 - nb) \<le> 2147483648" by (simp add: algebra_simps)
  moreover have "(1 :: int) \<le> 2 ^ (31 - nb)" by simp
  ultimately show ?thesis by linarith
qed

text \<open>The number of terms and its bit size.\<close>

lemma size_of_length:
  assumes "n < 2147483648"
  obtains nb where "WebRtcSpl_GetSizeInBits (u32 (int n)) = int nb" "n < 2 ^ nb" "nb \<le> 31"
proof -
  obtain k where k: "WebRtcSpl_GetSizeInBits (int n) = int k" "int n < 2 ^ k"
    "0 < int n \<longrightarrow> 0 < k \<and> 2 ^ (k - 1) \<le> int n" "k \<le> 32"
    using GetSizeInBits_spec [of "int n"] assms by auto
  have u: "u32 (int n) = int n" using assms by simp
  have "n < 2 ^ k" using k(2) by (metis of_nat_less_iff of_nat_numeral of_nat_power)
  moreover have "k \<noteq> 32"
  proof
    assume "k = 32"
    then have "n = 0 \<or> 2147483648 \<le> int n" using k(3) by auto
    then have "n = 0" using assms by auto
    then show False using k(1) \<open>k = 32\<close> by (simp add: WebRtcSpl_GetSizeInBits_def shr_def)
  qed
  ultimately show ?thesis using that k u by auto
qed

text \<open>The pairwise products of samples no larger than \<open>B\<close>.\<close>

lemma product_bound:
  fixes a b B :: int
  assumes "\<bar>a\<bar> \<le> B" "\<bar>b\<bar> \<le> B"
  shows "- (B * B) \<le> a * b" "a * b \<le> B * B"
proof -
  have "\<bar>a * b\<bar> \<le> B * B" using assms by (simp add: abs_mult mult_mono)
  then show "- (B * B) \<le> a * b" "a * b \<le> B * B" by linarith+
qed

lemma scaled_sum_exact:
  assumes ps: "\<forall>(a, b) \<in> set ps. - P \<le> a * b \<and> a * b \<le> P"
    and P: "P \<le> 2 ^ (31 - t)" "P \<le> 1073741824" and t: "t \<le> 31"
    and nb: "length ps < 2 ^ nb" "nb \<le> 31"
  shows "foldl (mac (nb - t)) 0 ps = (\<Sum>(a, b) \<leftarrow> ps. shr (a * b) (nb - t))"
proof -
  have "\<forall>(a, b) \<in> set ps. in_i32 (a * b) \<and> - (2 ^ (31 - nb)) \<le> shr (a * b) (nb - t) \<and>
      shr (a * b) (nb - t) \<le> 2 ^ (31 - nb)"
  proof (clarify, intro conjI)
    fix a b assume "(a, b) \<in> set ps"
    then have p: "- P \<le> a * b" "a * b \<le> P" using ps by auto
    then show "- 2147483648 \<le> a * b" "a * b \<le> 2147483647" using P(2) by linarith+
    have "- (2 ^ (31 - t)) \<le> a * b" "a * b \<le> 2 ^ (31 - t)" using p P(1) by linarith+
    from scaled_term_bound [OF this t nb(2)]
    show "- (2 ^ (31 - nb)) \<le> shr (a * b) (nb - t)" "shr (a * b) (nb - t) \<le> 2 ^ (31 - nb)" by simp_all
  qed
  from mac_foldl_exact [OF this, of 0] terms_fit [OF nb] show ?thesis by simp
qed

lemma norm_of_square:
  assumes "0 < m" "m \<le> 32767"
  obtains t where "WebRtcSpl_NormW32 (i32 (m * m)) = int t" "t \<le> 30" "m * m \<le> 2 ^ (31 - t)" "1 \<le> t"
proof -
  have mm: "m * m \<le> 32767 * 32767" using assms by (intro mult_mono) simp_all
  have pos: "0 < m * m" using assms by simp
  have lt: "m * m < 2147483648" using mm by simp
  obtain t where t: "WebRtcSpl_NormW32 (m * m) = int t" "t \<le> 30" "m * m * 2 ^ t < 2147483648"
    "1073741824 \<le> m * m * 2 ^ t"
    by (rule NormW32_pos [OF pos lt]) blast
  have p: "(2 :: int) ^ (31 - t) * 2 ^ t = 2147483648" using t(2) by (simp flip: power_add)
  have "m * m \<le> 2 ^ (31 - t)"
  proof (rule ccontr)
    assume "\<not> m * m \<le> 2 ^ (31 - t)"
    then have "2 ^ (31 - t) * 2 ^ t \<le> m * m * 2 ^ t" by (intro mult_right_mono) simp_all
    with p t(3) show False by linarith
  qed
  moreover have "1 \<le> t"
  proof (rule ccontr)
    assume "\<not> 1 \<le> t"
    then have "t = 0" by simp
    with t(4) mm show False by simp
  qed
  ultimately show ?thesis using that t mm pos by simp
qed

subsection \<open>Autocorrelation\<close>

lemma autocorr_products:
  assumes xs: "\<forall>x \<in> set xs. in_i16 x" "xs \<noteq> []" and len: "length xs < 2147483648"
  obtains t nb P where "autocorr_scaling xs = int (nb - t)" "length xs < 2 ^ nb" "nb \<le> 31" "t \<le> 31"
    "P \<le> 2 ^ (31 - t)" "P \<le> 1073741824" "\<And>a b. a \<in> set xs \<Longrightarrow> b \<in> set xs \<Longrightarrow> - P \<le> a * b \<and> a * b \<le> P"
proof -
  define m where "m = WebRtcSpl_MaxAbsValueW16C (Some xs) (int (length xs))"
  have m: "0 \<le> m" "m \<le> 32767" and b: "\<And>x. x \<in> set xs \<Longrightarrow> \<bar>x\<bar> \<le> m \<or> (m = 32767 \<and> x = - 32768)"
    using MaxAbsValueW16C_bound [OF xs] by (simp_all add: m_def)
  obtain nb where nb: "WebRtcSpl_GetSizeInBits (u32 (int (length xs))) = int nb" "length xs < 2 ^ nb" "nb \<le> 31"
    by (rule size_of_length [OF len]) blast
  show ?thesis
  proof (cases "m = 0")
    case True
    then have "autocorr_scaling xs = int (nb - 31)"
      using nb by (simp add: autocorr_scaling_def Let_def m_def)
    moreover have "- 0 \<le> a * c \<and> a * c \<le> 0" if "a \<in> set xs" "c \<in> set xs" for a c
      using b [OF that(1)] True by auto
    ultimately show ?thesis using that [of nb 31 0] nb by simp
  next
    case False
    with m obtain t where t: "WebRtcSpl_NormW32 (i32 (m * m)) = int t" "t \<le> 30" "m * m \<le> 2 ^ (31 - t)" "1 \<le> t"
      using norm_of_square [of m] by (metis order_le_imp_less_or_eq)
    have sc: "autocorr_scaling xs = int (nb - t)"
      using False nb t by (simp add: autocorr_scaling_def Let_def flip: m_def)
    show ?thesis
    proof (cases "m = 32767")
      case True
      have n1: "WebRtcSpl_NormW32 (i32 (m * m)) = 1"
        using True by (simp add: WebRtcSpl_NormW32_def norm_step_def Let_def)
      then have "t = 1" using t(1) by simp
      have "- 1073741824 \<le> a * c \<and> a * c \<le> 1073741824" if "a \<in> set xs" "c \<in> set xs" for a c
      proof -
        have "\<bar>a\<bar> \<le> 32768" "\<bar>c\<bar> \<le> 32768" using b [OF that(1)] b [OF that(2)] True by auto
        from product_bound [OF this] show ?thesis by simp
      qed
      then show ?thesis using that [of nb t 1073741824] sc nb \<open>t = 1\<close> by simp
    next
      case False
      then have mm: "m * m \<le> 32766 * 32766" using m by (intro mult_mono) simp_all
      have "- (m * m) \<le> a * c \<and> a * c \<le> m * m" if "a \<in> set xs" "c \<in> set xs" for a c
        using product_bound [of a m c] b [OF that(1)] b [OF that(2)] False by auto
      then show ?thesis using that [of nb t "m * m"] sc nb t mm by simp
    qed
  qed
qed

lemma autocorr_lag_exact:
  assumes xs: "\<forall>x \<in> set xs. in_i16 x" and len: "length xs < 2147483648" and i: "i \<le> length xs"
  defines "s \<equiv> nat (autocorr_scaling xs)"
  shows "dot_unrolled s 0 (zip (take (length xs - i) xs) (drop i xs)) =
    (\<Sum>j < length xs - i. shr (xs ! j * xs ! (i + j)) s)"
proof (cases "xs = []")
  case True
  then show ?thesis by simp
next
  case False
  let ?ps = "zip (take (length xs - i) xs) (drop i xs)"
  obtain t nb P where A: "autocorr_scaling xs = int (nb - t)" "length xs < 2 ^ nb" "nb \<le> 31" "t \<le> 31"
    "P \<le> 2 ^ (31 - t)" "P \<le> 1073741824" "\<And>a b. a \<in> set xs \<Longrightarrow> b \<in> set xs \<Longrightarrow> - P \<le> a * b \<and> a * b \<le> P"
    by (rule autocorr_products [OF xs False len]) blast
  have s: "s = nb - t" using A(1) by (simp add: s_def)
  have "\<forall>(a, b) \<in> set ?ps. - P \<le> a * b \<and> a * b \<le> P"
  proof (clarify, rule A(7))
    fix a b assume ab: "(a, b) \<in> set ?ps"
    show "a \<in> set xs" using ab by (meson set_zip_leftD in_set_takeD)
    show "b \<in> set xs" using ab by (meson set_zip_rightD in_set_dropD)
  qed
  then have "dot_unrolled s 0 ?ps = (\<Sum>(a, b) \<leftarrow> ?ps. shr (a * b) s)"
    unfolding dot_unrolled_foldl s using A by (intro scaled_sum_exact) auto
  also have "\<dots> = (\<Sum>j < length xs - i. shr (xs ! j * xs ! (i + j)) s)"
    by (subst sum_list_sum_nth) (auto simp: atLeast0LessThan intro!: sum.cong)
  finally show ?thesis .
qed

subsection \<open>Energy\<close>

lemma scaling_square_loop:
  "foldl (\<lambda>smax x. let sabs = i16 (if x > 0 then x else - x) in if sabs > smax then sabs else smax) (- 1) xs =
   best_value_loop (\<lambda>a b. a > b) (\<lambda>x. i16 (if x > 0 then x else - x)) (- 1) xs"
  by (simp add: best_value_loop_def Let_def)

lemma energy_products:
  assumes xs: "\<forall>x \<in> set xs. \<bar>x\<bar> \<le> 32767" "xs \<noteq> []" and len: "length xs < 2147483648"
  obtains t nb P where "WebRtcSpl_GetScalingSquare xs (int (length xs)) = int (nb - t)" "length xs < 2 ^ nb"
    "nb \<le> 31" "t \<le> 31" "P \<le> 2 ^ (31 - t)" "P \<le> 1073741824" "\<And>x. x \<in> set xs \<Longrightarrow> x * x \<le> P"
proof -
  define sabs where "sabs = (\<lambda>x. i16 (if x > 0 then x else - x))"
  define m where "m = best_value_loop (\<lambda>a b. a > b) sabs (- 1) xs"
  have sabs: "sabs x = \<bar>x\<bar>" if "x \<in> set xs" for x
    using xs(1) that by (auto simp: sabs_def abs_if)
  note L = gt.value_loop [of sabs "- 1" xs, folded m_def]
  have mx: "\<bar>x\<bar> \<le> m" if "x \<in> set xs" for x using L that sabs by (auto simp: not_less)
  then have m0: "0 \<le> m" using xs(2) by (meson abs_ge_zero hd_in_set order_trans)
  then have "m \<in> sabs ` set xs" using L by auto
  then have m1: "m \<le> 32767" using xs(1) sabs by auto
  obtain nb where nb: "WebRtcSpl_GetSizeInBits (u32 (int (length xs))) = int nb" "length xs < 2 ^ nb" "nb \<le> 31"
    by (rule size_of_length [OF len]) blast
  have sq: "x * x \<le> m * m" if "x \<in> set xs" for x
    using product_bound(2) [OF mx mx] that by simp
  show ?thesis
  proof (cases "m = 0")
    case True
    then have "WebRtcSpl_GetScalingSquare xs (int (length xs)) = int (nb - 31)"
      using nb unfolding WebRtcSpl_GetScalingSquare_def scaling_square_loop
      by (simp add: Let_def sabs_def [symmetric] m_def [symmetric])
    then show ?thesis using that [of nb 31 "m * m"] nb sq True by simp
  next
    case False
    with m0 m1 obtain t where t: "WebRtcSpl_NormW32 (i32 (m * m)) = int t" "t \<le> 30" "m * m \<le> 2 ^ (31 - t)"
      using norm_of_square [of m] by (metis order_le_imp_less_or_eq)
    have mm: "m * m \<le> 32767 * 32767" using m0 m1 by (intro mult_mono) simp_all
    have "WebRtcSpl_GetScalingSquare xs (int (length xs)) = int (nb - t)"
      using False nb t unfolding WebRtcSpl_GetScalingSquare_def scaling_square_loop
      by (simp add: Let_def sabs_def [symmetric] m_def [symmetric])
    then show ?thesis using that [of nb t "m * m"] nb t sq mm by simp
  qed
qed

lemma foldl_map_pairs: "foldl (\<lambda>en x. mac s en (x, x)) acc xs = foldl (mac s) acc (map (\<lambda>x. (x, x)) xs)"
  by (simp add: foldl_map)

section \<open>Properties\<close>

text \<open>C22. The autocorrelation of at most \<open>2 ^ 31 - 1\<close> samples of any 16-bit values, \<open>- 32768\<close>
  included, never overflows its 32-bit accumulator: for every requested order the routine returns
  \<open>order + 1\<close> values, and value \<open>i\<close> is the exact sum of the lag-\<open>i\<close> products, each shifted by
  the scaling it reports.\<close>

theorem autocorrelation_exact:
  assumes "\<forall>x \<in> set xs. in_i16 x" "length xs < 2147483648" "0 \<le> order" "order \<le> int (length xs)"
  shows "\<exists>r s. WebRtcSpl_AutoCorrelation xs order = (order + 1, r, Some (int s)) \<and>
    length r = nat (order + 1) \<and>
    (\<forall>i < length r. r ! i = (\<Sum>j < length xs - i. shr (xs ! j * xs ! (i + j)) s))"
proof -
  have sc: "autocorr_scaling xs = int (nat (autocorr_scaling xs))"
  proof (cases "xs = []")
    case True
    then show ?thesis
      by (simp add: autocorr_scaling_def WebRtcSpl_MaxAbsValueW16C_def guarded_def
          WebRtcSpl_GetSizeInBits_def WebRtcSpl_NormW32_def norm_step_def Let_def shr_def)
  next
    case False
    then show ?thesis using autocorr_products [OF assms(1) False assms(2)] by (metis nat_int)
  qed
  have "dot_unrolled (nat (autocorr_scaling xs)) 0 (zip (take (length xs - i) xs) (drop i xs)) =
      (\<Sum>j < length xs - i. shr (xs ! j * xs ! (i + j)) (nat (autocorr_scaling xs)))"
    if "i < nat (order + 1)" for i
    using autocorr_lag_exact [OF assms(1,2)] that assms(4) by auto
  then show ?thesis
    using assms(3,4) sc
    by (intro exI conjI) (auto simp: WebRtcSpl_AutoCorrelation_def Let_def simp del: upt_Suc)
qed

theorem autocorrelation_exact_witness:
  "\<exists>r s. WebRtcSpl_AutoCorrelation [- 32768, - 32768, - 32768] 1 = (2, r, Some (int s)) \<and> length r = 2"
  using autocorrelation_exact [of "[- 32768, - 32768, - 32768]" 1] by fastforce

text \<open>C23. \<^verbatim>\<open>WebRtcSpl_Energy\<close> of a vector whose samples are above \<open>- 32768\<close> is the exact sum
  of the scaled squares, with no wrap-around, and the scale factor it stores is the shift used.
  The restriction is necessary: on samples \<open>- 32768\<close> the negation in
  \<^verbatim>\<open>WebRtcSpl_GetScalingSquare\<close> wraps, the largest magnitude stays at its initial \<open>- 1\<close>, no
  scaling is chosen, and the energy of four such samples overflows to \<open>0\<close>.\<close>

theorem energy_exact:
  assumes "\<forall>x \<in> set xs. \<bar>x\<bar> \<le> 32767" "xs \<noteq> []" "length xs < 2147483648"
  shows "(\<exists>s. snd (WebRtcSpl_Energy xs) = int s \<and> fst (WebRtcSpl_Energy xs) = (\<Sum>x \<leftarrow> xs. shr (x * x) s) \<and>
      0 \<le> fst (WebRtcSpl_Energy xs)) \<and>
    WebRtcSpl_GetScalingSquare [- 32768, - 32768, - 32768, - 32768] 4 = 0 \<and>
    WebRtcSpl_Energy [- 32768, - 32768] = (- 2147483648, 0) \<and>
    WebRtcSpl_Energy [- 32768, - 32768, - 32768, - 32768] = (0, 0)"
proof -
  have wrap: "WebRtcSpl_GetScalingSquare [- 32768, - 32768, - 32768, - 32768] 4 = 0"
    "WebRtcSpl_Energy [- 32768, - 32768] = (- 2147483648, 0)"
    "WebRtcSpl_Energy [- 32768, - 32768, - 32768, - 32768] = (0, 0)" by code_simp+
  obtain t nb P where A: "WebRtcSpl_GetScalingSquare xs (int (length xs)) = int (nb - t)" "length xs < 2 ^ nb"
    "nb \<le> 31" "t \<le> 31" "P \<le> 2 ^ (31 - t)" "P \<le> 1073741824" "\<And>x. x \<in> set xs \<Longrightarrow> x * x \<le> P"
    by (rule energy_products [OF assms]) blast
  have P0: "0 \<le> P" using A(7) [of "hd xs"] assms(2) zero_le_square [of "hd xs"] by (metis hd_in_set order_trans)
  have "\<forall>(a, b) \<in> set (map (\<lambda>x. (x, x)) xs). - P \<le> a * b \<and> a * b \<le> P"
    using A(7) P0 zero_le_square by (auto intro: order_trans [of _ 0])
  then have "foldl (mac (nb - t)) 0 (map (\<lambda>x. (x, x)) xs) =
      (\<Sum>(a, b) \<leftarrow> map (\<lambda>x. (x, x)) xs. shr (a * b) (nb - t))"
    using A by (intro scaled_sum_exact) auto
  then have "fst (WebRtcSpl_Energy xs) = (\<Sum>x \<leftarrow> xs. shr (x * x) (nb - t))"
    by (simp add: WebRtcSpl_Energy_def A(1) foldl_map_pairs comp_def Let_def)
  moreover have "0 \<le> (\<Sum>x \<leftarrow> xs. shr (x * x) (nb - t))"
    by (rule sum_list_nonneg) auto
  moreover have "snd (WebRtcSpl_Energy xs) = int (nb - t)" using A(1) by (simp add: WebRtcSpl_Energy_def Let_def)
  ultimately show ?thesis using wrap by auto
qed

theorem energy_exact_witness: "0 \<le> fst (WebRtcSpl_Energy [32767, - 32767, 5])"
  using energy_exact [of "[32767, - 32767, 5]"] by auto

text \<open>C24. The four-fold unrolled loop of \<^verbatim>\<open>WebRtcSpl_DotProductWithScale\<close> computes the plain
  sequential multiply-accumulate over all \<open>len\<close> products, remainder included, whatever the values.\<close>

theorem dot_product_sequential:
  "WebRtcSpl_DotProductWithScale v1 v2 len s =
     foldl (\<lambda>acc (a, b). i32 (acc + shr (i32 (a * b)) s)) 0 (zip (take len v1) (take len v2))"
  unfolding WebRtcSpl_DotProductWithScale_def dot_unrolled_foldl
  by (rule arg_cong [where f = "\<lambda>f. foldl f 0 _"]) (auto simp: mac_def fun_eq_iff)

end
