(* ===== verification/Spl_Math.thy ===== *)
theory Spl_Math
  imports Spl_Inline
begin

text \<open>
  The scalar fixed-point routines of the signal processing library:
  \<^verbatim>\<open>division_operations.c\<close>, \<^verbatim>\<open>spl_sqrt_floor.c\<close>, \<^verbatim>\<open>spl_sqrt.c\<close>,
  \<^verbatim>\<open>sqrt_of_one_minus_x_squared.c\<close>, \<^verbatim>\<open>randomization_functions.c\<close> and
  \<^verbatim>\<open>get_hanning_window.c\<close>.  Division truncates towards zero (\<open>sdiv\<close>).
\<close>

section \<open>Division\<close>

definition WebRtcSpl_DivU32U16 :: "int \<Rightarrow> int \<Rightarrow> int" where
  "WebRtcSpl_DivU32U16 num den = (if den \<noteq> 0 then u32 (num div den) else 0xFFFFFFFF)"

definition WebRtcSpl_DivW32W16 :: "int \<Rightarrow> int \<Rightarrow> int" where
  "WebRtcSpl_DivW32W16 num den = (if den \<noteq> 0 then i32 (num sdiv den) else 0x7FFFFFFF)"

definition WebRtcSpl_DivW32W16ResW16 :: "int \<Rightarrow> int \<Rightarrow> int" where
  "WebRtcSpl_DivW32W16ResW16 num den = (if den \<noteq> 0 then i16 (num sdiv den) else 0x7FFF)"

text \<open>The body of \<^verbatim>\<open>while (k--)\<close>, on \<^verbatim>\<open>div\<close> and \<^verbatim>\<open>L_num\<close>.\<close>

fun div_q31_loop :: "nat \<Rightarrow> int \<Rightarrow> int \<Rightarrow> int \<Rightarrow> int" where
  "div_q31_loop 0 L_den d L_num = d"
| "div_q31_loop (Suc k) L_den d L_num =
     (let d = i32 (d * 2); L_num = i32 (L_num * 2)
      in if L_num \<ge> L_den then div_q31_loop k L_den (i32 (d + 1)) (i32 (L_num - L_den))
         else div_q31_loop k L_den d L_num)"

definition WebRtcSpl_DivResultInQ31 :: "int \<Rightarrow> int \<Rightarrow> int" where
  "WebRtcSpl_DivResultInQ31 num den =
     (if num = 0 then 0
      else let change_sign = (if num < 0 then 1 else 0) + (if den < 0 then 1 else (0 :: nat));
               L_num = (if num < 0 then i32 (- num) else num);
               L_den = (if den < 0 then i32 (- den) else den);
               d = div_q31_loop 31 L_den 0 L_num
           in if change_sign = 1 then i32 (- d) else d)"

text \<open>The high and low halves in which the routine keeps a 32-bit value.\<close>

definition hi_part :: "int \<Rightarrow> int" where
  "hi_part x = i16 (shr x 16)"

definition lo_part :: "int \<Rightarrow> int" where
  "lo_part x = i16 (shr (i32 (x - shl32 (hi_part x) 16)) 1)"

definition WebRtcSpl_DivW32HiLow :: "int \<Rightarrow> int \<Rightarrow> int \<Rightarrow> int" where
  "WebRtcSpl_DivW32HiLow num den_hi den_low =
     (let approx = i16 (WebRtcSpl_DivW32W16 0x1FFFFFFF den_hi);
          tmpW32 = i32 (i32 (i32 (den_hi * approx) * 2) + i32 (shr (i32 (den_low * approx)) 15 * 2));
          tmpW32 = i32 (0x7fffffff - tmpW32);
          tmp_hi = hi_part tmpW32;
          tmp_low = lo_part tmpW32;
          tmpW32 = i32 ((i32 (tmp_hi * approx) + shr (i32 (tmp_low * approx)) 15) * 2);
          tmp_hi = hi_part tmpW32;
          tmp_low = lo_part tmpW32;
          num_hi = hi_part num;
          num_low = lo_part num;
          tmpW32 = i32 (i32 (num_hi * tmp_hi) + shr (i32 (num_hi * tmp_low)) 15 +
                        shr (i32 (num_low * tmp_hi)) 15)
      in shl32 tmpW32 3)"

section \<open>Square roots\<close>

text \<open>\<^verbatim>\<open>WEBRTC_SPL_SQRT_ITER(N)\<close> on \<^verbatim>\<open>value\<close> and \<^verbatim>\<open>root\<close>.\<close>

definition sqrt_iter :: "nat \<Rightarrow> int \<times> int \<Rightarrow> int \<times> int" where
  "sqrt_iter N st = (case st of (val, root) \<Rightarrow>
     (let try1 = i32 (root + 2 ^ N)
      in if val \<ge> shl32 try1 N then (i32 (val - shl32 try1 N), root OR shl32 2 N) else (val, root)))"

definition WebRtcSpl_SqrtFloor :: "int \<Rightarrow> int" where
  "WebRtcSpl_SqrtFloor val =
     shr (snd (foldl (\<lambda>st N. sqrt_iter N st) (val, 0)
       [15, 14, 13, 12, 11, 10, 9, 8, 7, 6, 5, 4, 3, 2, 1, 0])) 1"

definition WebRtcSpl_SqrtLocal :: "int \<Rightarrow> int" where
  "WebRtcSpl_SqrtLocal in_val =
     (let B = in_val sdiv 2;
          B = i32 (B - 0x40000000);
          x_half = i16 (shr B 16);
          B = i32 (B + 0x40000000);
          B = i32 (B + 0x40000000);
          x2 = i32 (x_half * x_half * 2);
          A = i32 (- x2);
          B = i32 (B + shr A 1);
          A = shr A 16;
          A = i32 (A * A * 2);
          t16 = i16 (shr A 16);
          B = i32 (B + (- 20480) * t16 * 2);
          A = i32 (x_half * t16 * 2);
          t16 = i16 (shr A 16);
          B = i32 (B + 28672 * t16 * 2);
          t16 = i16 (shr x2 16);
          A = i32 (x_half * t16 * 2);
          B = i32 (B + shr A 1);
          B = i32 (B + 32768)
      in B)"

definition WebRtcSpl_Sqrt :: "int \<Rightarrow> int" where
  "WebRtcSpl_Sqrt val =
     (if val = 0 then 0
      else let sh = WebRtcSpl_NormW32 val;
               A = shl32 val (nat sh);
               A = (if A < 2147483647 - 32767 then i32 (A + 32768) else 2147483647);
               x_norm = i16 (shr A 16);
               nshift = sh sdiv 2;
               A = shl32 x_norm 16;
               A = (if A \<ge> 0 then A else i32 (- A));
               A = WebRtcSpl_SqrtLocal A;
               A = (if 2 * nshift = sh
                    then let t16 = i16 (shr A 16);
                             A = i32 (23170 * t16 * 2);
                             A = i32 (A + 32768);
                             A = A AND 0x7fff0000
                         in shr A 15
                    else shr A 16);
               A = A AND 0x0000ffff
           in shr A (nat nshift))"

definition WebRtcSpl_SqrtOfOneMinusXSquared :: "int list \<Rightarrow> int list" where
  "WebRtcSpl_SqrtOfOneMinusXSquared xQ15 =
     map (\<lambda>x. i16 (WebRtcSpl_Sqrt (i32 (1073741823 - i32 (x * x))))) xQ15"

section \<open>Random numbers\<close>

definition kMaxSeedUsed :: int where
  "kMaxSeedUsed = 0x80000000"

definition kRandNTable :: "int list" where
  "kRandNTable = [
   9178, - 7260, 40, 10189, 4894, - 3531, - 13779, 14764, - 4008, - 8884, - 8990, 1008, 7368,
   5184, 3251, - 5817, - 9786, 5963, 1770, 8066, - 7135, 10772, - 2298, 1361, 6484, 2241, - 8633,
   792, 199, - 3344, 6553, - 10079, - 15040, 95, 11608, - 12469, 14161, - 4176, 2476, 6403,
   13685, - 16005, 6646, 2239, 10916, - 3004, - 602, - 3141, 2142, 14144, - 5829, 5305, 8209,
   4713, 2697, - 5112, 16092, - 1210, - 2891, - 6631, - 5360, - 11878, - 6781, - 2739, - 6392,
   536, 10923, 10872, 5059, - 4748, - 7770, 5477, 38, - 1025, - 2892, 1638, 6304, 14375, - 11028,
   1553, - 1565, 10762, - 393, 4040, 5257, 12310, 6554, - 4799, 4899, - 6354, 1603, - 1048,
   - 2220, 8247, - 186, - 8944, - 12004, 2332, 4801, - 4933, 6371, 131, 8614, - 5927, - 8287,
   - 22760, 4033, - 15162, 3385, 3246, 3153, - 5250, 3766, 784, 6494, - 62, 3531, - 1582, 15572,
   662, - 3952, - 330, - 3196, 669, 7236, - 2678, - 6569, 23319, - 8645, - 741, 14830, - 15976,
   4903, 315, - 11342, 10311, 1858, - 7777, 2145, 5436, 5677, - 113, - 10033, 826, - 1353, 17210,
   7768, 986, - 1471, 8291, - 4982, 8207, - 14911, - 6255, - 2449, - 11881, - 7059, - 11703,
   - 4338, 8025, 7538, - 2823, - 12490, 9470, - 1613, - 2529, - 10092, - 7807, 9480, 6970,
   - 12844, 5123, 3532, 4816, 4803, - 8455, - 5045, 14032, - 4378, - 1643, 5756, - 11041, - 2732,
   - 16618, - 6430, - 18375, - 3320, 6098, 5131, - 4269, - 8840, 2482, - 7048, 1547, - 21890,
   - 6505, - 7414, - 424, - 11722, 7955, 1653, - 17299, 1823, 473, - 9232, 3337, 1111, 873, 4018,
   - 8982, 9889, 3531, - 11763, - 3799, 7373, - 4539, 3231, 7054, - 8537, 7616, 6244, 16635, 447,
   - 2915, 13967, 705, - 2669, - 1520, - 1771, - 16188, 5956, 5117, 6371, - 9936, - 1448, 2480,
   5128, 7550, - 8130, 5236, 8213, - 6443, 7707, - 1950, - 13811, 7218, 7031, - 3883, 67, 5731,
   - 2874, 13480, - 3743, 9298, - 3280, 3552, - 4425, - 18, - 3785, - 9988, - 5357, 5477,
   - 11794, 2117, 1416, - 9935, 3376, 802, - 5079, - 8243, 12652, 66, 3653, - 2368, 6781,
   - 21895, - 7227, 2487, 7839, - 385, 6646, - 7016, - 4658, 5531, - 1705, 834, 129, 3694,
   - 1343, 2238, - 22640, - 6417, - 11139, 11301, - 2945, - 3494, - 5626, 185, - 3615, - 2041,
   - 7972, - 3106, - 60, - 23497, - 1566, 17064, 3519, 2518, 304, - 6805, - 10269, 2105, 1936,
   - 426, - 736, - 8122, - 1467, 4238, - 6939, - 13309, 360, 7402, - 7970, 12576, 3287, 12194,
   - 6289, - 16006, 9171, 4042, - 9193, 9123, - 2512, 6388, - 4734, - 8739, 1028, - 5406, - 1696,
   5889, - 666, - 4736, 4971, 3565, 9362, - 6292, 3876, - 3652, - 19666, 7523, - 4061, 391,
   - 11773, 7502, - 3763, 4929, - 9478, 13278, 2805, 4496, 7814, 16419, 12455, - 14773, 2127,
   - 2746, 3763, 4847, 3698, 6978, 4751, - 6957, - 3581, - 45, 6252, 1513, - 4797, - 7925, 11270,
   16188, - 2359, - 5269, 9376, - 10777, 7262, 20031, - 6515, - 2208, - 5353, 8085, - 1341,
   - 1303, 7333, 5576, 3625, 5763, - 7931, 9833, - 3371, - 10305, 6534, - 13539, - 9971, 997,
   8464, - 4064, - 1495, 1857, 13624, 5458, 9490, - 11086, - 4524, 12022, - 550, - 198, 408,
   - 8455, - 7068, 10289, 9712, - 3366, 9028, - 7621, - 5243, 2362, 6909, 4672, - 4933, - 1799,
   4709, - 4563, - 62, - 566, 1624, - 7010, 14730, - 17791, - 3697, - 2344, - 1741, 7099, - 9509,
   - 6855, - 1989, 3495, - 2289, 2031, 12784, 891, 14189, - 3963, - 5683, 421, - 12575, 1724,
   - 12682, - 5970, - 8169, 3143, - 1824, - 5488, - 5130, 8536, 12799, 794, 5738, 3459, - 11689,
   - 258, - 3738, - 3775, - 8742, 2333, 8312, - 9383, 10331, 13119, 8398, 10644, - 19433, - 6446,
   - 16277, - 11793, 16284, 9345, 15222, 15834, 2009, - 7349, 130, - 14547, 338, - 5998, 3337,
   21492, 2406, 7703, - 951, 11196, - 564, 3406, 2217, 4806, 2374, - 5797, 11839, 8940, - 11874,
   18213, 2855, 10492]"

definition IncreaseSeed :: "int \<Rightarrow> int" where
  "IncreaseSeed seed = u32 (seed * 69069 + 1) AND (kMaxSeedUsed - 1)"

text \<open>The functions return their value and the updated seed.\<close>

definition WebRtcSpl_RandU :: "int \<Rightarrow> int \<times> int" where
  "WebRtcSpl_RandU seed = (let seed = IncreaseSeed seed in (i16 (shr seed 16), seed))"

definition WebRtcSpl_RandN :: "int \<Rightarrow> int \<times> int" where
  "WebRtcSpl_RandN seed = (let seed = IncreaseSeed seed in (kRandNTable ! nat (shr seed 23), seed))"

fun rand_u_loop :: "nat \<Rightarrow> int \<Rightarrow> int list \<times> int" where
  "rand_u_loop 0 seed = ([], seed)"
| "rand_u_loop (Suc n) seed =
     (let (v, seed) = WebRtcSpl_RandU seed; (vs, seed) = rand_u_loop n seed in (v # vs, seed))"

definition WebRtcSpl_RandUArray :: "int \<Rightarrow> int \<Rightarrow> int \<times> int list \<times> int" where
  "WebRtcSpl_RandUArray vector_length seed =
     (let (vs, seed) = rand_u_loop (nat vector_length) seed in (vector_length, vs, seed))"

section \<open>Hanning window\<close>

definition kHanningTable :: "int list" where
  "kHanningTable = [
   1, 2, 6, 10, 15, 22, 30, 39, 50, 62, 75, 89, 104, 121, 138, 157, 178, 199, 222, 246, 271, 297,
   324, 353, 383, 413, 446, 479, 513, 549, 586, 624, 663, 703, 744, 787, 830, 875, 920, 967,
   1015, 1064, 1114, 1165, 1218, 1271, 1325, 1381, 1437, 1494, 1553, 1612, 1673, 1734, 1796,
   1859, 1924, 1989, 2055, 2122, 2190, 2259, 2329, 2399, 2471, 2543, 2617, 2691, 2765, 2841,
   2918, 2995, 3073, 3152, 3232, 3312, 3393, 3475, 3558, 3641, 3725, 3809, 3895, 3980, 4067,
   4154, 4242, 4330, 4419, 4509, 4599, 4689, 4781, 4872, 4964, 5057, 5150, 5244, 5338, 5432,
   5527, 5622, 5718, 5814, 5910, 6007, 6104, 6202, 6299, 6397, 6495, 6594, 6693, 6791, 6891,
   6990, 7090, 7189, 7289, 7389, 7489, 7589, 7690, 7790, 7890, 7991, 8091, 8192, 8293, 8393,
   8494, 8594, 8694, 8795, 8895, 8995, 9095, 9195, 9294, 9394, 9493, 9593, 9691, 9790, 9889,
   9987, 10085, 10182, 10280, 10377, 10474, 10570, 10666, 10762, 10857, 10952, 11046, 11140,
   11234, 11327, 11420, 11512, 11603, 11695, 11785, 11875, 11965, 12054, 12142, 12230, 12317,
   12404, 12489, 12575, 12659, 12743, 12826, 12909, 12991, 13072, 13152, 13232, 13311, 13389,
   13466, 13543, 13619, 13693, 13767, 13841, 13913, 13985, 14055, 14125, 14194, 14262, 14329,
   14395, 14460, 14525, 14588, 14650, 14711, 14772, 14831, 14890, 14947, 15003, 15059, 15113,
   15166, 15219, 15270, 15320, 15369, 15417, 15464, 15509, 15554, 15597, 15640, 15681, 15721,
   15760, 15798, 15835, 15871, 15905, 15938, 15971, 16001, 16031, 16060, 16087, 16113, 16138,
   16162, 16185, 16206, 16227, 16246, 16263, 16280, 16295, 16309, 16322, 16334, 16345, 16354,
   16362, 16369, 16374, 16378, 16382, 16383, 16384]"

text \<open>The table indices the loop reads, and the window itself.\<close>

definition hanning_indices :: "int \<Rightarrow> int list" where
  "hanning_indices n =
     (let factor = WebRtcSpl_DivW32W16 0x40000000 n;
          index = (if n < 513 then - 0x200000 else - 0x100000)
      in map (\<lambda>jj. shr (i32 (index + (int jj + 1) * factor)) 22) [0..<nat n])"

definition WebRtcSpl_GetHanningWindow :: "int \<Rightarrow> int list" where
  "WebRtcSpl_GetHanningWindow n = map (\<lambda>i. kHanningTable ! nat i) (hanning_indices n)"

section \<open>Correctness of the floor square root\<close>

lemma or_pow2_add:
  fixes x :: int
  assumes "2 ^ Suc n dvd x"
  shows "x OR 2 ^ n = x + 2 ^ n"
proof -
  obtain k where "x = push_bit (Suc n) k" using assms by (auto simp: push_bit_eq_mult mult.commute elim: dvdE)
  then have "x AND 2 ^ n = 0"
    by (intro bit_eqI) (auto simp: bit_simps bit_0)
  then show ?thesis by (simp add: disjunctive_add_eq_or)
qed

definition sqrt_inv :: "int \<Rightarrow> nat \<Rightarrow> int \<times> int \<Rightarrow> bool" where
  "sqrt_inv v n st \<longleftrightarrow> (\<exists>R \<ge> 0. st = (v - R * R, 2 * R) \<and> 2 ^ n dvd R \<and> R * R \<le> v \<and>
     v < (R + 2 ^ n) * (R + 2 ^ n) \<and> R + 2 ^ n \<le> 65536)"

lemma sqrt_step_range:
  fixes R :: int
  assumes "0 \<le> R" "R + 2 ^ Suc n \<le> 65536" "n \<le> 15"
  shows "0 \<le> (2 * R + 2 ^ n) * 2 ^ n" "(2 * R + 2 ^ n) * 2 ^ n \<le> 2147483647" "2 * R + 2 ^ n \<le> 131072"
proof -
  define p where "p = (2 :: int) ^ n"
  have p: "1 \<le> p" "R + 2 * p \<le> 65536" using assms by (simp_all add: p_def)
  show "0 \<le> (2 * R + 2 ^ n) * 2 ^ n" using assms(1) by simp
  show "2 * R + 2 ^ n \<le> 131072" using assms(1) p unfolding p_def [symmetric] by linarith
  show "(2 * R + 2 ^ n) * 2 ^ n \<le> 2147483647"
  proof (cases "n = 15")
    case True
    then show ?thesis using assms by simp
  next
    case False
    then have "p \<le> 2 ^ 14" unfolding p_def using assms(3) by (intro power_increasing) simp_all
    then have "2 * R + p \<le> 131071" "p \<le> 16384" using p by simp_all
    then have "(2 * R + p) * p \<le> 131071 * 16384" using assms(1) p by (intro mult_mono) simp_all
    then show ?thesis by (simp add: p_def)
  qed
qed

lemma sqrt_iter_inv:
  assumes v: "v \<le> 2147483647" and n: "n \<le> 15" and inv: "sqrt_inv v (Suc n) st"
  shows "sqrt_inv v n (sqrt_iter n st)"
proof -
  obtain R where R: "0 \<le> R" "st = (v - R * R, 2 * R)" "2 ^ Suc n dvd R" "R * R \<le> v"
    "v < (R + 2 ^ Suc n) * (R + 2 ^ Suc n)" "R + 2 ^ Suc n \<le> 65536"
    using inv by (auto simp: sqrt_inv_def)
  define p where "p = (2 :: int) ^ n"
  note rng = sqrt_step_range [OF R(1,6) n, folded p_def]
  have p1: "1 \<le> p" by (simp add: p_def)
  have pS: "2 ^ Suc n = 2 * p" by (simp add: p_def)
  have t: "i32 (2 * R + p) = 2 * R + p" using rng R(1) p1 by simp
  have sh: "shl32 (2 * R + p) n = (2 * R + p) * p" using rng by (simp add: shl32_def p_def)
  have sh2: "shl32 2 n = 2 ^ Suc n"
  proof -
    have "(2 :: int) ^ n \<le> 2 ^ 15" using n by (rule power_increasing) simp
    then have "(2 :: int) ^ n \<le> 32768" by simp
    moreover have "(0 :: int) < 2 ^ n" by simp
    ultimately have "in_i32 (2 * 2 ^ n)" by linarith
    then show ?thesis by (simp add: shl32_def)
  qed
  have "2 ^ Suc (Suc n) dvd 2 * R"
    unfolding power_Suc [of 2 "Suc n"] by (rule mult_dvd_mono [OF dvd_refl R(3)])
  then have or: "2 * R OR 2 ^ Suc n = 2 * (R + p)" using or_pow2_add [of "Suc n" "2 * R"] by (simp add: p_def)
  have sq: "(R + p) * (R + p) = R * R + (2 * R + p) * p" by (simp add: algebra_simps)
  have RR: "0 \<le> R * R" by simp
  have dvd: "p dvd R" using R(3) unfolding pS by (rule dvd_mult_right)
  show ?thesis
  proof (cases "(2 * R + p) * p \<le> v - R * R")
    case True
    have "in_i32 (v - R * R - (2 * R + p) * p)" using True v RR rng by linarith
    then have "i32 (v - R * R - (2 * R + p) * p) = v - (R + p) * (R + p)"
      using sq by (simp only: i32_id)
    then have st': "sqrt_iter n st = (v - (R + p) * (R + p), 2 * (R + p))"
      using True by (simp add: sqrt_iter_def R(2) p_def [symmetric] t sh sh2 or [unfolded pS] Let_def)
    have "p dvd R + p" using dvd by simp
    moreover have "v < (R + p + p) * (R + p + p)" using R(5) unfolding pS by (simp add: algebra_simps)
    ultimately show ?thesis
      unfolding sqrt_inv_def p_def [symmetric] st'
      using True R(1,6) p1 sq unfolding pS by (intro exI [of _ "R + p"]) simp
  next
    case False
    then have st': "sqrt_iter n st = st"
      by (simp add: sqrt_iter_def R(2) p_def [symmetric] t sh Let_def)
    show ?thesis
      unfolding sqrt_inv_def p_def [symmetric] st'
      using False R(1,2,4,6) dvd p1 sq unfolding pS by (intro exI [of _ R]) simp
  qed
qed

lemma SqrtFloor_inv:
  assumes "0 \<le> v" "v \<le> 2147483647"
  shows "sqrt_inv v 0 (foldl (\<lambda>st N. sqrt_iter N st) (v, 0) (rev [0..<16]))"
proof -
  have "n \<le> 16 \<Longrightarrow> sqrt_inv v (16 - n) (foldl (\<lambda>st N. sqrt_iter N st) (v, 0) (take n (rev [0..<16])))" for n
  proof (induction n)
    case 0
    then show ?case using assms by (simp add: sqrt_inv_def)
  next
    case (Suc n)
    then have "rev [0..<16] ! n = 15 - n" by (simp add: rev_nth)
    then have "take (Suc n) (rev [0..<16]) = take n (rev [0..<16]) @ [15 - n]"
      using Suc.prems by (simp add: take_Suc_conv_app_nth)
    moreover have "16 - n = Suc (15 - n)" "16 - Suc n = 15 - n" using Suc.prems by simp_all
    ultimately show ?case using Suc sqrt_iter_inv [OF assms(2), of "15 - n"] by simp
  qed
  from this [of 16] show ?thesis by simp
qed

section \<open>Correctness of the divisions\<close>

lemma div_q31_loop_exact:
  assumes "0 \<le> r" "r < den" "den \<le> 1073741824" "0 \<le> d" "(d + 1) * 2 ^ k \<le> 2147483648"
  shows "div_q31_loop k den d r = d * 2 ^ k + r * 2 ^ k div den"
  using assms
proof (induction k arbitrary: d r)
  case 0
  then show ?case by simp
next
  case (Suc k)
  have pk: "(1 :: int) \<le> 2 ^ k" by simp
  have b: "(2 * d + 2) * 2 ^ k \<le> 2147483648" using Suc.prems(5) by (simp add: algebra_simps)
  have "2 * d + 2 \<le> (2 * d + 2) * 2 ^ k" using mult_left_mono [OF pk, of "2 * d + 2"] Suc.prems(4) by simp
  then have d2: "2 * d + 2 \<le> 2147483648" using b by (rule order_trans)
  have e: "i32 (d * 2) = 2 * d" "i32 (r * 2) = 2 * r" "i32 (2 * d + 1) = 2 * d + 1"
    using Suc.prems d2 by simp_all
  have "(2 * d + 1) * 2 ^ k \<le> (2 * d + 2) * 2 ^ k" by (rule mult_right_mono) simp_all
  from this b have b1: "(2 * d + 1) * 2 ^ k \<le> 2147483648" by (rule order_trans)
  have b2: "(2 * d + 1 + 1) * 2 ^ k \<le> 2147483648" using b by (simp add: add.assoc)
  show ?case
  proof (cases "2 * r \<ge> den")
    case True
    have r': "i32 (2 * r - den) = 2 * r - den" using Suc.prems True by simp
    have "r * 2 ^ Suc k div den = (den * 2 ^ k + (2 * r - den) * 2 ^ k) div den" by (simp add: algebra_simps)
    also have "\<dots> = 2 ^ k + (2 * r - den) * 2 ^ k div den" using Suc.prems(1,2) by simp
    finally have q: "r * 2 ^ Suc k div den = 2 ^ k + (2 * r - den) * 2 ^ k div den" .
    have "div_q31_loop (Suc k) den d r = div_q31_loop k den (2 * d + 1) (2 * r - den)"
      using True by (simp add: e r' Let_def)
    also have "\<dots> = (2 * d + 1) * 2 ^ k + (2 * r - den) * 2 ^ k div den"
      using Suc.IH [of "2 * r - den" "2 * d + 1"] Suc.prems True b2 by simp
    finally show ?thesis using q by (simp add: algebra_simps)
  next
    case False
    have "div_q31_loop (Suc k) den d r = div_q31_loop k den (2 * d) (2 * r)"
      using False by (simp add: e Let_def)
    also have "\<dots> = (2 * d) * 2 ^ k + (2 * r) * 2 ^ k div den"
      using Suc.IH [of "2 * r" "2 * d"] Suc.prems False b1 by simp
    finally show ?thesis by (simp add: mult_ac)
  qed
qed

section \<open>Properties\<close>

text \<open>C25. \<^verbatim>\<open>WebRtcSpl_SqrtFloor\<close> returns the integer square root, rounded down, of every
  non-negative 32-bit value, and 0 for every negative one.\<close>

theorem sqrt_floor_correct:
  assumes "in_i32 v"
  shows "0 \<le> WebRtcSpl_SqrtFloor v \<and>
    (0 \<le> v \<longrightarrow> WebRtcSpl_SqrtFloor v * WebRtcSpl_SqrtFloor v \<le> v \<and>
       v < (WebRtcSpl_SqrtFloor v + 1) * (WebRtcSpl_SqrtFloor v + 1)) \<and>
    (v < 0 \<longrightarrow> WebRtcSpl_SqrtFloor v = 0)"
proof (cases "0 \<le> v")
  case True
  have "sqrt_inv v 0 (foldl (\<lambda>st N. sqrt_iter N st) (v, 0) (rev [0..<16]))"
    using SqrtFloor_inv [of v] True assms by simp
  moreover have "rev [0..<16] = [15, 14, 13, 12, 11, 10, 9, 8, 7, 6, 5, 4, 3, 2, 1, 0]" by code_simp
  ultimately have "sqrt_inv v 0 (foldl (\<lambda>st N. sqrt_iter N st) (v, 0)
      [15, 14, 13, 12, 11, 10, 9, 8, 7, 6, 5, 4, 3, 2, 1, 0])" by (simp only:)
  then obtain R where "0 \<le> R" "R * R \<le> v" "v < (R + 1) * (R + 1)" "WebRtcSpl_SqrtFloor v = R"
    by (auto simp: sqrt_inv_def WebRtcSpl_SqrtFloor_def shr_def)
  then show ?thesis using True by simp
next
  case False
  then have "WebRtcSpl_SqrtFloor v = 0"
    by (simp add: WebRtcSpl_SqrtFloor_def sqrt_iter_def shl32_def shr_def i32_def Let_def)
  then show ?thesis using False by simp
qed

theorem sqrt_floor_correct_witness: "WebRtcSpl_SqrtFloor 8 * WebRtcSpl_SqrtFloor 8 \<le> 8"
  using sqrt_floor_correct [of 8] by simp

text \<open>C26. \<^verbatim>\<open>WebRtcSpl_DivResultInQ31\<close> computes the exact truncated quotient in Q31, with the
  right sign, whenever the numerator is smaller than the denominator in magnitude and the
  denominator is at most \<open>2 ^ 30\<close>.  The bound is needed, although the description of the function
  only asks for a denominator larger than the numerator: with a denominator above \<open>2 ^ 30\<close> the
  doubled remainder overflows, and a quotient close to one comes out as zero.\<close>

theorem div_result_in_q31:
  assumes "\<bar>num\<bar> < \<bar>den\<bar>" "\<bar>den\<bar> \<le> 1073741824"
  shows "WebRtcSpl_DivResultInQ31 num den = sgn num * sgn den * (\<bar>num\<bar> * 2147483648 div \<bar>den\<bar>) \<and>
    WebRtcSpl_DivResultInQ31 1073741824 1073741825 = 0 \<and>
    1073741824 * 2147483648 div 1073741825 = (2147483646 :: int)"
proof -
  have wrap: "WebRtcSpl_DivResultInQ31 1073741824 1073741825 = 0"
    "1073741824 * 2147483648 div 1073741825 = (2147483646 :: int)" by code_simp+
  have d: "div_q31_loop 31 \<bar>den\<bar> 0 \<bar>num\<bar> = \<bar>num\<bar> * 2147483648 div \<bar>den\<bar>"
    using div_q31_loop_exact [of "\<bar>num\<bar>" "\<bar>den\<bar>" 0 31] assms by simp
  have q: "0 \<le> \<bar>num\<bar> * 2147483648 div \<bar>den\<bar>" "\<bar>num\<bar> * 2147483648 div \<bar>den\<bar> < 2147483648"
    using assms(1) by (auto simp: pos_imp_zdiv_nonneg_iff intro!: div_less_upper)
  have n: "(if num < 0 then i32 (- num) else num) = \<bar>num\<bar>" "(if den < 0 then i32 (- den) else den) = \<bar>den\<bar>"
    using assms by auto
  have "WebRtcSpl_DivResultInQ31 num den = sgn num * sgn den * (\<bar>num\<bar> * 2147483648 div \<bar>den\<bar>)"
    unfolding WebRtcSpl_DivResultInQ31_def n Let_def d using q assms(1)
    by (auto simp: sgn_if)
  with wrap show ?thesis by simp
qed

theorem div_result_in_q31_witness: "WebRtcSpl_DivResultInQ31 (- 1) 4 = - 536870912"
  using div_result_in_q31 [of "- 1" 4] by simp

lemma IncreaseSeed_mod: "IncreaseSeed seed = (seed * 69069 + 1) mod 2147483648"
proof -
  have "x AND 2147483647 = x mod 2147483648" for x :: int
    using take_bit_eq_mask [of 31 x] take_bit_eq_mod [of 31 x] by (simp add: mask_numeral)
  then show ?thesis
    by (simp add: IncreaseSeed_def kMaxSeedUsed_def u32_def mod_mod_cancel)
qed

lemma IncreaseSeed_range: "0 \<le> IncreaseSeed seed" "IncreaseSeed seed < 2147483648"
  by (simp_all add: IncreaseSeed_mod)

lemma IncreaseSeed_inverse:
  assumes "0 \<le> a" "a < 2147483648"
  shows "((IncreaseSeed a - 1) * 635610885) mod 2147483648 = a"
proof -
  have "((IncreaseSeed a - 1) * 635610885) mod 2147483648 = ((a * 69069 + 1 - 1) * 635610885) mod 2147483648"
    unfolding IncreaseSeed_mod
    by (rule mod_mult_cong [OF mod_diff_cong [OF mod_mod_trivial refl] refl])
  also have "\<dots> = (a + 2147483648 * (20443 * a)) mod 2147483648" by (simp add: algebra_simps)
  also have "\<dots> = a mod 2147483648" by (rule mod_mult_self2)
  also have "\<dots> = a" using assms by (rule mod_pos_pos_trivial)
  finally show ?thesis .
qed

text \<open>C27. The seed update of the random generators maps the 31-bit seeds one-to-one to 31-bit
  seeds, so no seed is lost, and the table index of \<^verbatim>\<open>WebRtcSpl_RandN\<close> is always inside the
  table; it only ever selects from the first 256 of the 512 entries.\<close>

theorem random_seed:
  "inj_on IncreaseSeed {0..<2147483648} \<and> IncreaseSeed ` {0..<2147483648} \<subseteq> {0..<2147483648} \<and>
   length kRandNTable = 512 \<and>
   (\<exists>i < 256. fst (WebRtcSpl_RandN seed) = kRandNTable ! i)"
proof (intro conjI)
  show "inj_on IncreaseSeed {0..<2147483648}"
    by (rule inj_on_inverseI [of _ "\<lambda>s. ((s - 1) * 635610885) mod 2147483648"]) (rule IncreaseSeed_inverse, auto)
  show "IncreaseSeed ` {0..<2147483648} \<subseteq> {0..<2147483648}"
    using IncreaseSeed_range by auto
  show "length kRandNTable = 512" by (simp add: kRandNTable_def)
  have "0 \<le> shr (IncreaseSeed seed) 23" "shr (IncreaseSeed seed) 23 < 256"
    using IncreaseSeed_range [of seed] by (auto intro!: shr_upper)
  then show "\<exists>i < 256. fst (WebRtcSpl_RandN seed) = kRandNTable ! i"
    by (intro exI [of _ "nat (shr (IncreaseSeed seed) 23)"]) (auto simp: WebRtcSpl_RandN_def Let_def nat_less_iff)
qed

text \<open>C28. For every window size from 1 to 1024 each table index that
  \<^verbatim>\<open>WebRtcSpl_GetHanningWindow\<close> reads lies inside the 256-entry table; for size 1025 the very
  first read is at index \<open>- 1\<close>, before the table.\<close>

theorem hanning_window_indices:
  "(1 \<le> n \<and> n \<le> 1024 \<longrightarrow> length kHanningTable = 256 \<and>
     length (WebRtcSpl_GetHanningWindow n) = nat n \<and> (\<forall>i \<in> set (hanning_indices n). 0 \<le> i \<and> i < 256)) \<and>
   hanning_indices 1025 ! 0 = - 1"
proof (intro conjI impI ballI)
  assume n: "1 \<le> n \<and> n \<le> 1024"
  define f b where "f = 1073741824 div n" and "b = (if n < 513 then 2097152 else 1048576 :: int)"
  have d: "1073741824 sdiv n = f" using n by (simp add: f_def signed_divide_int_def)
  have "1073741824 div n \<le> 1073741824 div 1" using n by (intro zdiv_mono2) simp_all
  then have fr: "0 \<le> f" "f \<le> 1073741824" using n by (simp_all add: f_def pos_imp_zdiv_nonneg_iff)
  have f: "WebRtcSpl_DivW32W16 1073741824 n = f" using n d fr by (simp add: WebRtcSpl_DivW32W16_def)
  have fb: "b \<le> f"
  proof (cases "n < 513")
    case True
    then have "1073741824 div 512 \<le> f" unfolding f_def using n by (intro zdiv_mono2) simp_all
    then show ?thesis using True by (simp add: b_def)
  next
    case False
    have "1073741824 div 1024 \<le> f" unfolding f_def using n by (intro zdiv_mono2) simp_all
    then show ?thesis using False by (simp add: b_def)
  qed
  have nf: "n * f \<le> 1073741824"
  proof -
    have "0 \<le> 1073741824 mod n" using n by (intro pos_mod_sign) simp
    then show ?thesis using mult_div_mod_eq [of n 1073741824] unfolding f_def by linarith
  qed
  show "length kHanningTable = 256" by (simp add: kHanningTable_def)
  show "length (WebRtcSpl_GetHanningWindow n) = nat n"
    by (simp add: WebRtcSpl_GetHanningWindow_def hanning_indices_def Let_def)
  fix i assume "i \<in> set (hanning_indices n)"
  then obtain j where j: "j < nat n" "i = shr (i32 (- b + (int j + 1) * f)) 22"
    using n by (auto simp: hanning_indices_def f b_def Let_def split: if_splits)
  have "f * 1 \<le> f * (int j + 1)" using fr by (intro mult_left_mono) simp_all
  moreover have "(int j + 1) * f \<le> n * f" using j(1) fr by (intro mult_right_mono) simp_all
  ultimately have x: "0 \<le> - b + (int j + 1) * f" "- b + (int j + 1) * f < 1073741824"
    using fb nf by (simp_all add: b_def mult.commute)
  then have "i = shr (- b + (int j + 1) * f) 22" using j(2) by simp
  then show "0 \<le> i" "i < 256" using x by (auto intro!: shr_upper)
next
  show "hanning_indices 1025 ! 0 = - 1"
    by (simp add: hanning_indices_def WebRtcSpl_DivW32W16_def signed_divide_int_def shr_def Let_def i32_def)
qed

theorem hanning_window_indices_witness: "length (WebRtcSpl_GetHanningWindow 240) = 240"
  using hanning_window_indices [of 240] by simp

end
