(* ===== verification/Stream_Filter.thy ===== *)
theory Stream_Filter
  imports C_Prelude
begin

text \<open>
  The loops of the sample-by-sample filters. A filter keeps a state from one call to the next; its
  loop is \<open>run\<close> of a step function over the samples of the call. The locale \<open>stream_filter\<close> is the
  contract the callers rely on: cutting a signal into frames and filtering frame by frame, with the
  state carried over, is the same as filtering it in one call.
\<close>

primrec run :: "('s \<Rightarrow> 'a \<Rightarrow> 's \<times> 'b) \<Rightarrow> 's \<Rightarrow> 'a list \<Rightarrow> 's \<times> 'b list" where
  "run f s [] = (s, [])"
| "run f s (x # xs) = (let (s1, y) = f s x; (s2, ys) = run f s1 xs in (s2, y # ys))"

lemma run_append:
  "run f s (xs @ ys) = (let (s1, us) = run f s xs; (s2, vs) = run f s1 ys in (s2, us @ vs))"
  by (induction xs arbitrary: s) (simp_all add: Let_def split: prod.splits)

lemma length_run [simp]: "length (snd (run f s xs)) = length xs"
  by (induction xs arbitrary: s) (simp_all add: Let_def case_prod_unfold)

lemma run_output:
  assumes "\<And>s x. P (snd (f s x))"
  shows "\<forall>y \<in> set (snd (run f s xs)). P y"
  using assms by (induction xs arbitrary: s) (auto simp: Let_def case_prod_unfold)

lemma run_invariant:
  assumes "\<And>s x. I s \<Longrightarrow> x \<in> set xs \<Longrightarrow> I (fst (f s x)) \<and> P (snd (f s x))" "I s"
  shows "I (fst (run f s xs)) \<and> (\<forall>y \<in> set (snd (run f s xs)). P y)"
  using assms
proof (induction xs arbitrary: s)
  case Nil
  then show ?case by simp
next
  case (Cons x xs)
  have a: "I (fst (f s x))" "P (snd (f s x))" using Cons.prems by auto
  have b: "I (fst (run f (fst (f s x)) xs)) \<and> (\<forall>y \<in> set (snd (run f (fst (f s x)) xs)). P y)"
    using Cons.IH [of "fst (f s x)"] Cons.prems a by simp
  then show ?case using a by (simp add: Let_def case_prod_unfold)
qed

text \<open>A cascade of two filters, each run over the whole signal, is one filter whose step runs both
  sections on a sample.\<close>

definition cascade :: "('s \<Rightarrow> 'a \<Rightarrow> 's \<times> 'b) \<Rightarrow> ('t \<Rightarrow> 'b \<Rightarrow> 't \<times> 'c) \<Rightarrow> 's \<times> 't \<Rightarrow> 'a \<Rightarrow> ('s \<times> 't) \<times> 'c" where
  "cascade f g st x = (let (s, y) = f (fst st) x; (t, z) = g (snd st) y in ((s, t), z))"

lemma run_cascade:
  "run (cascade f g) (s, t) xs =
     (let (s1, ys) = run f s xs; (t1, zs) = run g t ys in ((s1, t1), zs))"
  by (induction xs arbitrary: s t) (simp_all add: cascade_def Let_def split: prod.splits)

lemma run_map: "run f s (map h xs) = run (\<lambda>s x. f s (h x)) s xs"
  by (induction xs arbitrary: s) (simp_all add: Let_def split: prod.splits)

text \<open>Filtering a sequence of frames one call after the other.\<close>

primrec by_frames :: "('s \<Rightarrow> 'a list \<Rightarrow> 's \<times> 'b list) \<Rightarrow> 's \<Rightarrow> 'a list list \<Rightarrow> 's \<times> 'b list" where
  "by_frames process s [] = (s, [])"
| "by_frames process s (fr # frs) =
     (let (s1, us) = process s fr; (s2, vs) = by_frames process s1 frs in (s2, us @ vs))"

locale stream_filter =
  fixes process :: "'s \<Rightarrow> 'a list \<Rightarrow> 's \<times> 'b list"
    and unit :: nat
  assumes process_append: "unit dvd length xs \<Longrightarrow>
      process s (xs @ ys) = (let (s1, us) = process s xs; (s2, vs) = process s1 ys in (s2, us @ vs))"
    and process_nil: "process s [] = (s, [])"
begin

lemma frames_eq_whole:
  assumes "\<forall>fr \<in> set frs. unit dvd length fr"
  shows "by_frames process s frs = process s (concat frs)"
  using assms
  by (induction frs arbitrary: s) (simp_all add: process_nil process_append Let_def split: prod.splits)

end

text \<open>Even and odd samples of an interleaved signal, and interleaving.\<close>

fun evens :: "'a list \<Rightarrow> 'a list" where
  "evens (x # y # xs) = x # evens xs"
| "evens _ = []"

fun odds :: "'a list \<Rightarrow> 'a list" where
  "odds (x # y # xs) = y # odds xs"
| "odds _ = []"

fun interleave :: "'a list \<Rightarrow> 'a list \<Rightarrow> 'a list" where
  "interleave (x # xs) (y # ys) = x # y # interleave xs ys"
| "interleave _ _ = []"

lemma evens_append: "even (length xs) \<Longrightarrow> evens (xs @ ys) = evens xs @ evens ys"
  by (induction xs rule: evens.induct) simp_all

lemma odds_append: "even (length xs) \<Longrightarrow> odds (xs @ ys) = odds xs @ odds ys"
  by (induction xs rule: odds.induct) simp_all

lemma length_evens [simp]: "length (evens xs) = length xs div 2"
  by (induction xs rule: evens.induct) simp_all

lemma length_odds [simp]: "length (odds xs) = length xs div 2"
  by (induction xs rule: odds.induct) simp_all

lemma length_interleave [simp]: "length (interleave xs ys) = 2 * min (length xs) (length ys)"
  by (induction xs ys rule: interleave.induct) simp_all

lemma interleave_append:
  "length xs = length ys \<Longrightarrow> interleave (xs @ us) (ys @ vs) = interleave xs ys @ interleave us vs"
  by (induction xs ys rule: interleave.induct) simp_all

lemma interleave_evens_odds: "even (length xs) \<Longrightarrow> interleave (evens xs) (odds xs) = xs"
  by (induction xs rule: evens.induct) simp_all

lemma set_interleave: "length xs = length ys \<Longrightarrow> set (interleave xs ys) = set xs \<union> set ys"
  by (induction xs ys rule: interleave.induct) auto

lemma set_evens: "set (evens xs) \<subseteq> set xs"
  by (induction xs rule: evens.induct) auto

lemma set_odds: "set (odds xs) \<subseteq> set xs"
  by (induction xs rule: odds.induct) auto

end
