(* ===== verification/Spl_Resample.thy ===== *)
theory Spl_Resample
  imports Stream_Filter Spl_Inline
begin

text \<open>
  The resamplers of the signal processing library: the half-band all-pass filters of
  \<^verbatim>\<open>resample_by_2_internal.c\<close> and \<^verbatim>\<open>resample_by_2.c\<close>, the fractional
  resamplers of \<^verbatim>\<open>resample_fractional.c\<close>, which work in place on a shared scratch memory, and the
  converters between 8, 16 and 48 kHz of \<^verbatim>\<open>resample_48khz.c\<close>. Filter states are arrays of
  32-bit words; the model groups them in the quadruples the loops use.
\<close>

section \<open>All-pass sections\<close>

type_synonym ap_state = "int \<times> int \<times> int \<times> int"

definition kResampleAllpass :: "int list list" where
  "kResampleAllpass = [[821, 6110, 12382], [3050, 9368, 15063]]"

text \<open>\<^verbatim>\<open>diff = diff >> 14; if (diff < 0) diff += 1;\<close>\<close>

definition trunc14 :: "int \<Rightarrow> int" where
  "trunc14 d = (let x = shr d 14 in if x < 0 then x + 1 else x)"

text \<open>The body shared by all loops of \<^verbatim>\<open>resample_by_2_internal.c\<close>: three first order sections
  on four state words, with \<open>c\<close> one row of the coefficient table.\<close>

definition allpass3 :: "int list \<Rightarrow> ap_state \<Rightarrow> int \<Rightarrow> ap_state \<times> int" where
  "allpass3 c st tmp0 = (case st of (s0, s1, s2, s3) \<Rightarrow>
     let d0 = shr (i32 (i32 (tmp0 - s1) + 8192)) 14;
         tmp1 = i32 (s0 + i32 (d0 * c ! 0));
         d1 = trunc14 (i32 (tmp1 - s2));
         tmp2 = i32 (s1 + i32 (d1 * c ! 1));
         d2 = trunc14 (i32 (tmp2 - s3));
         out = i32 (s2 + i32 (d2 * c ! 2))
     in ((tmp0, tmp1, tmp2, out), out))"

definition lower_ap :: "ap_state \<Rightarrow> int list \<Rightarrow> ap_state \<times> int list" where
  "lower_ap = run (allpass3 (kResampleAllpass ! 1))"

definition upper_ap :: "ap_state \<Rightarrow> int list \<Rightarrow> ap_state \<times> int list" where
  "upper_ap = run (allpass3 (kResampleAllpass ! 0))"

text \<open>\<^verbatim>\<open>((int32_t)in << 15) + (1 << 14)\<close>\<close>

definition scale15 :: "int \<Rightarrow> int" where
  "scale15 x = i32 (shl32 x 15 + 16384)"

definition sat16 :: "int \<Rightarrow> int" where
  "sat16 x = (let y = (if x > 32767 then 32767 else x) in if y < - 32768 then - 32768 else y)"

section \<open>Interpolation, decimation and low-pass by two\<close>

text \<open>The first component of a state is \<^verbatim>\<open>state[0..3]\<close>, the second \<^verbatim>\<open>state[4..7]\<close>. The
  decimator overwrites its input with the two branches before it combines them in steps of two
  outputs; it returns the new state, the outputs and the overwritten array.\<close>

definition WebRtcSpl_DownBy2IntToShort ::
  "ap_state \<times> ap_state \<Rightarrow> int list \<Rightarrow> nat \<Rightarrow> (ap_state \<times> ap_state) \<times> int list \<times> int list" where
  "WebRtcSpl_DownBy2IntToShort st in0 len =
     (let h = len div 2;
          (lo, ys) = lower_ap (fst st) (evens (take (2 * h) in0));
          (hi, zs) = upper_ap (snd st) (odds (take (2 * h) in0));
          arr = interleave (map (\<lambda>y. shr y 1) ys) (map (\<lambda>z. shr z 1) zs) @ drop (2 * h) in0
      in ((lo, hi),
          map (\<lambda>i. sat16 (shr (i32 (arr ! (2 * i) + arr ! (2 * i + 1))) 15)) [0..<2 * ((h + 1) div 2)],
          arr))"

definition WebRtcSpl_DownBy2ShortToInt ::
  "ap_state \<times> ap_state \<Rightarrow> int list \<Rightarrow> (ap_state \<times> ap_state) \<times> int list" where
  "WebRtcSpl_DownBy2ShortToInt st in0 =
     (let (lo, ys) = lower_ap (fst st) (map scale15 (evens in0));
          (hi, zs) = upper_ap (snd st) (map scale15 (odds in0))
      in ((lo, hi), map2 (\<lambda>y z. i32 (shr y 1 + shr z 1)) ys zs))"

definition WebRtcSpl_UpBy2ShortToInt ::
  "ap_state \<times> ap_state \<Rightarrow> int list \<Rightarrow> (ap_state \<times> ap_state) \<times> int list" where
  "WebRtcSpl_UpBy2ShortToInt st in0 =
     (let (hi, us) = upper_ap (snd st) (map scale15 in0);
          (lo, vs) = lower_ap (fst st) (map scale15 in0)
      in ((lo, hi), interleave (map (\<lambda>u. shr u 15) us) (map (\<lambda>v. shr v 15) vs)))"

definition WebRtcSpl_UpBy2IntToInt ::
  "ap_state \<times> ap_state \<Rightarrow> int list \<Rightarrow> (ap_state \<times> ap_state) \<times> int list" where
  "WebRtcSpl_UpBy2IntToInt st in0 =
     (let (hi, us) = upper_ap (snd st) in0;
          (lo, vs) = lower_ap (fst st) in0
      in ((lo, hi), interleave us vs))"

definition WebRtcSpl_UpBy2IntToShort ::
  "ap_state \<times> ap_state \<Rightarrow> int list \<Rightarrow> (ap_state \<times> ap_state) \<times> int list" where
  "WebRtcSpl_UpBy2IntToShort st in0 =
     (let (hi, us) = upper_ap (snd st) in0;
          (lo, vs) = lower_ap (fst st) in0
      in ((lo, hi), interleave (map (\<lambda>u. sat16 (shr u 15)) us) (map (\<lambda>v. sat16 (shr v 15)) vs)))"

text \<open>The low-pass filters have four branches on \<^verbatim>\<open>state[0..3]\<close>, \<^verbatim>\<open>state[4..7]\<close>,
  \<^verbatim>\<open>state[8..11]\<close> and \<^verbatim>\<open>state[12..15]\<close>; the first branch sees the odd samples
  one step later, starting with \<^verbatim>\<open>state[12]\<close>. \<open>conv\<close> is the scaling of the input.\<close>

definition lp_by2 ::
  "(int \<Rightarrow> int) \<Rightarrow> ap_state \<times> ap_state \<times> ap_state \<times> ap_state \<Rightarrow> int list \<Rightarrow>
     (ap_state \<times> ap_state \<times> ap_state \<times> ap_state) \<times> int list" where
  "lp_by2 conv st in0 = (case st of (a, b, c, d) \<Rightarrow>
     (let ev = map conv (evens in0); od = map conv (odds in0);
          (a', y1) = lower_ap a (take (length od) (fst d # od));
          (b', z1) = upper_ap b ev;
          (c', y2) = lower_ap c ev;
          (d', z2) = upper_ap d od;
          avg = (\<lambda>y z. shr (i32 (shr y 1 + shr z 1)) 15)
      in ((a', b', c', d'), interleave (map2 avg y1 z1) (map2 avg y2 z2))))"

definition WebRtcSpl_LPBy2ShortToInt ::
  "ap_state \<times> ap_state \<times> ap_state \<times> ap_state \<Rightarrow> int list \<Rightarrow>
     (ap_state \<times> ap_state \<times> ap_state \<times> ap_state) \<times> int list" where
  "WebRtcSpl_LPBy2ShortToInt = lp_by2 scale15"

definition WebRtcSpl_LPBy2IntToInt ::
  "ap_state \<times> ap_state \<times> ap_state \<times> ap_state \<Rightarrow> int list \<Rightarrow>
     (ap_state \<times> ap_state \<times> ap_state \<times> ap_state) \<times> int list" where
  "WebRtcSpl_LPBy2IntToInt = lp_by2 (\<lambda>x. x)"

section \<open>The 16-bit resamplers\<close>

text \<open>\<^verbatim>\<open>WEBRTC_SPL_SCALEDIFF32(A, B, C)\<close> with a 16-bit unsigned \<open>A\<close>; the last addition is
  unsigned and its result is assigned to a signed variable.\<close>

definition SCALEDIFF32 :: "int \<Rightarrow> int \<Rightarrow> int \<Rightarrow> int" where
  "SCALEDIFF32 a b c = i32 (i32 (c + i32 (shr b 16 * a)) + shr (u32 ((65535 AND b) * a)) 16)"

definition kResampleAllpass1 :: "int list" where
  "kResampleAllpass1 = [3284, 24441, 49528]"

definition kResampleAllpass2 :: "int list" where
  "kResampleAllpass2 = [12199, 37471, 60255]"

definition ap_scalediff :: "int list \<Rightarrow> ap_state \<Rightarrow> int \<Rightarrow> ap_state \<times> int" where
  "ap_scalediff k st in32 = (case st of (s0, s1, s2, s3) \<Rightarrow>
     let tmp1 = SCALEDIFF32 (k ! 0) (i32 (in32 - s1)) s0;
         tmp2 = SCALEDIFF32 (k ! 1) (i32 (tmp1 - s2)) s1;
         out = SCALEDIFF32 (k ! 2) (i32 (tmp2 - s3)) s2
     in ((in32, tmp1, tmp2, out), out))"

fun pairs :: "'a list \<Rightarrow> ('a \<times> 'a) list" where
  "pairs (x # y # xs) = (x, y) # pairs xs"
| "pairs _ = []"

definition downsample_step :: "ap_state \<times> ap_state \<Rightarrow> int \<times> int \<Rightarrow> (ap_state \<times> ap_state) \<times> int" where
  "downsample_step st xy =
     (let (lo, y) = ap_scalediff kResampleAllpass2 (fst st) (shl32 (fst xy) 10);
          (hi, z) = ap_scalediff kResampleAllpass1 (snd st) (shl32 (snd xy) 10)
      in ((lo, hi), WebRtcSpl_SatW32ToW16 (shr (i32 (i32 (y + z) + 1024)) 11)))"

definition WebRtcSpl_DownsampleBy2 ::
  "ap_state \<times> ap_state \<Rightarrow> int list \<Rightarrow> (ap_state \<times> ap_state) \<times> int list" where
  "WebRtcSpl_DownsampleBy2 filtState in0 = run downsample_step filtState (pairs in0)"

definition upsample_step :: "ap_state \<times> ap_state \<Rightarrow> int \<Rightarrow> (ap_state \<times> ap_state) \<times> int list" where
  "upsample_step st x =
     (let (lo, y) = ap_scalediff kResampleAllpass1 (fst st) (shl32 x 10);
          (hi, z) = ap_scalediff kResampleAllpass2 (snd st) (shl32 x 10)
      in ((lo, hi), [WebRtcSpl_SatW32ToW16 (shr (i32 (y + 512)) 10),
                     WebRtcSpl_SatW32ToW16 (shr (i32 (z + 512)) 10)]))"

definition WebRtcSpl_UpsampleBy2 ::
  "ap_state \<times> ap_state \<Rightarrow> int list \<Rightarrow> (ap_state \<times> ap_state) \<times> int list" where
  "WebRtcSpl_UpsampleBy2 filtState in0 =
     (let (st, outs) = run upsample_step filtState in0 in (st, concat outs))"

section \<open>Fractional resampling in a scratch memory\<close>

text \<open>An inner product accumulated as \<^verbatim>\<open>tmp += coef * In[k]\<close> from \<^verbatim>\<open>1 << 14\<close>.\<close>

definition fir :: "int list \<Rightarrow> int list \<Rightarrow> int" where
  "fir coefs xs = foldl (\<lambda>tmp (c, x). i32 (tmp + i32 (c * x))) 16384 (zip coefs xs)"

text \<open>The loops read at \<^verbatim>\<open>In\<close> and write at \<^verbatim>\<open>Out\<close> in the same memory, block by block.\<close>

primrec run_blocks ::
  "(int list \<Rightarrow> nat \<Rightarrow> nat \<Rightarrow> int list) \<Rightarrow> nat \<Rightarrow> nat \<Rightarrow> nat \<Rightarrow> int list \<Rightarrow> nat \<Rightarrow> nat \<Rightarrow> int list" where
  "run_blocks step nin nout 0 mem In Out = mem"
| "run_blocks step nin nout (Suc K) mem In Out =
     run_blocks step nin nout K (step mem In Out) (In + nin) (Out + nout)"

definition kCoefficients48To32 :: "int list list" where
  "kCoefficients48To32 =
     [[778, - 2050, 1087, 23285, 12903, - 3783, 441, 222],
      [222, 441, - 3783, 12903, 23285, 1087, - 2050, 778]]"

definition kCoefficients32To24 :: "int list list" where
  "kCoefficients32To24 =
     [[767, - 2362, 2434, 24406, 10620, - 3838, 721, 90],
      [386, - 381, - 2646, 19062, 19062, - 2646, - 381, 386],
      [90, 721, - 3838, 10620, 24406, 2434, - 2362, 767]]"

definition kCoefficients44To32 :: "int list list" where
  "kCoefficients44To32 =
     [[117, - 669, 2245, - 6183, 26267, 13529, - 3245, 845, - 138],
      [- 101, 612, - 2283, 8532, 29790, - 5138, 1789, - 524, 91],
      [50, - 292, 1016, - 3064, 32010, 3933, - 1147, 315, - 53],
      [- 156, 974, - 3863, 18603, 21691, - 6246, 2353, - 712, 126]]"

definition block_48_32 :: "int list \<Rightarrow> nat \<Rightarrow> nat \<Rightarrow> int list" where
  "block_48_32 mem In Out =
     (let m1 = mem[Out := fir (kCoefficients48To32 ! 0) (drop In mem)]
      in m1[Out + 1 := fir (kCoefficients48To32 ! 1) (drop (In + 1) m1)])"

definition WebRtcSpl_Resample48khzTo32khz :: "int list \<Rightarrow> nat \<Rightarrow> nat \<Rightarrow> nat \<Rightarrow> int list" where
  "WebRtcSpl_Resample48khzTo32khz mem In Out K = run_blocks block_48_32 3 2 K mem In Out"

definition block_32_24 :: "int list \<Rightarrow> nat \<Rightarrow> nat \<Rightarrow> int list" where
  "block_32_24 mem In Out =
     (let m1 = mem[Out := fir (kCoefficients32To24 ! 0) (drop In mem)];
          m2 = m1[Out + 1 := fir (kCoefficients32To24 ! 1) (drop (In + 1) m1)]
      in m2[Out + 2 := fir (kCoefficients32To24 ! 2) (drop (In + 2) m2)])"

definition WebRtcSpl_Resample32khzTo24khz :: "int list \<Rightarrow> nat \<Rightarrow> nat \<Rightarrow> nat \<Rightarrow> int list" where
  "WebRtcSpl_Resample32khzTo24khz mem In Out K = run_blocks block_32_24 4 3 K mem In Out"

text \<open>\<^verbatim>\<open>WebRtcSpl_ResampDotProduct\<close>: a product forwards from \<open>in1\<close> and one backwards from
  \<open>in2\<close>; the last factor of the second one is read after the first result was stored.\<close>

definition WebRtcSpl_ResampDotProduct ::
  "int list \<Rightarrow> nat \<Rightarrow> nat \<Rightarrow> int list \<Rightarrow> nat \<Rightarrow> nat \<Rightarrow> int list" where
  "WebRtcSpl_ResampDotProduct mem in1 in2 coef out1 out2 =
     (let tmp1 = fir (take 8 coef) (drop in1 mem);
          tmp2 = fir (take 8 coef) (rev (take (in2 + 1) mem));
          m1 = mem[out1 := i32 (tmp1 + i32 (coef ! 8 * mem ! (in1 + 8)))]
      in m1[out2 := i32 (tmp2 + i32 (coef ! 8 * m1 ! (in2 - 8)))])"

definition block_44_32 :: "int list \<Rightarrow> nat \<Rightarrow> nat \<Rightarrow> int list" where
  "block_44_32 mem In Out =
     (let m1 = mem[Out := i32 (shl32 (mem ! (In + 3)) 15 + 16384)];
          m2 = m1[Out + 4 := fir (kCoefficients44To32 ! 3) (drop (In + 5) m1)];
          m3 = WebRtcSpl_ResampDotProduct m2 In (In + 17) (kCoefficients44To32 ! 0) (Out + 1) (Out + 7);
          m4 = WebRtcSpl_ResampDotProduct m3 (In + 2) (In + 15) (kCoefficients44To32 ! 1) (Out + 2) (Out + 6)
      in WebRtcSpl_ResampDotProduct m4 (In + 3) (In + 14) (kCoefficients44To32 ! 2) (Out + 3) (Out + 5))"

definition WebRtcSpl_Resample44khzTo32khz :: "int list \<Rightarrow> nat \<Rightarrow> nat \<Rightarrow> nat \<Rightarrow> int list" where
  "WebRtcSpl_Resample44khzTo32khz mem In Out K = run_blocks block_44_32 11 8 K mem In Out"

section \<open>Converters between 8, 16 and 48 kHz\<close>

type_synonym ap2 = "ap_state \<times> ap_state"
type_synonym ap4 = "ap_state \<times> ap_state \<times> ap_state \<times> ap_state"

definition ap_zero :: ap_state where
  "ap_zero = (0, 0, 0, 0)"

record State48khzTo16khz =
  S_48_48 :: ap4
  S_48_32 :: "int list"
  S_32_16 :: ap2

record State16khzTo48khz =
  S_16_32 :: ap2
  S_32_24 :: "int list"
  S_24_48 :: ap2

record State48khzTo8khz =
  S_48_24 :: ap2
  S_24_24 :: ap4
  S_24_16 :: "int list"
  S_16_8 :: ap2

record State8khzTo48khz =
  S_8_16 :: ap2
  S_16_12 :: "int list"
  S_12_24 :: ap2
  S_24_48' :: ap2

text \<open>The converters take a 10 ms frame and the scratch memory, and return the output frame, the new
  state and the scratch memory.\<close>

definition WebRtcSpl_Resample48khzTo16khz ::
  "int list \<Rightarrow> State48khzTo16khz \<Rightarrow> int list \<Rightarrow> int list \<times> State48khzTo16khz \<times> int list" where
  "WebRtcSpl_Resample48khzTo16khz in0 state tmpmem =
     (let (s1, y1) = WebRtcSpl_LPBy2ShortToInt (S_48_48 state) (take 480 in0);
          m1 = memcpy tmpmem 16 y1;
          m2 = memcpy m1 8 (S_48_32 state);
          s2 = take 8 (drop 488 m2);
          m3 = WebRtcSpl_Resample48khzTo32khz m2 8 0 160;
          (s3, out, m4) = WebRtcSpl_DownBy2IntToShort (S_32_16 state) m3 320
      in (out, \<lparr>S_48_48 = s1, S_48_32 = s2, S_32_16 = s3\<rparr>, m4))"

definition WebRtcSpl_ResetResample48khzTo16khz :: State48khzTo16khz where
  "WebRtcSpl_ResetResample48khzTo16khz =
     \<lparr>S_48_48 = (ap_zero, ap_zero, ap_zero, ap_zero), S_48_32 = replicate 8 0, S_32_16 = (ap_zero, ap_zero)\<rparr>"

definition WebRtcSpl_Resample16khzTo48khz ::
  "int list \<Rightarrow> State16khzTo48khz \<Rightarrow> int list \<Rightarrow> int list \<times> State16khzTo48khz \<times> int list" where
  "WebRtcSpl_Resample16khzTo48khz in0 state tmpmem =
     (let (s1, y1) = WebRtcSpl_UpBy2ShortToInt (S_16_32 state) (take 160 in0);
          m1 = memcpy tmpmem 16 y1;
          m2 = memcpy m1 8 (S_32_24 state);
          s2 = take 8 (drop 328 m2);
          m3 = WebRtcSpl_Resample32khzTo24khz m2 8 0 80;
          (s3, out) = WebRtcSpl_UpBy2IntToShort (S_24_48 state) (take 240 m3)
      in (out, \<lparr>S_16_32 = s1, S_32_24 = s2, S_24_48 = s3\<rparr>, m3))"

definition WebRtcSpl_ResetResample16khzTo48khz :: State16khzTo48khz where
  "WebRtcSpl_ResetResample16khzTo48khz =
     \<lparr>S_16_32 = (ap_zero, ap_zero), S_32_24 = replicate 8 0, S_24_48 = (ap_zero, ap_zero)\<rparr>"

definition WebRtcSpl_Resample48khzTo8khz ::
  "int list \<Rightarrow> State48khzTo8khz \<Rightarrow> int list \<Rightarrow> int list \<times> State48khzTo8khz \<times> int list" where
  "WebRtcSpl_Resample48khzTo8khz in0 state tmpmem =
     (let (s1, y1) = WebRtcSpl_DownBy2ShortToInt (S_48_24 state) (take 480 in0);
          m1 = memcpy tmpmem 256 y1;
          (s2, y2) = WebRtcSpl_LPBy2IntToInt (S_24_24 state) (take 240 (drop 256 m1));
          m2 = memcpy m1 16 y2;
          m3 = memcpy m2 8 (S_24_16 state);
          s3 = take 8 (drop 248 m3);
          m4 = WebRtcSpl_Resample48khzTo32khz m3 8 0 80;
          (s4, out, m5) = WebRtcSpl_DownBy2IntToShort (S_16_8 state) m4 160
      in (out, \<lparr>S_48_24 = s1, S_24_24 = s2, S_24_16 = s3, S_16_8 = s4\<rparr>, m5))"

definition WebRtcSpl_ResetResample48khzTo8khz :: State48khzTo8khz where
  "WebRtcSpl_ResetResample48khzTo8khz =
     \<lparr>S_48_24 = (ap_zero, ap_zero), S_24_24 = (ap_zero, ap_zero, ap_zero, ap_zero),
      S_24_16 = replicate 8 0, S_16_8 = (ap_zero, ap_zero)\<rparr>"

definition WebRtcSpl_Resample8khzTo48khz ::
  "int list \<Rightarrow> State8khzTo48khz \<Rightarrow> int list \<Rightarrow> int list \<times> State8khzTo48khz \<times> int list" where
  "WebRtcSpl_Resample8khzTo48khz in0 state tmpmem =
     (let (s1, y1) = WebRtcSpl_UpBy2ShortToInt (S_8_16 state) (take 80 in0);
          m1 = memcpy tmpmem 264 y1;
          m2 = memcpy m1 256 (S_16_12 state);
          s2 = take 8 (drop 416 m2);
          m3 = WebRtcSpl_Resample32khzTo24khz m2 256 240 40;
          (s3, y3) = WebRtcSpl_UpBy2IntToInt (S_12_24 state) (take 120 (drop 240 m3));
          m4 = memcpy m3 0 y3;
          (s4, out) = WebRtcSpl_UpBy2IntToShort (S_24_48' state) (take 240 m4)
      in (out, \<lparr>S_8_16 = s1, S_16_12 = s2, S_12_24 = s3, S_24_48' = s4\<rparr>, m4))"

definition WebRtcSpl_ResetResample8khzTo48khz :: State8khzTo48khz where
  "WebRtcSpl_ResetResample8khzTo48khz =
     \<lparr>S_8_16 = (ap_zero, ap_zero), S_16_12 = replicate 8 0, S_12_24 = (ap_zero, ap_zero),
      S_24_48' = (ap_zero, ap_zero)\<rparr>"


section \<open>The filters are streams\<close>

lemma pairs_append: "even (length xs) \<Longrightarrow> pairs (xs @ ys) = pairs xs @ pairs ys"
  by (induction xs rule: pairs.induct) simp_all

lemma length_pairs [simp]: "length (pairs xs) = length xs div 2"
  by (induction xs rule: pairs.induct) simp_all

lemma length_lower_ap [simp]: "length (snd (lower_ap s xs)) = length xs"
  by (simp add: lower_ap_def)

lemma length_upper_ap [simp]: "length (snd (upper_ap s xs)) = length xs"
  by (simp add: upper_ap_def)

lemma lower_ap_append:
  "lower_ap s (xs @ ys) = (let (s1, us) = lower_ap s xs; (s2, vs) = lower_ap s1 ys in (s2, us @ vs))"
  unfolding lower_ap_def by (rule run_append)

lemma upper_ap_append:
  "upper_ap s (xs @ ys) = (let (s1, us) = upper_ap s xs; (s2, vs) = upper_ap s1 ys in (s2, us @ vs))"
  unfolding upper_ap_def by (rule run_append)

lemma ap_Nil [simp]: "lower_ap s [] = (s, [])" "upper_ap s [] = (s, [])"
  by (simp_all add: lower_ap_def upper_ap_def)

lemmas ap_append = lower_ap_append upper_ap_append

lemma dvd_2_even: "2 dvd n \<Longrightarrow> even n"
  by simp

interpretation up_short_int: stream_filter WebRtcSpl_UpBy2ShortToInt 1
proof unfold_locales
  fix s xs ys
  show "WebRtcSpl_UpBy2ShortToInt s (xs @ ys) =
      (let (s1, us) = WebRtcSpl_UpBy2ShortToInt s xs; (s2, vs) = WebRtcSpl_UpBy2ShortToInt s1 ys in (s2, us @ vs))"
    by (simp add: WebRtcSpl_UpBy2ShortToInt_def ap_append interleave_append Let_def case_prod_unfold)
qed (simp add: WebRtcSpl_UpBy2ShortToInt_def)

interpretation up_int_int: stream_filter WebRtcSpl_UpBy2IntToInt 1
proof unfold_locales
  fix s xs ys
  show "WebRtcSpl_UpBy2IntToInt s (xs @ ys) =
      (let (s1, us) = WebRtcSpl_UpBy2IntToInt s xs; (s2, vs) = WebRtcSpl_UpBy2IntToInt s1 ys in (s2, us @ vs))"
    by (simp add: WebRtcSpl_UpBy2IntToInt_def ap_append interleave_append Let_def case_prod_unfold)
qed (simp add: WebRtcSpl_UpBy2IntToInt_def)

interpretation up_int_short: stream_filter WebRtcSpl_UpBy2IntToShort 1
proof unfold_locales
  fix s xs ys
  show "WebRtcSpl_UpBy2IntToShort s (xs @ ys) =
      (let (s1, us) = WebRtcSpl_UpBy2IntToShort s xs; (s2, vs) = WebRtcSpl_UpBy2IntToShort s1 ys in (s2, us @ vs))"
    by (simp add: WebRtcSpl_UpBy2IntToShort_def ap_append interleave_append Let_def case_prod_unfold)
qed (simp add: WebRtcSpl_UpBy2IntToShort_def)

interpretation down_short_int: stream_filter WebRtcSpl_DownBy2ShortToInt 2
proof unfold_locales
  fix s and xs ys :: "int list"
  assume "2 dvd length xs"
  then show "WebRtcSpl_DownBy2ShortToInt s (xs @ ys) =
      (let (s1, us) = WebRtcSpl_DownBy2ShortToInt s xs; (s2, vs) = WebRtcSpl_DownBy2ShortToInt s1 ys in (s2, us @ vs))"
    by (simp add: WebRtcSpl_DownBy2ShortToInt_def ap_append evens_append odds_append Let_def case_prod_unfold)
qed (simp add: WebRtcSpl_DownBy2ShortToInt_def)

interpretation downsample: stream_filter WebRtcSpl_DownsampleBy2 2
proof unfold_locales
  fix s and xs ys :: "int list"
  assume "2 dvd length xs"
  then show "WebRtcSpl_DownsampleBy2 s (xs @ ys) =
      (let (s1, us) = WebRtcSpl_DownsampleBy2 s xs; (s2, vs) = WebRtcSpl_DownsampleBy2 s1 ys in (s2, us @ vs))"
    by (simp add: WebRtcSpl_DownsampleBy2_def pairs_append run_append)
qed (simp add: WebRtcSpl_DownsampleBy2_def)

interpretation upsample: stream_filter WebRtcSpl_UpsampleBy2 1
proof unfold_locales
  fix s xs ys
  show "WebRtcSpl_UpsampleBy2 s (xs @ ys) =
      (let (s1, us) = WebRtcSpl_UpsampleBy2 s xs; (s2, vs) = WebRtcSpl_UpsampleBy2 s1 ys in (s2, us @ vs))"
    by (simp add: WebRtcSpl_UpsampleBy2_def run_append Let_def case_prod_unfold)
qed (simp add: WebRtcSpl_UpsampleBy2_def)

text \<open>The delay element of the low-pass: after a run the first state word is the last input.\<close>

lemma fst_upper_ap: "fst (fst (upper_ap s xs)) = last (fst s # xs)"
proof (induction xs arbitrary: s)
  case (Cons x xs)
  have "fst (fst (allpass3 c s x)) = x" for c
    by (cases s) (simp only: allpass3_def Let_def prod.case fst_conv)
  then show ?case using Cons [of "fst (allpass3 (kResampleAllpass ! 0) s x)"]
    by (simp add: upper_ap_def Let_def case_prod_unfold)
qed simp

lemma take_delayed:
  "take (length (xs @ ys)) (d # xs @ ys) = take (length xs) (d # xs) @ take (length ys) (last (d # xs) # ys)"
proof (cases xs rule: rev_cases)
  case (snoc zs z)
  have "take (length zs + 1 + length ys) (d # zs @ z # ys) = d # zs @ take (length ys) (z # ys)" by simp
  then show ?thesis using snoc by simp
qed simp

lemma lp_by2_append:
  assumes "even (length xs)"
  shows "lp_by2 conv s (xs @ ys) =
    (let (s1, us) = lp_by2 conv s xs; (s2, vs) = lp_by2 conv s1 ys in (s2, us @ vs))"
proof -
  obtain a b c d where s: "s = (a, b, c, d)" by (cases s)
  have t: "take (length (odds xs) + length (odds ys)) (fst d # map conv (odds xs) @ map conv (odds ys)) =
      take (length (odds xs)) (fst d # map conv (odds xs)) @
      take (length (odds ys)) (fst (fst (upper_ap d (map conv (odds xs)))) # map conv (odds ys))"
    using take_delayed [of "map conv (odds xs)" "map conv (odds ys)" "fst d"] by (simp add: fst_upper_ap)
  show ?thesis
    using t assms unfolding s lp_by2_def
    by (simp add: evens_append odds_append ap_append interleave_append Let_def case_prod_unfold)
qed


lemma lp_by2_Nil: "lp_by2 conv s [] = (s, [])"
  by (cases s) (simp add: lp_by2_def)

interpretation lp_short_int: stream_filter WebRtcSpl_LPBy2ShortToInt 2
  by unfold_locales (simp_all add: WebRtcSpl_LPBy2ShortToInt_def lp_by2_append lp_by2_Nil)

interpretation lp_int_int: stream_filter WebRtcSpl_LPBy2IntToInt 2
  by unfold_locales (simp_all add: WebRtcSpl_LPBy2IntToInt_def lp_by2_append lp_by2_Nil)

text \<open>The combining loop of the saturating decimator, on an input whose length is a multiple of
  four, is a pointwise combination of the two branches.\<close>

definition down_int_short :: "ap2 \<Rightarrow> int list \<Rightarrow> ap2 \<times> int list" where
  "down_int_short st xs =
     (let (lo, ys) = lower_ap (fst st) (evens xs); (hi, zs) = upper_ap (snd st) (odds xs)
      in ((lo, hi), map2 (\<lambda>y z. sat16 (shr (i32 (shr y 1 + shr z 1)) 15)) ys zs))"

lemma nth_interleave:
  "i < length xs \<Longrightarrow> length xs = length ys \<Longrightarrow>
     (interleave xs ys @ r) ! (2 * i) = xs ! i \<and> (interleave xs ys @ r) ! Suc (2 * i) = ys ! i"
proof (induction xs ys arbitrary: i rule: interleave.induct)
  case (1 x xs y ys)
  then show ?case by (cases i) auto
qed auto

lemma DownBy2IntToShort_combine:
  assumes "4 dvd len" "len \<le> length xs"
  shows "fst (WebRtcSpl_DownBy2IntToShort st xs len) = fst (down_int_short st (take len xs)) \<and>
    fst (snd (WebRtcSpl_DownBy2IntToShort st xs len)) = snd (down_int_short st (take len xs))"
proof -
  define h where "h = len div 2"
  have h: "2 * h = len" "2 * ((h + 1) div 2) = h" using assms(1) by (auto simp: h_def)
  define ys zs where "ys = snd (lower_ap (fst st) (evens (take len xs)))"
    and "zs = snd (upper_ap (snd st) (odds (take len xs)))"
  have l: "length ys = h" "length zs = h" using assms(2) h by (simp_all add: ys_def zs_def h_def)
  have out: "map (\<lambda>i. sat16 (shr (i32 ((interleave (map (\<lambda>y. shr y 1) ys) (map (\<lambda>z. shr z 1) zs) @ r) ! (2 * i) +
        (interleave (map (\<lambda>y. shr y 1) ys) (map (\<lambda>z. shr z 1) zs) @ r) ! (2 * i + 1))) 15)) [0..<h] =
      map2 (\<lambda>y z. sat16 (shr (i32 (shr y 1 + shr z 1)) 15)) ys zs" for r
    using l by (intro nth_equalityI) (auto simp: nth_interleave)
  show ?thesis
    using out [of "drop len xs"]
    unfolding WebRtcSpl_DownBy2IntToShort_def down_int_short_def Let_def h_def [symmetric] h case_prod_unfold
      ys_def [symmetric] zs_def [symmetric] by simp
qed

interpretation down_is: stream_filter down_int_short 2
  by unfold_locales
    (simp_all add: down_int_short_def ap_append evens_append odds_append Let_def case_prod_unfold)

lemma sat16_range: "in_i16 (sat16 x)"
  by (simp add: sat16_def Let_def)

lemma down_int_short_out:
  "length (snd (down_int_short st xs)) = length xs div 2 \<and> (\<forall>y \<in> set (snd (down_int_short st xs)). in_i16 y)"
  using sat16_range by (auto simp: down_int_short_def Let_def case_prod_unfold)

section \<open>Resampling in place\<close>

lemma drop_memcpy: "off + length src \<le> n \<Longrightarrow> off \<le> length a \<Longrightarrow> drop n (memcpy a off src) = drop n a"
  by (simp add: memcpy_def min_def add.commute)

lemma memcpy_memcpy:
  "off + length xs \<le> length a \<Longrightarrow> memcpy (memcpy a off xs) (off + length xs) ys = memcpy a off (xs @ ys)"
  by (cases xs) (auto simp: memcpy_def min_def ac_simps)

text \<open>The contract of one block: as long as the \<open>nout\<close> cells it writes lie before the cells it
  reads, it stores a function of the \<open>win\<close> cells of its window, although it reads and writes the
  same memory. A whole run then stores the blocks of the original signal.\<close>

locale block_resampler =
  fixes step :: "int list \<Rightarrow> nat \<Rightarrow> nat \<Rightarrow> int list"
    and win nin nout :: nat
    and out :: "int list \<Rightarrow> int list"
  assumes step_out: "Out + nout \<le> In \<Longrightarrow> In + win \<le> length mem \<Longrightarrow>
      step mem In Out = memcpy mem Out (out (take win (drop In mem)))"
    and length_out: "length (out w) = nout"
    and nout_le: "nout \<le> nin"
begin

lemma run_out:
  assumes "Out + nout \<le> In" "In + K * nin + win \<le> length mem + nin"
  shows "run_blocks step nin nout K mem In Out =
    memcpy mem Out (concat (map (\<lambda>m. out (take win (drop (In + m * nin) mem))) [0..<K]))"
  using assms
proof (induction K arbitrary: mem In Out)
  case (Suc K)
  define w where "w = out (take win (drop In mem))"
  have w: "length w = nout" by (simp add: w_def length_out)
  have fit: "In + win \<le> length mem" using Suc.prems by simp
  have st: "step mem In Out = memcpy mem Out w" using step_out fit Suc.prems by (simp add: w_def)
  have len: "length (memcpy mem Out w) = length mem" using w Suc.prems fit by simp
  have dr: "drop (In + nin + m * nin) (memcpy mem Out w) = drop (In + nin + m * nin) mem" for m
    using w Suc.prems fit by (intro drop_memcpy) simp_all
  have "run_blocks step nin nout (Suc K) mem In Out =
      memcpy (memcpy mem Out w) (Out + nout)
        (concat (map (\<lambda>m. out (take win (drop (In + nin + m * nin) mem))) [0..<K]))"
    using Suc.IH [of "Out + nout" "In + nin" "memcpy mem Out w"] Suc.prems nout_le len
    by (simp add: st dr)
  also have "\<dots> = memcpy mem Out (w @ concat (map (\<lambda>m. out (take win (drop (In + nin + m * nin) mem))) [0..<K]))"
    using memcpy_memcpy [of Out w mem] w Suc.prems fit by simp
  also have "w @ concat (map (\<lambda>m. out (take win (drop (In + nin + m * nin) mem))) [0..<K]) =
      concat (map (\<lambda>m. out (take win (drop (In + m * nin) mem))) [0..<Suc K])"
    unfolding upt_conv_Cons [OF zero_less_Suc] map_Suc_upt [symmetric]
    by (simp add: w_def comp_def add.assoc)
  finally show ?case .
qed simp

lemma blocks_length:
  "length (concat (map (\<lambda>m. out (take win (drop (In + m * nin) mem))) [0..<K])) = K * nout"
  by (induction K) (simp_all add: length_out)

end

lemma zip_take_long: "length c \<le> n \<Longrightarrow> zip c (take n xs) = zip c xs"
proof (induction c arbitrary: n xs)
  case (Cons a c)
  then show ?case by (cases n; cases xs) simp_all
qed simp

lemma fir_take: "length c \<le> n \<Longrightarrow> fir c (take n xs) = fir c xs"
  by (simp add: fir_def zip_take_long)

lemma memcpy_update: "off < length a \<Longrightarrow> memcpy a off [x] = a[off := x]"
  by (simp add: memcpy_def upd_conv_take_nth_drop)


lemma memcpy_Cons: "off < length a \<Longrightarrow> memcpy a off (x # xs) = memcpy (a[off := x]) (Suc off) xs"
  by (simp add: memcpy_def take_Suc_conv_app_nth)

lemma fir_append: "length c \<le> length xs \<Longrightarrow> fir c (xs @ ys) = fir c xs"
  using fir_take [of c "length xs" "xs @ ys"] by simp

lemma fir_snoc: "length c < length xs \<Longrightarrow> fir (c @ [k]) xs = i32 (fir c xs + i32 (k * xs ! length c))"
proof -
  assume l: "length c < length xs"
  then have "drop (length c) xs = xs ! length c # drop (Suc (length c)) xs"
    by (simp add: Cons_nth_drop_Suc)
  then have "zip (c @ [k]) xs = zip c (take (length c) xs) @ [(k, xs ! length c)]"
    by (simp add: zip_append1)
  then show ?thesis using zip_take_long [of c "length c" xs] by (simp add: fir_def)
qed

definition out_48_32 :: "int list \<Rightarrow> int list" where
  "out_48_32 w = [fir (kCoefficients48To32 ! 0) w, fir (kCoefficients48To32 ! 1) (drop 1 w)]"

definition out_32_24 :: "int list \<Rightarrow> int list" where
  "out_32_24 w = [fir (kCoefficients32To24 ! 0) w, fir (kCoefficients32To24 ! 1) (drop 1 w),
     fir (kCoefficients32To24 ! 2) (drop 2 w)]"

definition out_44_32 :: "int list \<Rightarrow> int list" where
  "out_44_32 w = [i32 (shl32 (w ! 3) 15 + 16384),
     fir (kCoefficients44To32 ! 0) w, fir (kCoefficients44To32 ! 1) (drop 2 w),
     fir (kCoefficients44To32 ! 2) (drop 3 w), fir (kCoefficients44To32 ! 3) (drop 5 w),
     fir (kCoefficients44To32 ! 2) (rev (take 15 w)), fir (kCoefficients44To32 ! 1) (rev (take 16 w)),
     fir (kCoefficients44To32 ! 0) (rev w)]"

lemma length_kCoefficients [simp]:
  "j < 2 \<Longrightarrow> length (kCoefficients48To32 ! j) = 8" "j < 3 \<Longrightarrow> length (kCoefficients32To24 ! j) = 8"
  "j < 4 \<Longrightarrow> length (kCoefficients44To32 ! j) = 9"
  by (auto simp: kCoefficients48To32_def kCoefficients32To24_def kCoefficients44To32_def less_Suc_eq
      eval_nat_numeral)

lemma drop_drop_take: "fir c (drop i (take n (drop m xs))) = fir c (drop (m + i) xs)" if "length c + i \<le> n"
proof -
  have "drop i (take n (drop m xs)) = take (n - i) (drop (m + i) xs)" by (simp add: drop_take add.commute)
  then show ?thesis using that fir_take [of c "n - i"] by simp
qed

interpretation r48_32: block_resampler block_48_32 9 3 2 out_48_32
proof unfold_locales
  fix Out In :: nat and mem :: "int list"
  assume a: "Out + 2 \<le> In" "In + 9 \<le> length mem"
  have "fir (kCoefficients48To32 ! 0) (take 9 (drop In mem)) = fir (kCoefficients48To32 ! 0) (drop In mem)"
    using fir_take by simp
  then show "block_48_32 mem In Out = memcpy mem Out (out_48_32 (take 9 (drop In mem)))"
    using a drop_drop_take [of "kCoefficients48To32 ! 1" 1 9 In mem]
    by (simp add: block_48_32_def out_48_32_def memcpy_Cons Let_def)
qed (simp_all add: out_48_32_def)

interpretation r32_24: block_resampler block_32_24 10 4 3 out_32_24
proof unfold_locales
  fix Out In :: nat and mem :: "int list"
  assume a: "Out + 3 \<le> In" "In + 10 \<le> length mem"
  have "fir (kCoefficients32To24 ! 0) (take 10 (drop In mem)) = fir (kCoefficients32To24 ! 0) (drop In mem)"
    using fir_take by simp
  then show "block_32_24 mem In Out = memcpy mem Out (out_32_24 (take 10 (drop In mem)))"
    using a drop_drop_take [of "kCoefficients32To24 ! 1" 1 10 In mem]
      drop_drop_take [of "kCoefficients32To24 ! 2" 2 10 In mem]
    by (simp add: block_32_24_def out_32_24_def memcpy_Cons Let_def)
qed (simp_all add: out_32_24_def)


text \<open>The backward product only looks at the last nine cells before its end.\<close>

lemma fir_rev_take:
  assumes "In + length c \<le> n" "n \<le> length mem"
  shows "fir c (rev (take n mem)) = fir c (rev (take (n - In) (drop In mem)))"
proof -
  have "take n mem = take In mem @ take (n - In) (drop In mem)"
    using assms(1) by (simp add: take_add [symmetric])
  then have "rev (take n mem) = rev (take (n - In) (drop In mem)) @ rev (take In mem)" by simp
  moreover have "length c \<le> length (rev (take (n - In) (drop In mem)))" using assms by simp
  ultimately show ?thesis by (simp only: fir_append)
qed

lemma ResampDotProduct_eq:
  assumes "out1 < In" "out2 < In" "In \<le> in1" "In + 8 \<le> in2" "in1 + 9 \<le> length mem" "in2 < length mem"
    and "length coef = 9"
  shows "WebRtcSpl_ResampDotProduct mem in1 in2 coef out1 out2 =
    mem[out1 := fir coef (drop in1 mem), out2 := fir coef (rev (take (in2 + 1 - In) (drop In mem)))]"
proof -
  have c: "coef = take 8 coef @ [coef ! 8]"
    using take_Suc_conv_app_nth [of 8 coef] assms(7) by simp
  have 1: "fir coef (drop in1 mem) = i32 (fir (take 8 coef) (drop in1 mem) + i32 (coef ! 8 * mem ! (in1 + 8)))"
    using fir_snoc [of "take 8 coef" "drop in1 mem" "coef ! 8"] c assms by simp
  have "fir coef (rev (take (in2 + 1) mem)) =
      i32 (fir (take 8 coef) (rev (take (in2 + 1) mem)) + i32 (coef ! 8 * mem ! (in2 - 8)))"
    using fir_snoc [of "take 8 coef" "rev (take (in2 + 1) mem)" "coef ! 8"] c assms
    by (simp add: rev_nth)
  moreover have "fir coef (rev (take (in2 + 1) mem)) = fir coef (rev (take (in2 + 1 - In) (drop In mem)))"
    using assms by (intro fir_rev_take) simp_all
  ultimately show ?thesis using assms 1 by (simp add: WebRtcSpl_ResampDotProduct_def Let_def)
qed

lemma memcpy_8:
  "off + 8 \<le> length a \<Longrightarrow> memcpy a off [x0, x1, x2, x3, x4, x5, x6, x7] =
     a[off := x0, off + 1 := x1, off + 2 := x2, off + 3 := x3, off + 4 := x4, off + 5 := x5, off + 6 := x6,
       off + 7 := x7]"
  by (simp add: memcpy_Cons eval_nat_numeral)

interpretation r44_32: block_resampler block_44_32 18 11 8 out_44_32
proof unfold_locales
  fix Out In :: nat and mem :: "int list"
  assume a: "Out + 8 \<le> In" "In + 18 \<le> length mem"
  let ?w = "take 18 (drop In mem)"
  have w: "fir (kCoefficients44To32 ! 0) ?w = fir (kCoefficients44To32 ! 0) (drop In mem)"
    using fir_take by simp
  note d = drop_drop_take [of "kCoefficients44To32 ! 1" 2 18 In mem] drop_drop_take [of "kCoefficients44To32 ! 2" 3 18 In mem]
    drop_drop_take [of "kCoefficients44To32 ! 3" 5 18 In mem]
  have b: "block_44_32 mem In Out =
     mem[Out := i32 (shl32 (mem ! (In + 3)) 15 + 16384), Out + 4 := fir (kCoefficients44To32 ! 3) (drop (In + 5) mem),
       Out + 1 := fir (kCoefficients44To32 ! 0) (drop In mem), Out + 7 := fir (kCoefficients44To32 ! 0) (rev ?w),
       Out + 2 := fir (kCoefficients44To32 ! 1) (drop (In + 2) mem),
       Out + 6 := fir (kCoefficients44To32 ! 1) (rev (take 16 (drop In mem))),
       Out + 3 := fir (kCoefficients44To32 ! 2) (drop (In + 3) mem),
       Out + 5 := fir (kCoefficients44To32 ! 2) (rev (take 15 (drop In mem)))]"
    using a by (simp add: block_44_32_def Let_def ResampDotProduct_eq [where In = In])
  show "block_44_32 mem In Out = memcpy mem Out (out_44_32 ?w)"
    unfolding b using a w d
    by (simp add: out_44_32_def memcpy_8 list_update_swap)
qed (simp_all add: out_44_32_def)


section \<open>Properties\<close>

text \<open>C13. The fractional resamplers work correctly in place: when the output region starts at least
  one output block (2, 3 or 8 cells) before the input, as in every call of the library, overwriting
  the memory never destroys a sample that is still to be read. The run stores, from the output
  position on, the outputs of the sliding windows of the original signal, and changes nothing
  else.\<close>

theorem resample_in_place:
  assumes "Out + 8 \<le> In"
  shows "(In + K * 3 + 9 \<le> length mem + 3 \<longrightarrow>
      WebRtcSpl_Resample48khzTo32khz mem In Out K =
        memcpy mem Out (concat (map (\<lambda>m. out_48_32 (take 9 (drop (In + m * 3) mem))) [0..<K]))) \<and>
    (In + K * 4 + 10 \<le> length mem + 4 \<longrightarrow>
      WebRtcSpl_Resample32khzTo24khz mem In Out K =
        memcpy mem Out (concat (map (\<lambda>m. out_32_24 (take 10 (drop (In + m * 4) mem))) [0..<K]))) \<and>
    (In + K * 11 + 18 \<le> length mem + 11 \<longrightarrow>
      WebRtcSpl_Resample44khzTo32khz mem In Out K =
        memcpy mem Out (concat (map (\<lambda>m. out_44_32 (take 18 (drop (In + m * 11) mem))) [0..<K])))"
  using assms r48_32.run_out [of Out In K mem] r32_24.run_out [of Out In K mem] r44_32.run_out [of Out In K mem]
  by (simp add: WebRtcSpl_Resample48khzTo32khz_def WebRtcSpl_Resample32khzTo24khz_def
      WebRtcSpl_Resample44khzTo32khz_def)

theorem resample_in_place_witness:
  "WebRtcSpl_Resample48khzTo32khz (replicate 20 1) 8 0 2 =
     memcpy (replicate 20 1) 0 (concat (map (\<lambda>m. out_48_32 (take 9 (drop (8 + m * 3) (replicate 20 1)))) [0..<2]))"
  using resample_in_place [of 0 8 2 "replicate 20 1"] by simp



text \<open>The 48 to 8 kHz converter without its scratch memory.\<close>

definition resample_48_8_spec :: "int list \<Rightarrow> State48khzTo8khz \<Rightarrow> int list \<times> State48khzTo8khz" where
  "resample_48_8_spec in0 state =
     (let (s1, y1) = WebRtcSpl_DownBy2ShortToInt (S_48_24 state) in0;
          (s2, y2) = WebRtcSpl_LPBy2IntToInt (S_24_24 state) y1;
          w = S_24_16 state @ y2;
          y3 = concat (map (\<lambda>m. out_48_32 (take 9 (drop (m * 3) w))) [0..<80]);
          (s4, out) = down_int_short (S_16_8 state) y3
      in (out, \<lparr>S_48_24 = s1, S_24_24 = s2, S_24_16 = drop 240 w, S_16_8 = s4\<rparr>))"

lemma length_DownBy2ShortToInt [simp]:
  "length (snd (WebRtcSpl_DownBy2ShortToInt s xs)) = length xs div 2"
  by (simp add: WebRtcSpl_DownBy2ShortToInt_def Let_def case_prod_unfold)

lemma length_LPBy2IntToInt [simp]:
  "length (snd (WebRtcSpl_LPBy2IntToInt s xs)) = 2 * (length xs div 2)"
  by (cases s) (simp add: WebRtcSpl_LPBy2IntToInt_def lp_by2_def Let_def case_prod_unfold)

lemma take_drop_memcpy:
  "off + length src \<le> length a \<Longrightarrow> n = length src \<Longrightarrow> take n (drop off (memcpy a off src)) = src"
  by (simp add: memcpy_def)


lemma resample_48_8_eq:
  assumes "length in0 = 480" "length (S_24_16 state) = 8" "496 \<le> length tmpmem"
  shows "fst (WebRtcSpl_Resample48khzTo8khz in0 state tmpmem) = fst (resample_48_8_spec in0 state) \<and>
    fst (snd (WebRtcSpl_Resample48khzTo8khz in0 state tmpmem)) = snd (resample_48_8_spec in0 state)"
proof -
  obtain s1 y1 where 1: "WebRtcSpl_DownBy2ShortToInt (S_48_24 state) in0 = (s1, y1)" by fastforce
  obtain s2 y2 where 2: "WebRtcSpl_LPBy2IntToInt (S_24_24 state) y1 = (s2, y2)" by fastforce
  have l1: "length y1 = 240" using length_DownBy2ShortToInt [of "S_48_24 state" in0] assms by (simp add: 1)
  have l2: "length y2 = 240" using length_LPBy2IntToInt [of "S_24_24 state" y1] l1 by (simp add: 2)
  define w where "w = S_24_16 state @ y2"
  define m1 where "m1 = memcpy tmpmem 256 y1"
  define m3 where "m3 = memcpy (memcpy m1 16 y2) 8 (S_24_16 state)"
  have lm: "length m1 = length tmpmem" "length m3 = length tmpmem"
    using l1 l2 assms by (simp_all add: m1_def m3_def)
  have r1: "take 240 (drop 256 m1) = y1" unfolding m1_def using l1 assms by (intro take_drop_memcpy) simp_all
  have m3: "m3 = take 8 m1 @ w @ drop 256 m1"
    using l2 lm assms by (simp add: m3_def memcpy_def w_def)
  have s3: "take 8 (drop 248 m3) = drop 240 w" using assms l2 lm by (simp add: m3 w_def)
  have win: "take 9 (drop (8 + m * 3) m3) = take 9 (drop (m * 3) w)" if "m < 80" for m
    using that assms l2 lm by (simp add: m3 w_def)
  have "WebRtcSpl_Resample48khzTo32khz m3 8 0 80 =
      memcpy m3 0 (concat (map (\<lambda>m. out_48_32 (take 9 (drop (8 + m * 3) m3))) [0..<80]))"
    unfolding WebRtcSpl_Resample48khzTo32khz_def using lm assms by (intro r48_32.run_out) simp_all
  also have "map (\<lambda>m. out_48_32 (take 9 (drop (8 + m * 3) m3))) [0..<80] =
      map (\<lambda>m. out_48_32 (take 9 (drop (m * 3) w))) [0..<80]"
    by (intro map_cong refl) (auto simp: win)
  finally have m4: "WebRtcSpl_Resample48khzTo32khz m3 8 0 80 =
      memcpy m3 0 (concat (map (\<lambda>m. out_48_32 (take 9 (drop (m * 3) w))) [0..<80]))" .
  define y3 where "y3 = concat (map (\<lambda>m. out_48_32 (take 9 (drop (m * 3) w))) [0..<80])"
  have l3: "length y3 = 160" using r48_32.blocks_length [of 0 w 80] by (simp add: y3_def)
  have t: "take 160 (memcpy m3 0 y3) = y3" using l3 lm assms by (simp add: memcpy_def)
  have c: "fst (WebRtcSpl_DownBy2IntToShort (S_16_8 state) (memcpy m3 0 y3) 160) = fst (down_int_short (S_16_8 state) y3)"
    "fst (snd (WebRtcSpl_DownBy2IntToShort (S_16_8 state) (memcpy m3 0 y3) 160)) = snd (down_int_short (S_16_8 state) y3)"
    using DownBy2IntToShort_combine [of 160 "memcpy m3 0 y3" "S_16_8 state"] l3 lm assms by (simp_all add: t)
  have spec: "resample_48_8_spec in0 state = (snd (down_int_short (S_16_8 state) y3),
      \<lparr>S_48_24 = s1, S_24_24 = s2, S_24_16 = drop 240 w, S_16_8 = fst (down_int_short (S_16_8 state) y3)\<rparr>)"
    unfolding resample_48_8_spec_def 1 2 prod.case Let_def w_def [symmetric] y3_def [symmetric]
    by (simp add: case_prod_unfold)
  show ?thesis
    using c assms(1) s3
    by (simp add: spec WebRtcSpl_Resample48khzTo8khz_def 1 2 r1 m1_def [symmetric] m3_def [symmetric]
        m4 y3_def [symmetric] Let_def case_prod_unfold)
qed

lemma resample_48_8_out:
  assumes "length in0 = 480" "length (S_24_16 state) = 8" "496 \<le> length tmpmem"
  shows "case WebRtcSpl_Resample48khzTo8khz in0 state tmpmem of (out, state', _) \<Rightarrow>
    (out, state') = resample_48_8_spec in0 state \<and> length out = 80 \<and> (\<forall>y \<in> set out. in_i16 y) \<and>
    length (S_24_16 state') = 8"
proof -
  have y: "length (concat (map (\<lambda>m. out_48_32 (take 9 (drop (m * 3) w))) [0..<80])) = 160" for w
    using r48_32.blocks_length [of 0 w 80] by simp
  have "length (fst (resample_48_8_spec in0 state)) = 80 \<and> (\<forall>y \<in> set (fst (resample_48_8_spec in0 state)). in_i16 y) \<and>
      length (S_24_16 (snd (resample_48_8_spec in0 state))) = 8"
    using down_int_short_out assms y
    by (simp add: resample_48_8_spec_def Let_def case_prod_unfold del: take_append drop_append)
  then show ?thesis using resample_48_8_eq [OF assms] by (simp add: case_prod_unfold prod_eq_iff)
qed

text \<open>C15. Each 480-sample frame at 48 kHz is converted to 80 samples that are 16-bit values; the
  result and the new state are those of the chain decimate, low-pass, 3-to-2 resample, decimate on
  separate buffers, whatever the scratch memory held and although its regions are reused.\<close>

theorem resample_48_8_frame:
  assumes "length in0 = 480" "length (S_24_16 state) = 8" "496 \<le> length tmpmem"
  shows "case WebRtcSpl_Resample48khzTo8khz in0 state tmpmem of (out, state', _) \<Rightarrow>
    (out, state') = resample_48_8_spec in0 state \<and> length out = 80 \<and> (\<forall>y \<in> set out. in_i16 y) \<and>
    length (S_24_16 state') = 8"
  by (rule resample_48_8_out [OF assms])

theorem resample_48_8_frame_witness:
  "length (fst (WebRtcSpl_Resample48khzTo8khz (replicate 480 0) WebRtcSpl_ResetResample48khzTo8khz (replicate 736 0))) = 80"
  using resample_48_8_frame [of "replicate 480 0" WebRtcSpl_ResetResample48khzTo8khz "replicate 736 0"]
  by (simp add: WebRtcSpl_ResetResample48khzTo8khz_def case_prod_unfold)


lemma fir_fold_exact:
  assumes "\<forall>x \<in> set xs. \<bar>x\<bar> \<le> B" "length xs = length cs"
    and "\<bar>acc\<bar> + B * (\<Sum>c \<leftarrow> cs. \<bar>c\<bar>) < 2147483648"
  shows "foldl (\<lambda>tmp (c, x). i32 (tmp + i32 (c * x))) acc (zip cs xs) = acc + (\<Sum>(c, x) \<leftarrow> zip cs xs. c * x) \<and>
    \<bar>acc + (\<Sum>(c, x) \<leftarrow> zip cs xs. c * x)\<bar> < 2147483648"
  using assms
proof (induction cs arbitrary: acc xs)
  case (Cons c cs)
  obtain x xs' where xs: "xs = x # xs'" using Cons.prems by (cases xs) auto
  have cx: "\<bar>c * x\<bar> \<le> B * \<bar>c\<bar>"
    using Cons.prems(1) mult_right_mono [of "\<bar>x\<bar>" B "\<bar>c\<bar>"] by (simp add: xs abs_mult mult.commute)
  have B: "0 \<le> B" using Cons.prems(1) by (auto simp: xs)
  have sum0: "0 \<le> (\<Sum>c \<leftarrow> cs. \<bar>c\<bar>)" by (rule sum_list_nonneg) auto
  have p: "\<bar>acc + c * x\<bar> + B * (\<Sum>c \<leftarrow> cs. \<bar>c\<bar>) < 2147483648"
    using Cons.prems(3) cx abs_triangle_ineq [of acc "c * x"] by (simp add: distrib_left)
  have "0 \<le> B * (\<Sum>c \<leftarrow> cs. \<bar>c\<bar>)" using B sum0 by simp
  with p have "\<bar>acc + c * x\<bar> < 2147483648" by linarith
  then have "i32 (acc + i32 (c * x)) = acc + c * x" by (simp add: i32_add_right abs_less_iff)
  then show ?case using Cons.IH [of xs' "acc + c * x"] Cons.prems p by (simp add: xs add.assoc)
qed simp

text \<open>C29. No coefficient row of the fractional resamplers can overflow its 32-bit accumulator on
  samples of magnitude up to 39000, which leaves room above the 16-bit range: every output is the
  exact inner product plus the rounding offset.\<close>

theorem fir_exact:
  assumes "coefs \<in> set kCoefficients48To32 \<union> set kCoefficients32To24 \<union> set kCoefficients44To32"
    and "length xs = length coefs" "\<forall>x \<in> set xs. \<bar>x\<bar> \<le> 39000"
  shows "fir coefs xs = 16384 + (\<Sum>(c, x) \<leftarrow> zip coefs xs. c * x) \<and> in_i32 (fir coefs xs)"
proof -
  have "(\<Sum>c \<leftarrow> coefs. \<bar>c\<bar>) \<le> 54724"
    using assms(1) by (auto simp: kCoefficients48To32_def kCoefficients32To24_def kCoefficients44To32_def)
  then have "\<bar>16384\<bar> + 39000 * (\<Sum>c \<leftarrow> coefs. \<bar>c\<bar>) < 2147483648" by simp
  from fir_fold_exact [OF assms(3,2) this] show ?thesis unfolding fir_def by (auto simp: abs_less_iff)
qed

theorem fir_exact_witness: "in_i32 (fir (kCoefficients48To32 ! 0) (replicate 8 32767))"
  using fir_exact [of "kCoefficients48To32 ! 0" "replicate 8 32767"] by (simp add: kCoefficients48To32_def)

lemma SCALEDIFF32_eq:
  assumes "in_i32 b" "in_u16 a"
  shows "SCALEDIFF32 a b c = i32 (c + shr (a * b) 16)"
proof -
  have lo: "65535 AND b = b mod 65536"
    using take_bit_eq_mask [of 16 b] take_bit_eq_mod [of 16 b] by (simp add: mask_numeral and.commute)
  have lr: "0 \<le> b mod 65536" "b mod 65536 \<le> 65535" by simp_all
  have "b mod 65536 * a \<le> 65535 * 65535" using assms(2) lr by (intro mult_mono) auto
  then have u: "u32 ((65535 AND b) * a) = b mod 65536 * a" using lr assms(2) by (simp add: lo)
  have "b div 65536 * 65536 * a + b mod 65536 * a = b * a"
    unfolding distrib_right [symmetric] div_mult_mod_eq by (rule refl)
  then have "a * b = (b div 65536 * a) * 65536 + b mod 65536 * a"
    by (simp only: mult.assoc mult.commute mult.left_commute)
  then have "shr (a * b) 16 = b div 65536 * a + shr (b mod 65536 * a) 16" by (simp add: shr_def)
  then show ?thesis unfolding SCALEDIFF32_def u
    by (simp add: shr_def i32_add_left i32_add_right add.assoc)
qed

end
