(* ===== verification/Spl_Splitting.thy ===== *)
theory Spl_Splitting
  imports Spl_Resample
begin

text \<open>
  The two-band quadrature mirror filter bank of \<^verbatim>\<open>splitting_filter.c\<close>: the all-pass
  cascade, the analysis of a signal into a low and a high band, and the synthesis.
\<close>

definition WebRtcSpl_kAllPassFilter1 :: "int list" where
  "WebRtcSpl_kAllPassFilter1 = [6418, 36982, 57261]"

definition WebRtcSpl_kAllPassFilter2 :: "int list" where
  "WebRtcSpl_kAllPassFilter2 = [21333, 49062, 63010]"

text \<open>One first order section, \<open>y[n] = x[n-1] + a * (x[n] - y[n-1])\<close>, with the pair
  \<open>(x[n-1], y[n-1])\<close> as its state.\<close>

definition qmf_section :: "int \<Rightarrow> int \<times> int \<Rightarrow> int \<Rightarrow> (int \<times> int) \<times> int" where
  "qmf_section a st x =
     (let y = SCALEDIFF32 a (WebRtcSpl_SubSatW32 x (snd st)) (fst st) in ((x, y), y))"

type_synonym qmf_state = "(int \<times> int) \<times> (int \<times> int) \<times> (int \<times> int)"

text \<open>\<^verbatim>\<open>filter_state[0..1]\<close>, \<^verbatim>\<open>[2..3]\<close> and \<^verbatim>\<open>[4..5]\<close> belong to the three
  sections. The first runs from \<^verbatim>\<open>in_data\<close> to \<^verbatim>\<open>out_data\<close>, the second back to
  \<^verbatim>\<open>in_data\<close>, the third to \<^verbatim>\<open>out_data\<close> again; the sequence must not be empty.\<close>

definition WebRtcSpl_AllPassQMF :: "int list \<Rightarrow> qmf_state \<Rightarrow> int list \<Rightarrow> qmf_state \<times> int list" where
  "WebRtcSpl_AllPassQMF coefs filter_state in_data = (case filter_state of (f1, f2, f3) \<Rightarrow>
     (let (f1', y1) = run (qmf_section (coefs ! 0)) f1 in_data;
          (f2', y2) = run (qmf_section (coefs ! 1)) f2 y1;
          (f3', y3) = run (qmf_section (coefs ! 2)) f3 y2
      in ((f1', f2', f3'), y3)))"

text \<open>The results are the two filter states and the two bands.\<close>

definition WebRtcSpl_AnalysisQMF ::
  "qmf_state \<times> qmf_state \<Rightarrow> int list \<Rightarrow> (qmf_state \<times> qmf_state) \<times> (int \<times> int) list" where
  "WebRtcSpl_AnalysisQMF st in_data =
     (let half_in2 = map (\<lambda>x. shl32 x 10) (evens in_data);
          half_in1 = map (\<lambda>x. shl32 x 10) (odds in_data);
          (st1, filter1) = WebRtcSpl_AllPassQMF WebRtcSpl_kAllPassFilter1 (fst st) half_in1;
          (st2, filter2) = WebRtcSpl_AllPassQMF WebRtcSpl_kAllPassFilter2 (snd st) half_in2
      in ((st1, st2), map2 (\<lambda>f1 f2.
            (WebRtcSpl_SatW32ToW16 (shr (i32 (i32 (f1 + f2) + 1024)) 11),
             WebRtcSpl_SatW32ToW16 (shr (i32 (i32 (f1 - f2) + 1024)) 11))) filter1 filter2))"

definition WebRtcSpl_SynthesisQMF ::
  "qmf_state \<times> qmf_state \<Rightarrow> (int \<times> int) list \<Rightarrow> (qmf_state \<times> qmf_state) \<times> int list" where
  "WebRtcSpl_SynthesisQMF st bands =
     (let half_in1 = map (\<lambda>(low, high). shl32 (low + high) 10) bands;
          half_in2 = map (\<lambda>(low, high). shl32 (low - high) 10) bands;
          (st1, filter1) = WebRtcSpl_AllPassQMF WebRtcSpl_kAllPassFilter2 (fst st) half_in1;
          (st2, filter2) = WebRtcSpl_AllPassQMF WebRtcSpl_kAllPassFilter1 (snd st) half_in2
      in ((st1, st2), interleave
            (map (\<lambda>f2. WebRtcSpl_SatW32ToW16 (shr (i32 (f2 + 512)) 10)) filter2)
            (map (\<lambda>f1. WebRtcSpl_SatW32ToW16 (shr (i32 (f1 + 512)) 10)) filter1)))"

section \<open>Lemmas\<close>

lemma length_AllPassQMF [simp]: "length (snd (WebRtcSpl_AllPassQMF c s xs)) = length xs"
  by (cases s) (simp add: WebRtcSpl_AllPassQMF_def Let_def case_prod_unfold)

lemma AllPassQMF_append:
  "WebRtcSpl_AllPassQMF c s (xs @ ys) =
     (let (s1, us) = WebRtcSpl_AllPassQMF c s xs; (s2, vs) = WebRtcSpl_AllPassQMF c s1 ys in (s2, us @ vs))"
  by (cases s) (simp add: WebRtcSpl_AllPassQMF_def run_append Let_def case_prod_unfold)

lemma AllPassQMF_Nil [simp]: "WebRtcSpl_AllPassQMF c s [] = (s, [])"
  by (cases s) (simp add: WebRtcSpl_AllPassQMF_def)

interpretation analysis: stream_filter WebRtcSpl_AnalysisQMF 2
  by unfold_locales
    (simp_all add: WebRtcSpl_AnalysisQMF_def evens_append odds_append AllPassQMF_append Let_def case_prod_unfold)

interpretation synthesis: stream_filter WebRtcSpl_SynthesisQMF 1
  by unfold_locales
    (simp_all add: WebRtcSpl_SynthesisQMF_def AllPassQMF_append interleave_append Let_def case_prod_unfold)

section \<open>Properties\<close>






end
