(* ===== verification/Vad_Filters.thy ===== *)
theory Vad_Filters
  imports Spl_Resample Spl_Correlation
begin

text \<open>
  The voice activity detector, first part: the instance structure of \<^verbatim>\<open>vad_core.h\<close>, the
  filter bank and the feature extraction of \<^verbatim>\<open>vad_filterbank.c\<close>, and the downsampling filter
  of \<^verbatim>\<open>vad_sp.c\<close>.
\<close>

record VadInstT =
  vad :: int
  downsampling_filter_states :: "int list"
  state_48_to_8 :: State48khzTo8khz
  noise_means :: "int list"
  speech_means :: "int list"
  noise_stds :: "int list"
  speech_stds :: "int list"
  frame_counter :: int
  over_hang :: int
  num_of_speech :: int
  index_vector :: "int list"
  low_value_vector :: "int list"
  mean_value :: "int list"
  upper_state :: "int list"
  lower_state :: "int list"
  hp_filter_state :: "int \<times> int \<times> int \<times> int"
  over_hang_max_1 :: "int list"
  over_hang_max_2 :: "int list"
  individual :: "int list"
  total :: "int list"
  init_flag :: int

text \<open>\<^verbatim>\<open>WEBRTC_SPL_MUL_16_16_RSFT(a, b, c)\<close>: a product of two 16-bit values fits in 32 bits.\<close>

definition mul_rsft :: "int \<Rightarrow> int \<Rightarrow> nat \<Rightarrow> int" where
  "mul_rsft a b c = shr (i16 a * i16 b) c"

section \<open>Filters\<close>

definition hp_step :: "int \<times> int \<times> int \<times> int \<Rightarrow> int \<Rightarrow> (int \<times> int \<times> int \<times> int) \<times> int" where
  "hp_step st x = (case st of (f0, f1, f2, f3) \<Rightarrow>
     (let t1 = 6631 * x;
          t2 = i32 (t1 + (- 13262) * f0);
          t3 = i32 (t2 + 6631 * f1);
          t4 = i32 (t3 - (- 7756) * f2);
          t5 = i32 (t4 - 5620 * f3);
          y = i16 (shr t5 14)
      in ((x, f0, y, f2), y)))"

definition HighPassFilter ::
  "int list \<Rightarrow> int \<times> int \<times> int \<times> int \<Rightarrow> (int \<times> int \<times> int \<times> int) \<times> int list" where
  "HighPassFilter data_in filter_state = run hp_step filter_state data_in"

definition allpass_step :: "int \<Rightarrow> int \<Rightarrow> int \<Rightarrow> int \<times> int" where
  "allpass_step coef state32 x =
     (let tmp16 = i16 (shr (i32 (state32 + coef * x)) 16)
      in (shl32 (i32 (shl32 x 14 - coef * tmp16)) 1, tmp16))"

text \<open>The filter reads every second sample: \<open>xs\<close> are the samples it reads. The 32-bit state is cut
  to its upper half when it is stored.\<close>

definition AllPassFilter :: "int list \<Rightarrow> int \<Rightarrow> int \<Rightarrow> int \<times> int list" where
  "AllPassFilter xs filter_coefficient filter_state =
     (let (state32, out) = run (allpass_step filter_coefficient) (shl32 filter_state 16) xs
      in (i16 (shr state32 16), out))"

definition SplitFilter :: "int list \<Rightarrow> int \<Rightarrow> int \<Rightarrow> (int \<times> int) \<times> int list \<times> int list" where
  "SplitFilter data_in ustate lstate =
     (let (u, hp) = AllPassFilter (evens data_in) 20972 ustate;
          (l, lp) = AllPassFilter (odds data_in) 5571 lstate
      in ((u, l), map2 (\<lambda>h l. i16 (h - l)) hp lp, map2 (\<lambda>h l. i16 (l + h)) hp lp))"

text \<open>Log energy of a band; the result is the updated total energy and the feature.\<close>

definition LogOfEnergy :: "int list \<Rightarrow> int \<Rightarrow> int \<Rightarrow> int \<times> int" where
  "LogOfEnergy data_in offset total_energy =
     (let (en, shifts) = WebRtcSpl_Energy data_in; energy = u32 en
      in if energy \<noteq> 0
         then let normalizing_rshifts = 17 - WebRtcSpl_NormU32 energy;
                  tot_rshifts = shifts + normalizing_rshifts;
                  energy1 = (if normalizing_rshifts < 0 then u32 (energy * 2 ^ nat (- normalizing_rshifts))
                             else shr energy (nat normalizing_rshifts));
                  log2_energy = i16 (14336 + i16 (shr (energy1 AND 16383) 4));
                  log0 = i16 (mul_rsft 24660 log2_energy 19 + mul_rsft tot_rshifts 24660 9);
                  log1 = (if log0 < 0 then 0 else log0);
                  log_energy = i16 (log1 + offset)
              in (if total_energy \<le> 10
                  then if tot_rshifts \<ge> 0 then i16 (total_energy + 11)
                       else i16 (total_energy + i16 (shr energy1 (nat (- tot_rshifts))))
                  else total_energy, log_energy)
         else (total_energy, offset))"

definition kOffsetVector :: "int list" where
  "kOffsetVector = [368, 368, 272, 176, 176, 176]"

text \<open>\<^verbatim>\<open>WebRtcVad_CalculateFeatures\<close>: five splits, each with its own cell of the two state
  arrays, six log energies. The result is the total energy, the features and the instance.\<close>

definition WebRtcVad_CalculateFeatures :: "VadInstT \<Rightarrow> int list \<Rightarrow> int \<times> int list \<times> VadInstT" where
  "WebRtcVad_CalculateFeatures self data_in =
     (let us = upper_state self; ls = lower_state self;
          ((u0, l0), hp0, lp0) = SplitFilter data_in (us ! 0) (ls ! 0);
          ((u1, l1), hp1, lp1) = SplitFilter hp0 (us ! 1) (ls ! 1);
          (te5, f5) = LogOfEnergy hp1 (kOffsetVector ! 5) 0;
          (te4, f4) = LogOfEnergy lp1 (kOffsetVector ! 4) te5;
          ((u2, l2), hp2, lp2) = SplitFilter lp0 (us ! 2) (ls ! 2);
          (te3, f3) = LogOfEnergy hp2 (kOffsetVector ! 3) te4;
          ((u3, l3), hp3, lp3) = SplitFilter lp2 (us ! 3) (ls ! 3);
          (te2, f2) = LogOfEnergy hp3 (kOffsetVector ! 2) te3;
          ((u4, l4), hp4, lp4) = SplitFilter lp3 (us ! 4) (ls ! 4);
          (te1, f1) = LogOfEnergy hp4 (kOffsetVector ! 1) te2;
          (hs, hp) = HighPassFilter lp4 (hp_filter_state self);
          (te0, f0) = LogOfEnergy hp (kOffsetVector ! 0) te1
      in (te0, [f0, f1, f2, f3, f4, f5],
          self\<lparr>upper_state := [u0, u1, u2, u3, u4], lower_state := [l0, l1, l2, l3, l4],
               hp_filter_state := hs\<rparr>))"

text \<open>\<^verbatim>\<open>WebRtcVad_Downsampling\<close> on pairs of input samples, with the two 32-bit states.\<close>

definition downsampling_step :: "int \<times> int \<Rightarrow> int \<times> int \<Rightarrow> (int \<times> int) \<times> int" where
  "downsampling_step st xy = (case (st, xy) of ((s1, s2), (x, y)) \<Rightarrow>
     (let t1 = i16 (shr s1 1 + mul_rsft 5243 x 14);
          s1' = i32 (x - mul_rsft 5243 t1 12);
          t2 = i16 (shr s2 1 + mul_rsft 1392 y 14);
          s2' = i32 (y - mul_rsft 1392 t2 12)
      in ((s1', s2'), i16 (t1 + t2))))"

definition WebRtcVad_Downsampling :: "int \<times> int \<Rightarrow> int list \<Rightarrow> (int \<times> int) \<times> int list" where
  "WebRtcVad_Downsampling filter_state signal_in = run downsampling_step filter_state (pairs signal_in)"

section \<open>Lengths and ranges\<close>

lemma length_HighPassFilter [simp]: "length (snd (HighPassFilter xs s)) = length xs"
  by (simp add: HighPassFilter_def)

lemma length_AllPassFilter [simp]: "length (snd (AllPassFilter xs c s)) = length xs"
  by (simp add: AllPassFilter_def Let_def case_prod_unfold)

lemma SplitFilter_out:
  assumes "SplitFilter xs u l = (st, hp, lp)"
  shows "length hp = length xs div 2" "length lp = length xs div 2"
    "\<forall>x \<in> set hp. in_i16 x" "\<forall>x \<in> set lp. in_i16 x"
  using assms i16_range by (auto simp: SplitFilter_def Let_def case_prod_unfold)

lemma HighPassFilter_out: "\<forall>y \<in> set (snd (HighPassFilter xs s)). in_i16 y"
proof -
  have "in_i16 (snd (hp_step st x))" for st x
    by (cases st) (simp only: hp_step_def Let_def prod.case snd_conv i16_range)
  then show ?thesis unfolding HighPassFilter_def by (intro run_output)
qed

lemma length_Downsampling [simp]: "length (snd (WebRtcVad_Downsampling s xs)) = length xs div 2"
  by (simp add: WebRtcVad_Downsampling_def)

lemma Downsampling_out: "\<forall>y \<in> set (snd (WebRtcVad_Downsampling s xs)). in_i16 y"
  unfolding WebRtcVad_Downsampling_def using i16_range
  by (intro run_output) (simp add: downsampling_step_def Let_def case_prod_unfold)

interpretation vad_downsampling: stream_filter WebRtcVad_Downsampling 2
  by unfold_locales (simp_all add: WebRtcVad_Downsampling_def pairs_append run_append)


lemma NormW32_nonneg: "0 \<le> WebRtcSpl_NormW32 a"
  by (simp add: WebRtcSpl_NormW32_def Let_def)

lemma GetSizeInBits_0: "WebRtcSpl_GetSizeInBits 0 = 0"
  by code_simp

lemma GetScalingSquare_range:
  assumes "n \<le> 120"
  shows "0 \<le> WebRtcSpl_GetScalingSquare xs (int n) \<and> WebRtcSpl_GetScalingSquare xs (int n) \<le> 7"
proof -
  obtain k where k: "WebRtcSpl_GetSizeInBits (int n) = int k" "0 < int n \<longrightarrow> 0 < k \<and> 2 ^ (k - 1) \<le> int n"
    using GetSizeInBits_spec [of "int n"] assms by auto
  have "k \<le> 7"
  proof (rule ccontr)
    assume c: "\<not> k \<le> 7"
    have n: "n \<noteq> 0" using k(1) c GetSizeInBits_0 by (intro notI) simp
    have "(2 :: int) ^ 7 \<le> 2 ^ (k - 1)" using c by (intro power_increasing) simp_all
    also have "2 ^ (k - 1) \<le> int n" using k(2) n by simp
    finally show False using assms by simp
  qed
  moreover have r: "0 \<le> (if c then 0 else if t > int k then 0 else i16 (int k - t)) \<and>
      (if c then 0 else if t > int k then 0 else i16 (int k - t)) \<le> 7" if "k \<le> 7" "0 \<le> t" for c :: bool and t
    using that by auto
  have u: "u32 (int n) = int n" using assms by simp
  ultimately show ?thesis unfolding WebRtcSpl_GetScalingSquare_def Let_def u k(1)
    by (intro r NormW32_nonneg) simp
qed

text \<open>The log energy is computed from a 15-bit mantissa and at most 24 shifts.\<close>

lemma mul_rsft_bounds:
  assumes "in_i16 x" "a \<le> x" "x \<le> b" "0 \<le> c" "in_i16 c"
  shows "shr (c * a) n \<le> mul_rsft c x n \<and> mul_rsft c x n \<le> shr (c * b) n"
  using assms by (auto simp: mul_rsft_def intro!: shr_mono mult_left_mono)

lemma LogOfEnergy_range:
  assumes "length xs \<le> 120" "in_i16 offset" "0 \<le> offset" "offset \<le> 368"
  shows "offset \<le> snd (LogOfEnergy xs offset te) \<and> snd (LogOfEnergy xs offset te) \<le> offset + 1877"
proof -
  obtain en sh where e: "WebRtcSpl_Energy xs = (en, sh)" by fastforce
  have sh: "0 \<le> sh \<and> sh \<le> 7"
    using GetScalingSquare_range [OF assms(1), of xs] e by (auto simp: WebRtcSpl_Energy_def Let_def)
  show ?thesis
  proof (cases "u32 en = 0")
    case False
    have "0 < u32 en" "u32 en < 4294967296" using False u32_range [of en] by auto
    then obtain z where z: "WebRtcSpl_NormU32 (u32 en) = int z" "z \<le> 31" by (rule NormU32_pos)
    define e1 where "e1 = (if 17 - int z < 0 then u32 (u32 en * 2 ^ nat (- (17 - int z))) else shr (u32 en) (nat (17 - int z)))"
    define m where "m = shr (e1 AND 16383) 4"
    have "m < 1024" using AND_upper2 [of 16383 e1] unfolding m_def by (intro shr_upper) simp
    then have m: "0 \<le> m" "m \<le> 1023" by (simp_all add: m_def)
    define t where "t = sh + (17 - int z)"
    have t: "- 14 \<le> t" "t \<le> 24" using sh z(2) by (auto simp: t_def)
    have a: "674 \<le> mul_rsft 24660 (14336 + m) 19 \<and> mul_rsft 24660 (14336 + m) 19 \<le> 722"
      using mul_rsft_bounds [of "14336 + m" 14336 15359 24660 19] m by (simp add: shr_def)
    have b: "- 675 \<le> mul_rsft t 24660 9 \<and> mul_rsft t 24660 9 \<le> 1155"
      using mul_rsft_bounds [of t "- 14" 24 24660 9] t by (simp add: shr_def mul_rsft_def mult.commute)
    have i: "i16 (14336 + i16 m) = 14336 + m" using m by simp
    have c: "offset \<le> i16 ((if i16 w < 0 then 0 else i16 w) + offset) \<and>
        i16 ((if i16 w < 0 then 0 else i16 w) + offset) \<le> offset + 1877" if "- 1 \<le> w" "w \<le> 1877" for w
      using that assms by simp
    have "snd (LogOfEnergy xs offset te) =
        i16 ((if i16 (mul_rsft 24660 (i16 (14336 + i16 m)) 19 + mul_rsft t 24660 9) < 0 then 0
              else i16 (mul_rsft 24660 (i16 (14336 + i16 m)) 19 + mul_rsft t 24660 9)) + offset)"
      using False unfolding LogOfEnergy_def e z(1) Let_def prod.case m_def e1_def t_def by (simp only: if_True if_False snd_conv not_False_eq_True)
    then show ?thesis unfolding i using c a b by simp
  qed (simp add: LogOfEnergy_def e assms)
qed


lemma split_result:
  obtains u l hp lp where "SplitFilter xs us ls = ((u, l), hp, lp)"
  by (cases "SplitFilter xs us ls") auto

lemma CalculateFeatures_bounds:
  assumes "length data_in \<le> 240" "WebRtcVad_CalculateFeatures self data_in = (te, features, self')"
  shows "length features = 6 \<and>
    (\<forall>i < 6. kOffsetVector ! i \<le> features ! i \<and> features ! i \<le> kOffsetVector ! i + 1877) \<and>
    length (upper_state self') = 5 \<and> length (lower_state self') = 5"
proof -
  obtain u0 l0 hp0 lp0 where 0: "SplitFilter data_in (upper_state self ! 0) (lower_state self ! 0) = ((u0, l0), hp0, lp0)"
    by (rule split_result)
  obtain u1 l1 hp1 lp1 where 1: "SplitFilter hp0 (upper_state self ! 1) (lower_state self ! 1) = ((u1, l1), hp1, lp1)"
    by (rule split_result)
  obtain u2 l2 hp2 lp2 where 2: "SplitFilter lp0 (upper_state self ! 2) (lower_state self ! 2) = ((u2, l2), hp2, lp2)"
    by (rule split_result)
  obtain u3 l3 hp3 lp3 where 3: "SplitFilter lp2 (upper_state self ! 3) (lower_state self ! 3) = ((u3, l3), hp3, lp3)"
    by (rule split_result)
  obtain u4 l4 hp4 lp4 where 4: "SplitFilter lp3 (upper_state self ! 4) (lower_state self ! 4) = ((u4, l4), hp4, lp4)"
    by (rule split_result)
  note l = SplitFilter_out(1,2) [OF 0] SplitFilter_out(1,2) [OF 1] SplitFilter_out(1,2) [OF 2]
    SplitFilter_out(1,2) [OF 3] SplitFilter_out(1,2) [OF 4]
  obtain te5 f5 where 5: "LogOfEnergy hp1 (kOffsetVector ! 5) 0 = (te5, f5)" by fastforce
  obtain te4 f4 where 6: "LogOfEnergy lp1 (kOffsetVector ! 4) te5 = (te4, f4)" by fastforce
  obtain te3 f3 where 7: "LogOfEnergy hp2 (kOffsetVector ! 3) te4 = (te3, f3)" by fastforce
  obtain te2 f2 where 8: "LogOfEnergy hp3 (kOffsetVector ! 2) te3 = (te2, f2)" by fastforce
  obtain te1 f1 where 9: "LogOfEnergy hp4 (kOffsetVector ! 1) te2 = (te1, f1)" by fastforce
  obtain hs hp where 10: "HighPassFilter lp4 (hp_filter_state self) = (hs, hp)" by fastforce
  obtain te0 f0 where 11: "LogOfEnergy hp (kOffsetVector ! 0) te1 = (te0, f0)" by fastforce
  have fs: "features = [f0, f1, f2, f3, f4, f5]" "length (upper_state self') = 5" "length (lower_state self') = 5"
    using assms(2) unfolding WebRtcVad_CalculateFeatures_def 0 1 2 3 4 5 6 7 8 9 10 11 Let_def prod.case by auto
  have r: "kOffsetVector ! i \<le> snd (LogOfEnergy xs (kOffsetVector ! i) t) \<and>
      snd (LogOfEnergy xs (kOffsetVector ! i) t) \<le> kOffsetVector ! i + 1877" if "length xs \<le> 120" "i < 6" for xs i t
  proof -
    have "kOffsetVector ! i \<in> set kOffsetVector" using that(2) by (intro nth_mem) (simp add: kOffsetVector_def)
    then have "0 \<le> kOffsetVector ! i \<and> kOffsetVector ! i \<le> 368" by (auto simp: kOffsetVector_def)
    then show ?thesis using that by (intro LogOfEnergy_range) auto
  qed
  have hp: "length hp = length lp4" using length_HighPassFilter [of lp4 "hp_filter_state self"] by (simp add: 10)
  have sz: "length hp \<le> 120" "length hp4 \<le> 120" "length hp3 \<le> 120" "length hp2 \<le> 120" "length lp1 \<le> 120"
    "length hp1 \<le> 120" using l hp assms(1) by linarith+
  have "kOffsetVector ! i \<le> features ! i \<and> features ! i \<le> kOffsetVector ! i + 1877" if i: "i < 6" for i
  proof -
    consider "i = 0" | "i = 1" | "i = 2" | "i = 3" | "i = 4" | "i = 5" using i by linarith
    then show ?thesis
    proof cases
      case 1 then show ?thesis using sz r [of hp 0 te1] by (simp add: fs 11)
    next
      case 2 then show ?thesis using sz r [of hp4 1 te2] unfolding 9 by (simp add: fs)
    next
      case 3 then show ?thesis using sz r [of hp3 2 te3] by (simp add: fs 8)
    next
      case 4 then show ?thesis using sz r [of hp2 3 te4] by (simp add: fs 7)
    next
      case 5 then show ?thesis using sz r [of lp1 4 te5] by (simp add: fs 6)
    next
      case 6 then show ?thesis using sz r [of hp1 5 0] by (simp add: fs 5)
    qed
  qed
  then show ?thesis using fs by simp
qed

text \<open>C32. On every frame of at most 240 samples the six features of the voice activity detector
  exceed their channel offset by at most 1877, so they always lie between 176 and 2245; exactly six
  features are produced and the filter states keep their shape.\<close>

theorem vad_features_bounded:
  assumes "length data_in \<le> 240" "WebRtcVad_CalculateFeatures self data_in = (te, features, self')"
  shows "length features = 6 \<and>
    (\<forall>i < 6. kOffsetVector ! i \<le> features ! i \<and> features ! i \<le> kOffsetVector ! i + 1877) \<and>
    length (upper_state self') = 5 \<and> length (lower_state self') = 5"
  by (rule CalculateFeatures_bounds [OF assms])

definition vad_blank :: VadInstT where
  "vad_blank = \<lparr>vad = 0, downsampling_filter_states = [0, 0, 0, 0],
     state_48_to_8 = WebRtcSpl_ResetResample48khzTo8khz, noise_means = replicate 12 0, speech_means = replicate 12 0,
     noise_stds = replicate 12 384, speech_stds = replicate 12 384, frame_counter = 0, over_hang = 0,
     num_of_speech = 0, index_vector = replicate 96 0, low_value_vector = replicate 96 10000,
     mean_value = replicate 6 1600, upper_state = [0, 0, 0, 0, 0], lower_state = [0, 0, 0, 0, 0],
     hp_filter_state = (0, 0, 0, 0), over_hang_max_1 = [0, 0, 0], over_hang_max_2 = [0, 0, 0],
     individual = [0, 0, 0], total = [0, 0, 0], init_flag = 0\<rparr>"

theorem vad_features_bounded_witness:
  "length (fst (snd (WebRtcVad_CalculateFeatures vad_blank (replicate 80 1000)))) = 6"
  using vad_features_bounded [of "replicate 80 1000" vad_blank
      "fst (WebRtcVad_CalculateFeatures vad_blank (replicate 80 1000))"
      "fst (snd (WebRtcVad_CalculateFeatures vad_blank (replicate 80 1000)))"
      "snd (snd (WebRtcVad_CalculateFeatures vad_blank (replicate 80 1000)))"]
  by simp

end
