(* ===== verification/Vad_Sp.thy ===== *)
theory Vad_Sp
  imports Vad_Filters "HOL-Library.Multiset"
begin

text \<open>
  The voice activity detector, second part: \<^verbatim>\<open>WebRtcVad_FindMinimum\<close> of
  \<^verbatim>\<open>vad_sp.c\<close>, which keeps the 16 smallest feature values of the last 100 frames of a channel
  and smooths their median.
\<close>

section \<open>The operation\<close>

text \<open>\<^verbatim>\<open>age\<close> and \<^verbatim>\<open>smallest_values\<close> point to the 16 cells of the channel. The loop that
  removes a value reads one cell past them, which belongs to the next channel or, for the last
  channel, to the next array of the structure; \<open>beyond\<close> is the value of that cell.\<close>

definition shift_down :: "int \<Rightarrow> int list \<Rightarrow> nat \<Rightarrow> int list" where
  "shift_down beyond xs i = foldl (\<lambda>ys j. ys[j := (ys @ [beyond]) ! (j + 1)]) xs [i..<16]"

definition age_step :: "int \<Rightarrow> int \<Rightarrow> int list \<times> int list \<Rightarrow> nat \<Rightarrow> int list \<times> int list" where
  "age_step past_age past_val st i = (case st of (age, vals) \<Rightarrow>
     if age ! i \<noteq> 100 then (age[i := i16 (age ! i + 1)], vals)
     else ((shift_down past_age age i)[15 := 101], (shift_down past_val vals i)[15 := 10000]))"

definition age_loop :: "int \<Rightarrow> int \<Rightarrow> int list \<times> int list \<Rightarrow> int list \<times> int list" where
  "age_loop past_age past_val st = foldl (age_step past_age past_val) st [0..<16]"

definition find_position :: "int \<Rightarrow> int list \<Rightarrow> int" where
  "find_position v s =
     (if v < s ! 7
      then if v < s ! 3
           then if v < s ! 1 then (if v < s ! 0 then 0 else 1)
                else if v < s ! 2 then 2 else 3
           else if v < s ! 5 then (if v < s ! 4 then 4 else 5)
                else if v < s ! 6 then 6 else 7
      else if v < s ! 15
      then if v < s ! 11
           then if v < s ! 9 then (if v < s ! 8 then 8 else 9)
                else if v < s ! 10 then 10 else 11
           else if v < s ! 13 then (if v < s ! 12 then 12 else 13)
                else if v < s ! 14 then 14 else 15
      else - 1)"

definition insert_at :: "int list \<Rightarrow> nat \<Rightarrow> int \<Rightarrow> int list" where
  "insert_at xs pos v = (foldl (\<lambda>ys i. ys[i := ys ! (i - 1)]) xs (rev [Suc pos..<16]))[pos := v]"

definition smooth_median :: "int \<Rightarrow> int \<Rightarrow> int \<Rightarrow> int" where
  "smooth_median fc mean current_median =
     (let alpha = (if fc > 0 then (if current_median < mean then 6553 else 32439) else 0);
          t1 = i32 ((alpha + 1) * mean);
          t2 = i32 (t1 + (32767 - alpha) * current_median);
          t3 = i32 (t2 + 16384)
      in i16 (shr t3 15))"

definition WebRtcVad_FindMinimum :: "VadInstT \<Rightarrow> int \<Rightarrow> nat \<Rightarrow> int \<times> VadInstT" where
  "WebRtcVad_FindMinimum self feature_value channel =
     (let offset = 16 * channel;
          past_age = (index_vector self @ low_value_vector self) ! (offset + 16);
          past_val = (low_value_vector self @ mean_value self) ! (offset + 16);
          (age, vals) = age_loop past_age past_val
            (take 16 (drop offset (index_vector self)), take 16 (drop offset (low_value_vector self)));
          position = find_position feature_value vals;
          (age', vals') = (if position > - 1
             then (insert_at age (nat position) 1, insert_at vals (nat position) feature_value)
             else (age, vals));
          current_median = (if frame_counter self > 2 then vals' ! 2
             else if frame_counter self > 0 then vals' ! 0 else 1600);
          m = smooth_median (frame_counter self) (mean_value self ! channel) current_median
      in (m, self\<lparr>index_vector := memcpy (index_vector self) offset age',
                  low_value_vector := memcpy (low_value_vector self) offset vals',
                  mean_value := (mean_value self)[channel := m]\<rparr>))"

section \<open>Array loops as list functions\<close>

lemma shift_down_eq_aux:
  "i \<le> length xs \<Longrightarrow>
     foldl (\<lambda>ys j. ys[j := (ys @ [b]) ! (j + 1)]) xs [i..<length xs] =
     (if i < length xs then take i xs @ drop (i + 1) xs @ [b] else xs)"
proof (induction "length xs - i" arbitrary: i xs)
  case (Suc n)
  then have i: "i < length xs" by simp
  define ys where "ys = xs[i := (xs @ [b]) ! (i + 1)]"
  have ly: "length ys = length xs" by (simp add: ys_def)
  have "foldl (\<lambda>ys j. ys[j := (ys @ [b]) ! (j + 1)]) xs [i..<length xs] =
      foldl (\<lambda>ys j. ys[j := (ys @ [b]) ! (j + 1)]) ys [Suc i..<length ys]"
    using i by (simp add: upt_rec [of i] ys_def)
  also have "\<dots> = (if Suc i < length ys then take (Suc i) ys @ drop (Suc i + 1) ys @ [b] else ys)"
    using Suc.hyps(2) i ly by (intro Suc.hyps(1)) simp_all
  also have "\<dots> = take i xs @ drop (i + 1) xs @ [b]"
  proof (cases "Suc i < length xs")
    case True
    then have "take (Suc i) ys = take i xs @ [xs ! Suc i]"
      by (simp add: ys_def take_Suc_conv_app_nth nth_append)
    moreover have "drop (i + 1) xs = xs ! Suc i # drop (Suc i + 1) xs" using True by (simp add: Cons_nth_drop_Suc)
    ultimately show ?thesis using True by (simp add: ly) (simp add: ys_def)
  next
    case False
    then have "Suc i = length xs" using i by simp
    then show ?thesis by (simp add: ly) (simp add: ys_def nth_append list_eq_iff_nth_eq nth_list_update)
  qed
  finally show ?case using i by simp
qed auto

lemma shift_down_eq:
  "length xs = 16 \<Longrightarrow> i < 16 \<Longrightarrow> (shift_down b xs i)[15 := v] = take i xs @ drop (Suc i) xs @ [v]"
proof -
  assume l: "length xs = 16" "i < 16"
  have "shift_down b xs i = take i xs @ drop (Suc i) xs @ [b]"
    using shift_down_eq_aux [of i xs b] l by (simp add: shift_down_def)
  moreover have "length (take i xs @ drop (Suc i) xs) = 15" using l by simp
  ultimately show ?thesis by (metis append_assoc list_update_length)
qed

lemma insert_loop_nth:
  "n \<le> length xs \<Longrightarrow> k < length xs \<Longrightarrow>
     foldl (\<lambda>ys i. ys[i := ys ! (i - Suc 0)]) xs (rev [Suc p..<n]) ! k =
       (if p < k \<and> k < n then xs ! (k - 1) else xs ! k)"
proof (induction n arbitrary: xs)
  case (Suc n)
  show ?case
  proof (cases "p < n")
    case True
    define ys where "ys = xs[n := xs ! (n - 1)]"
    have "foldl (\<lambda>ys i. ys[i := ys ! (i - 1)]) xs (rev [Suc p..<Suc n]) =
        foldl (\<lambda>ys i. ys[i := ys ! (i - 1)]) ys (rev [Suc p..<n])"
      using True by (simp add: ys_def)
    then show ?thesis using Suc.IH [of ys] Suc.prems True by (auto simp: ys_def nth_list_update)
  qed auto
qed simp

lemma length_insert_loop:
  "length (foldl (\<lambda>ys i. ys[i := ys ! (i - Suc 0)]) xs is) = length xs"
  by (induction "is" arbitrary: xs) simp_all

lemma insert_at_eq:
  assumes "length xs = 16" "p < 16"
  shows "insert_at xs p v = take p xs @ v # drop p (take 15 xs)"
proof (rule nth_equalityI)
  show "length (insert_at xs p v) = length (take p xs @ v # drop p (take 15 xs))"
    using assms by (simp add: insert_at_def length_insert_loop)
  fix k assume "k < length (insert_at xs p v)"
  then have k: "k < 16" using assms by (simp add: insert_at_def length_insert_loop)
  then show "insert_at xs p v ! k = (take p xs @ v # drop p (take 15 xs)) ! k"
    using assms by (auto simp: insert_at_def length_insert_loop insert_loop_nth nth_list_update nth_append nth_Cons')
qed


section \<open>The invariant of a channel\<close>

definition minima_ok :: "int list \<Rightarrow> int list \<Rightarrow> bool" where
  "minima_ok age vals \<longleftrightarrow> length age = 16 \<and> length vals = 16 \<and> sorted vals \<and> (\<forall>x \<in> set vals. x \<le> 10000) \<and>
     (\<forall>a \<in> set age. in_i16 a) \<and> (\<forall>(a, v) \<in> set (zip age vals). a \<le> 100 \<or> v = 10000)"

lemma sorted_remove:
  assumes "sorted xs" "\<forall>x \<in> set xs. x \<le> b"
  shows "sorted (take i xs @ drop (Suc i) xs @ [b])"
proof -
  have "sorted (take i xs @ drop (Suc i) xs)"
    using assms(1) sorted_append [of "take i xs" "drop i xs"] set_drop_subset_set_drop [of i "Suc i" xs]
    by (auto simp: sorted_append sorted_wrt_drop sorted_wrt_take)
  then show ?thesis using assms(2) by (auto simp: sorted_append dest: in_set_takeD in_set_dropD)
qed

lemma set_zip_remove:
  assumes "length xs = length ys"
  shows "set (zip (take i xs @ drop (Suc i) xs @ [a]) (take i ys @ drop (Suc i) ys @ [b])) \<subseteq> set (zip xs ys) \<union> {(a, b)}"
  using assms
  by (auto simp: zip_append take_zip [symmetric] drop_zip [symmetric] dest: in_set_takeD in_set_dropD)

lemma minima_ok_age_step:
  assumes "minima_ok age vals" "i < 16"
  shows "minima_ok (fst (age_step pa pv (age, vals) i)) (snd (age_step pa pv (age, vals) i)) \<and>
    set (snd (age_step pa pv (age, vals) i)) \<subseteq> set vals \<union> {10000}"
proof (cases "age ! i = 100")
  case True
  then have e: "age_step pa pv (age, vals) i =
      (take i age @ drop (Suc i) age @ [101], take i vals @ drop (Suc i) vals @ [10000])"
    using assms by (simp add: age_step_def minima_ok_def shift_down_eq)
  have "set (zip (take i age @ drop (Suc i) age @ [101]) (take i vals @ drop (Suc i) vals @ [10000])) \<subseteq>
      set (zip age vals) \<union> {(101, 10000)}"
    using assms by (intro set_zip_remove) (simp add: minima_ok_def)
  then show ?thesis using assms sorted_remove [of vals 10000 i]
    by (auto simp: e minima_ok_def dest: in_set_takeD in_set_dropD)
next
  case False
  have "set (zip (age[i := i16 (age ! i + 1)]) vals) \<subseteq> insert (i16 (age ! i + 1), vals ! i) (set (zip age vals))"
    using set_update_subset_insert [of "zip age vals" i "(i16 (age ! i + 1), vals ! i)"] assms
    by (simp add: update_zip)
  moreover have "i16 (age ! i + 1) \<le> 100 \<or> vals ! i = 10000"
  proof (cases "vals ! i = 10000")
    case nv: False
    have "(age ! i, vals ! i) \<in> set (zip age vals)" using assms by (auto simp: minima_ok_def set_zip)
    with assms nv have "age ! i \<le> 99" using False by (force simp: minima_ok_def)
    moreover have "in_i16 (age ! i)" using assms by (simp add: minima_ok_def)
    ultimately show ?thesis by simp
  qed simp
  ultimately have "\<forall>(a, v) \<in> set (zip (age[i := i16 (age ! i + 1)]) vals). a \<le> 100 \<or> v = 10000"
    using assms(1) unfolding minima_ok_def by blast
  moreover have "\<forall>a \<in> set (age[i := i16 (age ! i + 1)]). in_i16 a"
    using assms(1) i16_range [of "age ! i + 1"] set_update_subset_insert [of age i "i16 (age ! i + 1)"]
    unfolding minima_ok_def by blast
  ultimately have "minima_ok (age[i := i16 (age ! i + 1)]) vals"
    using assms(1) unfolding minima_ok_def length_list_update by blast
  moreover have "age_step pa pv (age, vals) i = (age[i := i16 (age ! i + 1)], vals)"
    using False by (simp add: age_step_def)
  ultimately show ?thesis by auto
qed

lemma minima_ok_age_loop:
  assumes "minima_ok age vals"
  shows "minima_ok (fst (age_loop pa pv (age, vals))) (snd (age_loop pa pv (age, vals))) \<and>
    set (snd (age_loop pa pv (age, vals))) \<subseteq> set vals \<union> {10000}"
proof -
  have "minima_ok (fst (foldl (age_step pa pv) (age, vals) is)) (snd (foldl (age_step pa pv) (age, vals) is)) \<and>
      set (snd (foldl (age_step pa pv) (age, vals) is)) \<subseteq> set vals \<union> {10000}" if "set is \<subseteq> {..<16}" for "is"
    using that
  proof (induction "is" rule: rev_induct)
    case (snoc i "is")
    obtain a v where av: "foldl (age_step pa pv) (age, vals) is = (a, v)" by fastforce
    then have "minima_ok a v" "set v \<subseteq> set vals \<union> {10000}" "i < 16" using snoc by auto
    then show ?case using minima_ok_age_step [of a v i pa pv] av by auto
  qed (use assms in auto)
  from this [of "[0..<16]"] show ?thesis by (simp add: age_loop_def atLeast0LessThan)
qed

lemma find_position_cut:
  "v < s ! 15 \<Longrightarrow> \<exists>p < 16. find_position v s = int p \<and> v < s ! p \<and> (p = 0 \<or> s ! (p - 1) \<le> v)"
proof -
  assume v: "v < s ! 15"
  define good where "good = (\<lambda>q. \<exists>p < 16. q = int p \<and> v < s ! p \<and> (p = 0 \<or> s ! (p - 1) \<le> v))"
  have leaf: "p < 16 \<Longrightarrow> v < s ! p \<Longrightarrow> p = 0 \<or> s ! (p - 1) \<le> v \<Longrightarrow> good (int p)" for p
    by (auto simp: good_def)
  have branch: "(b \<Longrightarrow> good x) \<Longrightarrow> (\<not> b \<Longrightarrow> good y) \<Longrightarrow> good (if b then x else y)" for b x y by simp
  have "good (find_position v s)"
    unfolding find_position_def
    using v leaf [of 0] leaf [of 1] leaf [of 2] leaf [of 3] leaf [of 4] leaf [of 5] leaf [of 6] leaf [of 7] leaf [of 8]
      leaf [of 9] leaf [of 10] leaf [of 11] leaf [of 12] leaf [of 13] leaf [of 14] leaf [of 15]
    by (intro branch) (simp_all add: not_less)
  then show ?thesis by (simp add: good_def)
qed

lemma find_position_none: "sorted s \<Longrightarrow> length s = 16 \<Longrightarrow> \<not> v < s ! 15 \<Longrightarrow> find_position v s = - 1"
  using sorted_nth_mono [of s 7 15] by (simp add: find_position_def)

text \<open>The decision tree finds the place at which the value keeps the list sorted.\<close>

lemma insert_sorted_eq:
  assumes "sorted s" "p < length s" "v < s ! p" "p = 0 \<or> s ! (p - 1) \<le> v"
  shows "take p s @ v # drop p s = insort v s"
proof -
  have "sorted (take p s @ v # drop p s)"
  proof -
    have "\<forall>x \<in> set (take p s). x \<le> v"
    proof
      fix x assume "x \<in> set (take p s)"
      then obtain j where j: "j < p" "x = s ! j" using assms(2) by (auto simp: in_set_conv_nth)
      then have "s ! j \<le> s ! (p - 1)" using assms by (intro sorted_nth_mono) simp_all
      then show "x \<le> v" using assms(4) j by auto
    qed
    moreover have "\<forall>x \<in> set (drop p s). v \<le> x"
    proof
      fix x assume "x \<in> set (drop p s)"
      then obtain j where j: "j < length s - p" "x = s ! (p + j)" by (auto simp: in_set_conv_nth)
      then have "s ! p \<le> s ! (p + j)" using assms by (intro sorted_nth_mono) simp_all
      then show "v \<le> x" using assms(3) j by simp
    qed
    ultimately show ?thesis using assms(1) by (force simp: sorted_append sorted_wrt_drop sorted_wrt_take)
  qed
  moreover have "mset (take p s @ v # drop p s) = mset (v # s)"
    by (metis append_take_drop_id mset.simps(2) mset_append union_mset_add_mset_right)
  ultimately have "sort (v # s) = take p s @ v # drop p s" by (intro properties_for_sort) simp_all
  then show ?thesis using assms(1) by (simp add: sorted_sort_id)
qed

lemma take_insert:
  assumes "length s = 16" "p < 16"
  shows "take p s @ v # drop p (take 15 s) = take 16 (take p s @ v # drop p s)"
  using assms by (auto simp: take_Cons' drop_take)

lemma minima_ok_insert:
  assumes ok: "minima_ok age vals" and v: "v < vals ! 15"
  shows "minima_ok (insert_at age (nat (find_position v vals)) 1) (insert_at vals (nat (find_position v vals)) v) \<and>
    insert_at vals (nat (find_position v vals)) v = take 16 (insort v vals)"
proof -
  obtain p where p: "p < 16" "find_position v vals = int p" "v < vals ! p" "p = 0 \<or> vals ! (p - 1) \<le> v"
    using find_position_cut [OF v] by blast
  have l: "length age = 16" "length vals = 16" "sorted vals" using ok by (auto simp: minima_ok_def)
  have e: "insert_at vals p v = take 16 (insort v vals)"
    unfolding insert_at_eq [OF l(2) p(1)] take_insert [OF l(2) p(1)] using p l by (simp add: insert_sorted_eq)
  have "vals ! p \<in> set vals" using p(1) l by simp
  then have "vals ! p \<le> 10000" using ok unfolding minima_ok_def by blast
  then have v1: "v \<le> 10000" using p(3) by simp
  have z: "set (zip (insert_at age p 1) (insert_at vals p v)) \<subseteq> insert (1, v) (set (zip age vals))"
  proof -
    have "zip (insert_at age p 1) (insert_at vals p v) =
        take p (zip age vals) @ (1, v) # drop p (take 15 (zip age vals))"
      unfolding insert_at_eq [OF l(1) p(1)] insert_at_eq [OF l(2) p(1)] using l
      by (simp add: zip_append take_zip drop_zip)
    then show ?thesis by (auto dest: in_set_takeD in_set_dropD)
  qed
  have st: "set (insert_at vals p v) \<subseteq> insert v (set vals)" "set (insert_at age p 1) \<subseteq> insert 1 (set age)"
    unfolding insert_at_eq [OF l(1) p(1)] insert_at_eq [OF l(2) p(1)]
    by (auto dest: in_set_takeD in_set_dropD)
  have so: "sorted (insert_at vals p v)" unfolding e using l by (intro sorted_wrt_take sorted_insort [THEN iffD2])
  have le: "length (insert_at age p 1) = 16" "length (insert_at vals p v) = 16"
    using l by (simp_all add: insert_at_def length_insert_loop)
  have "\<forall>x \<in> set (insert_at vals p v). x \<le> 10000" using st(1) v1 ok unfolding minima_ok_def by blast
  moreover have "\<forall>a \<in> set (insert_at age p 1). in_i16 a"
  proof -
    have "in_i16 (1 :: int)" by simp
    then show ?thesis using st(2) ok unfolding minima_ok_def by blast
  qed
  moreover have "\<forall>(a, w) \<in> set (zip (insert_at age p 1) (insert_at vals p v)). a \<le> 100 \<or> w = 10000"
  proof -
    have "(1 :: int) \<le> 100" by simp
    then show ?thesis using z ok unfolding minima_ok_def by blast
  qed
  ultimately have "minima_ok (insert_at age p 1) (insert_at vals p v)"
    using so le unfolding minima_ok_def by blast
  then show ?thesis using e p(2) by simp
qed


section \<open>The whole operation\<close>

definition chan :: "nat \<Rightarrow> int list \<Rightarrow> int list" where
  "chan c xs = take 16 (drop (16 * c) xs)"

definition minima_inv :: "VadInstT \<Rightarrow> bool" where
  "minima_inv self \<longleftrightarrow> length (index_vector self) = 96 \<and> length (low_value_vector self) = 96 \<and>
     length (mean_value self) = 6 \<and> (\<forall>m \<in> set (mean_value self). in_i16 m) \<and>
     (\<forall>x \<in> set (low_value_vector self). in_i16 x) \<and>
     (\<forall>c < 6. minima_ok (chan c (index_vector self)) (chan c (low_value_vector self)))"

lemma chan_memcpy:
  assumes "length xs = 96" "length ys = 16" "c < 6" "d < 6"
  shows "chan d (memcpy xs (16 * c) ys) = (if d = c then ys else chan d xs)"
proof (rule nth_equalityI)
  show "length (chan d (memcpy xs (16 * c) ys)) = length (if d = c then ys else chan d xs)"
    using assms by (simp add: chan_def)
  fix i assume "i < length (chan d (memcpy xs (16 * c) ys))"
  then have i: "i < 16" using assms by (simp add: chan_def)
  have dc: "16 * c \<le> 16 * d + i \<and> 16 * d + i < 16 * c + 16 \<longleftrightarrow> d = c" using i by linarith
  show "chan d (memcpy xs (16 * c) ys) ! i = (if d = c then ys else chan d xs) ! i"
    using assms i dc by (auto simp: chan_def nth_memcpy)
qed

lemma insort_above: "\<forall>x \<in> set s. x \<le> v \<Longrightarrow> sorted s \<Longrightarrow> insort v s = s @ [v]"
  by (induction s) (auto simp: insort_is_Cons)

lemma smooth_median_between:
  assumes "in_i16 mean" "in_i16 med"
  shows "min mean med \<le> smooth_median fc mean med \<and> smooth_median fc mean med \<le> max mean med"
proof -
  define a where "a = (if fc > 0 then (if med < mean then 6553 else 32439) else 0 :: int) + 1"
  have a: "0 \<le> a" "a \<le> 32768" by (auto simp: a_def)
  define L U where "L = min mean med" and "U = max mean med"
  have lu: "L \<le> mean" "L \<le> med" "mean \<le> U" "med \<le> U" "- 32768 \<le> L" "U \<le> 32767" "L \<le> U"
    using assms by (simp_all add: L_def U_def)
  have e: "a * x + (32768 - a) * x = x * 32768" for x by (simp add: algebra_simps)
  have lo: "L * 32768 \<le> a * mean + (32768 - a) * med"
    unfolding e [of L, symmetric] using a lu by (intro add_mono mult_left_mono) simp_all
  have hi: "a * mean + (32768 - a) * med \<le> U * 32768"
    unfolding e [of U, symmetric] using a lu by (intro add_mono mult_left_mono) simp_all
  define w where "w = a * mean + (32768 - a) * med + 16384"
  have w: "in_i32 w" using lo hi lu(5,6) unfolding w_def by linarith
  have "smooth_median fc mean med = i16 (shr (i32 (i32 (i32 (a * mean) + (32768 - a) * med) + 16384)) 15)"
    by (simp add: smooth_median_def Let_def a_def)
  also have "i32 (i32 (i32 (a * mean) + (32768 - a) * med) + 16384) = i32 w"
    by (simp add: w_def i32_add_left add.assoc)
  finally have "smooth_median fc mean med = i16 (shr (i32 w) 15)" .
  moreover have "i32 w = w" using w by (rule i32_id)
  moreover have l: "L \<le> shr w 15" using lo unfolding w_def by (intro shr_lower) simp
  moreover have "shr w 15 < U + 1" using hi unfolding w_def by (intro shr_upper) simp
  then have u: "shr w 15 \<le> U" by simp
  moreover have "i16 (shr w 15) = shr w 15" using l u lu(5,6) by (intro i16_id) linarith
  ultimately show ?thesis by (simp only: L_def [symmetric] U_def [symmetric])
qed


text \<open>The new minima of the channel: \<open>find_min_vals\<close> are the values left after the removal of the
  outdated ones.\<close>

definition find_min_vals :: "VadInstT \<Rightarrow> nat \<Rightarrow> int list" where
  "find_min_vals self c = snd (age_loop
     ((index_vector self @ low_value_vector self) ! (16 * c + 16))
     ((low_value_vector self @ mean_value self) ! (16 * c + 16))
     (chan c (index_vector self), chan c (low_value_vector self)))"

lemma FindMinimum_state:
  assumes inv: "minima_inv self" and c: "c < 6"
  shows "\<exists>age vals. minima_ok age vals \<and> vals = take 16 (insort v (find_min_vals self c)) \<and>
    set (find_min_vals self c) \<subseteq> set (chan c (low_value_vector self)) \<union> {10000} \<and> sorted (find_min_vals self c) \<and>
    WebRtcVad_FindMinimum self v c =
      (let m = smooth_median (frame_counter self) (mean_value self ! c)
          (if frame_counter self > 2 then vals ! 2 else if frame_counter self > 0 then vals ! 0 else 1600)
       in (m, self\<lparr>index_vector := memcpy (index_vector self) (16 * c) age,
            low_value_vector := memcpy (low_value_vector self) (16 * c) vals,
            mean_value := (mean_value self)[c := m]\<rparr>))"
proof -
  define pa pv where "pa = (index_vector self @ low_value_vector self) ! (16 * c + 16)"
    and "pv = (low_value_vector self @ mean_value self) ! (16 * c + 16)"
  obtain age vals where al: "age_loop pa pv (chan c (index_vector self), chan c (low_value_vector self)) = (age, vals)"
    by fastforce
  have "minima_ok (chan c (index_vector self)) (chan c (low_value_vector self))"
    using inv c unfolding minima_inv_def by blast
  from minima_ok_age_loop [OF this, of pa pv]
  have ok: "minima_ok age vals" "set vals \<subseteq> set (chan c (low_value_vector self)) \<union> {10000}"
    by (simp_all add: al)
  then have l: "length vals = 16" "sorted vals" by (auto simp: minima_ok_def)
  have fv: "find_min_vals self c = vals" by (simp add: find_min_vals_def pa_def [symmetric] pv_def [symmetric] al)
  define p where "p = find_position v vals"
  define r where "r = (if p > - 1 then (insert_at age (nat p) 1, insert_at vals (nat p) v) else (age, vals))"
  have r: "minima_ok (fst r) (snd r) \<and> snd r = take 16 (insort v vals)"
  proof (cases "v < vals ! 15")
    case True
    then have "p > - 1" using find_position_cut [of v vals] by (auto simp: p_def)
    then have rr: "fst r = insert_at age (nat p) 1" "snd r = insert_at vals (nat p) v" by (simp_all add: r_def)
    show ?thesis unfolding rr p_def by (rule minima_ok_insert [OF ok(1) True])
  next
    case False
    have "x \<le> v" if "x \<in> set vals" for x
    proof -
      from that obtain j where "j < 16" "x = vals ! j" using l by (auto simp: in_set_conv_nth)
      then have "x \<le> vals ! 15" using l sorted_nth_mono [of vals j 15] by simp
      then show ?thesis using False by simp
    qed
    then have "insort v vals = vals @ [v]" using l by (intro insort_above) auto
    moreover have "p = - 1" using find_position_none [OF l(2,1) False] by (simp add: p_def)
    ultimately show ?thesis using ok(1) l by (simp add: r_def)
  qed
  have "WebRtcVad_FindMinimum self v c =
      (let m = smooth_median (frame_counter self) (mean_value self ! c)
          (if frame_counter self > 2 then snd r ! 2 else if frame_counter self > 0 then snd r ! 0 else 1600)
       in (m, self\<lparr>index_vector := memcpy (index_vector self) (16 * c) (fst r),
            low_value_vector := memcpy (low_value_vector self) (16 * c) (snd r),
            mean_value := (mean_value self)[c := m]\<rparr>))"
    unfolding WebRtcVad_FindMinimum_def Let_def chan_def [symmetric] pa_def [symmetric] pv_def [symmetric] al
      case_prod_unfold fst_conv snd_conv
    unfolding p_def [symmetric] r_def [symmetric] by (rule refl)
  then show ?thesis using r ok(2) l(2) unfolding fv by blast
qed


lemma minima_inv_FindMinimum:
  assumes inv: "minima_inv self" and c: "c < 6" and v: "in_i16 v"
  shows "minima_inv (snd (WebRtcVad_FindMinimum self v c)) \<and> in_i16 (fst (WebRtcVad_FindMinimum self v c))"
proof -
  obtain age vals m where av: "minima_ok age vals" "vals = take 16 (insort v (find_min_vals self c))"
    "set (find_min_vals self c) \<subseteq> set (chan c (low_value_vector self)) \<union> {10000}"
    and m: "m = smooth_median (frame_counter self) (mean_value self ! c)
      (if frame_counter self > 2 then vals ! 2 else if frame_counter self > 0 then vals ! 0 else 1600)"
    and f: "WebRtcVad_FindMinimum self v c = (m, self\<lparr>index_vector := memcpy (index_vector self) (16 * c) age,
      low_value_vector := memcpy (low_value_vector self) (16 * c) vals, mean_value := (mean_value self)[c := m]\<rparr>)"
    using FindMinimum_state [OF inv c, of v] unfolding Let_def by blast
  note iv = inv [unfolded minima_inv_def]
  have l: "length age = 16" "length vals = 16" using av(1) by (auto simp: minima_ok_def)
  have "set (chan c (low_value_vector self)) \<subseteq> set (low_value_vector self)"
    unfolding chan_def by (meson set_take_subset set_drop_subset order_trans)
  moreover have "set vals \<subseteq> insert v (set (find_min_vals self c))"
    unfolding av(2) using set_take_subset [of 16] by (metis set_insort_key)
  moreover have "in_i16 (10000 :: int)" by simp
  ultimately have vr: "\<forall>x \<in> set vals. in_i16 x" using av(3) v iv by blast
  have mr: "in_i16 m"
  proof -
    have "in_i16 (mean_value self ! c)" using iv c by (metis nth_mem)
    moreover have "in_i16 (if frame_counter self > 2 then vals ! 2 else if frame_counter self > 0 then vals ! 0 else 1600)"
      using vr l by (simp add: nth_mem)
    ultimately show ?thesis using smooth_median_between unfolding m by (smt (verit) max_def min_def)
  qed
  have "set (memcpy (low_value_vector self) (16 * c) vals) \<subseteq> set (low_value_vector self) \<union> set vals"
    unfolding memcpy_def by (auto dest: in_set_takeD in_set_dropD)
  then have 1: "\<forall>x \<in> set (memcpy (low_value_vector self) (16 * c) vals). in_i16 x" using vr iv by blast
  have 2: "\<forall>x \<in> set ((mean_value self)[c := m]). in_i16 x"
    using mr iv set_update_subset_insert [of "mean_value self" c m] by blast
  have 3: "\<forall>d < 6. minima_ok (chan d (memcpy (index_vector self) (16 * c) age)) (chan d (memcpy (low_value_vector self) (16 * c) vals))"
    using iv l c av(1) by (simp add: chan_memcpy)
  show ?thesis unfolding f minima_inv_def using 1 2 3 mr iv l c by simp
qed



lemma minima_inv_blank: "minima_inv vad_blank"
proof -
  have "chan c (replicate 96 x) = replicate 16 x" if "c < 6" for c and x :: int
    using that by (simp add: chan_def)
  then show ?thesis by (simp add: minima_inv_def vad_blank_def minima_ok_def)
qed


end
