(* ===== verification/Vad_Core.thy ===== *)
theory Vad_Core
  imports Vad_Sp Spl_Math
begin

text \<open>
  The voice activity detector, third part: the Gaussian model of \<^verbatim>\<open>vad_gmm.c\<close>, the decision
  and model update of \<^verbatim>\<open>vad_core.c\<close>, and the public interface of \<^verbatim>\<open>webrtc_vad.c\<close>.
  The structure's arrays of twelve hold channel \<open>c\<close> of Gaussian \<open>k\<close> at index \<open>c + 6 * k\<close>.
\<close>

section \<open>Gaussian probability\<close>

text \<open>\<^verbatim>\<open>WebRtcVad_GaussianProbability\<close>: the probability and \<^verbatim>\<open>delta\<close>. The shift count in
  \<^verbatim>\<open>exp_value >>= tmp16\<close> is negative only when \<^verbatim>\<open>delta\<close> has overflowed, which C
  leaves undefined; the model then does not shift.\<close>

definition WebRtcVad_GaussianProbability :: "int \<Rightarrow> int \<Rightarrow> int \<Rightarrow> int \<times> int" where
  "WebRtcVad_GaussianProbability inp mean std =
     (let inv_std = i16 (WebRtcSpl_DivW32W16 (131072 + shr std 1) std);
          t1 = shr inv_std 2;
          inv_std2 = i16 (mul_rsft t1 t1 2);
          t2 = i16 (i16 (inp * 8) - mean);
          delta = i16 (mul_rsft inv_std2 t2 10);
          tmp32 = mul_rsft delta t2 9;
          exp_value = (if tmp32 < 22005
            then let t3 = i16 (- i16 (mul_rsft 5909 (i16 tmp32) 12));
                     e = 1024 OR (t3 AND 1023);
                     t4 = shr (i16 (t3 XOR 65535)) 10 + 1
                 in shr e (nat t4)
            else 0)
      in (inv_std * exp_value, delta))"

section \<open>Tables\<close>

definition kSpectrumWeight :: "int list" where "kSpectrumWeight = [6, 8, 10, 12, 14, 16]"
definition kMinimumDifference :: "int list" where "kMinimumDifference = [544, 544, 576, 576, 576, 576]"
definition kMaximumSpeech :: "int list" where "kMaximumSpeech = [11392, 11392, 11520, 11520, 11520, 11520]"
definition kMinimumMean :: "int list" where "kMinimumMean = [640, 768]"
definition kMaximumNoise :: "int list" where "kMaximumNoise = [9216, 9088, 8960, 8832, 8704, 8576]"

definition kNoiseDataWeights :: "int list" where
  "kNoiseDataWeights = [34, 62, 72, 66, 53, 25, 94, 66, 56, 62, 75, 103]"
definition kSpeechDataWeights :: "int list" where
  "kSpeechDataWeights = [48, 82, 45, 87, 50, 47, 80, 46, 83, 41, 78, 81]"
definition kNoiseDataMeans :: "int list" where
  "kNoiseDataMeans = [6738, 4892, 7065, 6715, 6771, 3369, 7646, 3863, 7820, 7266, 5020, 4362]"
definition kSpeechDataMeans :: "int list" where
  "kSpeechDataMeans = [8306, 10085, 10078, 11823, 11843, 6309, 9473, 9571, 10879, 7581, 8180, 7483]"
definition kNoiseDataStds :: "int list" where
  "kNoiseDataStds = [378, 1064, 493, 582, 688, 593, 474, 697, 475, 688, 421, 455]"
definition kSpeechDataStds :: "int list" where
  "kSpeechDataStds = [555, 505, 567, 524, 585, 1231, 509, 828, 492, 1540, 1079, 850]"

section \<open>Decision and model update\<close>

text \<open>\<^verbatim>\<open>WeightedAverage\<close> on the two entries of a channel: the average and the updated data.\<close>

definition WeightedAverage :: "int list \<Rightarrow> nat \<Rightarrow> int \<Rightarrow> int list \<Rightarrow> int \<times> int list" where
  "WeightedAverage data channel offset weights =
     (let d1 = data[channel := i16 (data ! channel + offset)];
          w1 = i32 (d1 ! channel * weights ! channel);
          d2 = d1[channel + 6 := i16 (d1 ! (channel + 6) + offset)]
      in (i32 (w1 + d2 ! (channel + 6) * weights ! (channel + 6)), d2))"

text \<open>The likelihood test of one channel: the log likelihood ratio, and for the two Gaussians the
  conditional probabilities and the deltas of noise and speech.\<close>

record chan_lik =
  llr :: int
  ngpr :: "int list"
  sgpr :: "int list"
  deltaN :: "int list"
  deltaS :: "int list"

definition cond_probs :: "int \<Rightarrow> int \<Rightarrow> int list \<Rightarrow> int list" where
  "cond_probs h_test prob0 dflt =
     (let h = i16 (shr h_test 12)
      in if h > 0
         then let p = i16 (WebRtcSpl_DivW32W16 (i32 ((u32 prob0 AND 0xFFFFF000) * 4)) h) in [p, i16 (16384 - p)]
         else dflt)"

definition channel_likelihood :: "VadInstT \<Rightarrow> int list \<Rightarrow> nat \<Rightarrow> chan_lik" where
  "channel_likelihood self features channel =
     (let f = features ! channel;
          (pn0, dn0) = WebRtcVad_GaussianProbability f (noise_means self ! channel) (noise_stds self ! channel);
          (ps0, ds0) = WebRtcVad_GaussianProbability f (speech_means self ! channel) (speech_stds self ! channel);
          (pn1, dn1) = WebRtcVad_GaussianProbability f (noise_means self ! (channel + 6)) (noise_stds self ! (channel + 6));
          (ps1, ds1) = WebRtcVad_GaussianProbability f (speech_means self ! (channel + 6)) (speech_stds self ! (channel + 6));
          np0 = i32 (kNoiseDataWeights ! channel * pn0);
          np1 = i32 (kNoiseDataWeights ! (channel + 6) * pn1);
          sp0 = i32 (kSpeechDataWeights ! channel * ps0);
          sp1 = i32 (kSpeechDataWeights ! (channel + 6) * ps1);
          h0_test = i32 (np0 + np1);
          h1_test = i32 (sp0 + sp1);
          shifts_h0 = (if h0_test = 0 then 31 else WebRtcSpl_NormW32 h0_test);
          shifts_h1 = (if h1_test = 0 then 31 else WebRtcSpl_NormW32 h1_test)
      in \<lparr>llr = i16 (shifts_h0 - shifts_h1),
          ngpr = cond_probs h0_test np0 [16384, 0],
          sgpr = cond_probs h1_test sp0 [0, 0],
          deltaN = [dn0, dn1], deltaS = [ds0, ds1]\<rparr>)"

text \<open>The decision: a local test in every channel and a global test on the weighted sum.\<close>

definition vad_decision :: "chan_lik list \<Rightarrow> int \<Rightarrow> int \<Rightarrow> bool" where
  "vad_decision liks individualTest totalTest =
     ((\<exists>l \<in> set liks. llr l * 4 > individualTest) \<or>
      foldl (\<lambda>s (l, w). i32 (s + llr l * w)) 0 (zip liks kSpectrumWeight) \<ge> totalTest)"

text \<open>Rounded division by a 16-bit number that keeps the sign of the numerator.\<close>

definition signed_div :: "int \<Rightarrow> int \<Rightarrow> int" where
  "signed_div num den =
     (if num > 0 then i16 (WebRtcSpl_DivW32W16 num den)
      else i16 (- i16 (WebRtcSpl_DivW32W16 (i32 (- num)) den)))"

definition noise_mean_update :: "bool \<Rightarrow> int \<Rightarrow> int \<Rightarrow> int \<Rightarrow> int \<Rightarrow> int \<Rightarrow> nat \<Rightarrow> nat \<Rightarrow> int" where
  "noise_mean_update vadflag nmk ng dn feature_minimum tmp1_s16 k channel =
     (let nmk2 = (if \<not> vadflag then let delt = i16 (mul_rsft ng dn 11) in i16 (nmk + i16 (mul_rsft delt 655 22))
                  else nmk);
          ndelt = i16 (feature_minimum * 16 - tmp1_s16);
          nmk3 = i16 (nmk2 + i16 (mul_rsft ndelt 154 9));
          lo = i16 ((int k + 5) * 128);
          nmk4 = (if nmk3 < lo then lo else nmk3);
          hi = i16 ((72 + int k - int channel) * 128)
      in if nmk4 > hi then hi else nmk4)"

definition speech_mean_update :: "int \<Rightarrow> int \<Rightarrow> int \<Rightarrow> int \<Rightarrow> nat \<Rightarrow> int" where
  "speech_mean_update smk sg ds maxspe k =
     (let delt = i16 (mul_rsft sg ds 11);
          tmp_s16 = i16 (mul_rsft delt 6554 21);
          smk2 = i16 (smk + shr (tmp_s16 + 1) 1);
          maxmu = i16 (maxspe + 640);
          smk3 = (if smk2 < kMinimumMean ! k then kMinimumMean ! k else smk2)
      in if smk3 > maxmu then maxmu else smk3)"

definition speech_std_update :: "int \<Rightarrow> int \<Rightarrow> int \<Rightarrow> int \<Rightarrow> int \<Rightarrow> int" where
  "speech_std_update feature smk ssk sg ds =
     (let tmp_s16 = i16 (feature - i16 (shr (smk + 4) 3));
          tmp2 = i32 (mul_rsft ds tmp_s16 3 - 4096);
          tmp1 = i32 (shr sg 2 * tmp2);
          q = signed_div (shr tmp1 4) (i16 (ssk * 10));
          ssk1 = i16 (ssk + shr (i16 (q + 128)) 8)
      in if ssk1 < 384 then 384 else ssk1)"

definition noise_std_update :: "int \<Rightarrow> int \<Rightarrow> int \<Rightarrow> int \<Rightarrow> int \<Rightarrow> int" where
  "noise_std_update feature nmk nsk ng dn =
     (let tmp_s16 = i16 (feature - shr nmk 3);
          tmp1 = i32 (mul_rsft dn tmp_s16 3 - 4096);
          tmp2 = i32 (i16 (shr (ng + 2) 2) * tmp1);
          q = signed_div (shr tmp2 14) nsk;
          nsk1 = i16 (nsk + shr (i16 (q + 32)) 6)
      in if nsk1 < 384 then 384 else nsk1)"

text \<open>The body of the loop over the two Gaussians of a channel.\<close>

definition update_gaussian ::
  "bool \<Rightarrow> int \<Rightarrow> chan_lik \<Rightarrow> int \<Rightarrow> int \<Rightarrow> int \<Rightarrow> nat \<Rightarrow> VadInstT \<Rightarrow> nat \<Rightarrow> VadInstT" where
  "update_gaussian vadflag feature lik feature_minimum tmp1_s16 maxspe channel self k =
     (let g = channel + 6 * k;
          nmk = noise_means self ! g; smk = speech_means self ! g;
          nsk = noise_stds self ! g; ssk = speech_stds self ! g;
          self1 = self\<lparr>noise_means := (noise_means self)[g :=
            noise_mean_update vadflag nmk (ngpr lik ! k) (deltaN lik ! k) feature_minimum tmp1_s16 k channel]\<rparr>
      in if vadflag
         then self1\<lparr>speech_means := (speech_means self)[g :=
                      speech_mean_update smk (sgpr lik ! k) (deltaS lik ! k) maxspe k],
                    speech_stds := (speech_stds self)[g :=
                      speech_std_update feature smk ssk (sgpr lik ! k) (deltaS lik ! k)]\<rparr>
         else self1\<lparr>noise_stds := (noise_stds self)[g :=
                      noise_std_update feature nmk nsk (ngpr lik ! k) (deltaN lik ! k)]\<rparr>)"

text \<open>Separation of the two models of a channel when they are too close (the weighted means and the
  arrays of speech and noise), and the control of their drift.\<close>

definition push_apart :: "nat \<Rightarrow> int list \<Rightarrow> int list \<Rightarrow> (int \<times> int list) \<times> (int \<times> int list)" where
  "push_apart channel nmeans smeans =
     (let (ngm, nm1) = WeightedAverage nmeans channel 0 kNoiseDataWeights;
          (sgm, sm1) = WeightedAverage smeans channel 0 kSpeechDataWeights;
          diff = i16 (i16 (shr sgm 9) - i16 (shr ngm 9))
      in if diff < kMinimumDifference ! channel
         then let tmp_s16 = i16 (kMinimumDifference ! channel - diff);
                  tmp1 = i16 (mul_rsft 13 tmp_s16 2);
                  tmp2 = i16 (mul_rsft 3 tmp_s16 2)
              in (WeightedAverage sm1 channel tmp1 kSpeechDataWeights,
                  WeightedAverage nm1 channel (i16 (- tmp2)) kNoiseDataWeights)
         else ((sgm, sm1), (ngm, nm1)))"

definition limit_drift :: "nat \<Rightarrow> int \<Rightarrow> int \<Rightarrow> int list \<Rightarrow> int list" where
  "limit_drift channel lim avg means =
     (let a = i16 (shr avg 7)
      in if a > lim
         then let d = i16 (a - lim); m = means[channel := i16 (means ! channel - d)]
              in m[channel + 6 := i16 (m ! (channel + 6) - d)]
         else means)"

definition separate_models :: "nat \<Rightarrow> int list \<Rightarrow> int list \<Rightarrow> int list \<times> int list" where
  "separate_models channel nmeans smeans =
     (let ((sgm, sm), (ngm, nm)) = push_apart channel nmeans smeans
      in (limit_drift channel (kMaximumNoise ! channel) ngm nm,
          limit_drift channel (kMaximumSpeech ! channel) sgm sm))"

text \<open>The update of one channel. \<^verbatim>\<open>maxspe\<close> is 12800 for the first channel and afterwards the
  limit of the previous channel.\<close>

definition update_channel :: "bool \<Rightarrow> int list \<Rightarrow> chan_lik list \<Rightarrow> VadInstT \<Rightarrow> nat \<Rightarrow> VadInstT" where
  "update_channel vadflag features liks self channel =
     (let maxspe = (if channel = 0 then 12800 else kMaximumSpeech ! (channel - 1));
          (feature_minimum, self1) = WebRtcVad_FindMinimum self (features ! channel) channel;
          (noise_global_mean, nm) = WeightedAverage (noise_means self1) channel 0 kNoiseDataWeights;
          tmp1_s16 = i16 (shr noise_global_mean 6);
          self2 = foldl (update_gaussian vadflag (features ! channel) (liks ! channel) feature_minimum tmp1_s16 maxspe channel)
            (self1\<lparr>noise_means := nm\<rparr>) [0, 1];
          (nm', sm') = separate_models channel (noise_means self2) (speech_means self2)
      in self2\<lparr>noise_means := nm', speech_means := sm'\<rparr>)"

text \<open>Smoothing with respect to transition hysteresis.\<close>

definition hangover :: "VadInstT \<Rightarrow> bool \<Rightarrow> int \<Rightarrow> int \<Rightarrow> int \<times> VadInstT" where
  "hangover self vadflag overhead1 overhead2 =
     (if \<not> vadflag
      then let (flag, oh) = (if over_hang self > 0 then (i16 (2 + over_hang self), i16 (over_hang self - 1))
                             else (0, over_hang self))
           in (flag, self\<lparr>over_hang := oh, num_of_speech := 0\<rparr>)
      else let n = i16 (num_of_speech self + 1)
           in if n > 6 then (1, self\<lparr>num_of_speech := 6, over_hang := overhead2\<rparr>)
              else (1, self\<lparr>num_of_speech := n, over_hang := overhead1\<rparr>))"

definition frame_index :: "nat \<Rightarrow> nat" where
  "frame_index frame_length = (if frame_length = 80 then 0 else if frame_length = 160 then 1 else 2)"

definition GmmProbability :: "VadInstT \<Rightarrow> int list \<Rightarrow> int \<Rightarrow> nat \<Rightarrow> int \<times> VadInstT" where
  "GmmProbability self features total_power frame_length =
     (let i = frame_index frame_length;
          overhead1 = over_hang_max_1 self ! i;
          overhead2 = over_hang_max_2 self ! i;
          individualTest = individual self ! i;
          totalTest = total self ! i
      in if total_power > 10
         then let liks = map (channel_likelihood self features) [0..<6];
                  vadflag = vad_decision liks individualTest totalTest;
                  self1 = foldl (update_channel vadflag features liks) self [0..<6];
                  self2 = self1\<lparr>frame_counter := i32 (frame_counter self1 + 1)\<rparr>
              in hangover self2 vadflag overhead1 overhead2
         else hangover self False overhead1 overhead2)"


section \<open>Initialisation and modes\<close>

text \<open>The four aggressiveness modes: hangover lengths and thresholds for 10, 20 and 30 ms.\<close>

definition mode_tables :: "(int list \<times> int list \<times> int list \<times> int list) list" where
  "mode_tables =
     [([8, 4, 3], [14, 7, 5], [24, 21, 24], [57, 48, 57]),
      ([8, 4, 3], [14, 7, 5], [37, 32, 37], [100, 80, 100]),
      ([6, 3, 2], [9, 5, 3], [82, 78, 82], [285, 260, 285]),
      ([6, 3, 2], [9, 5, 3], [94, 94, 94], [1100, 1050, 1100])]"

definition WebRtcVad_set_mode_core :: "VadInstT \<Rightarrow> int \<Rightarrow> int \<times> VadInstT" where
  "WebRtcVad_set_mode_core self mode =
     (if 0 \<le> mode \<and> mode \<le> 3
      then case mode_tables ! nat mode of (oh1, oh2, ind, tot) \<Rightarrow>
        (0, self\<lparr>over_hang_max_1 := oh1, over_hang_max_2 := oh2, individual := ind, total := tot\<rparr>)
      else (- 1, self))"

definition WebRtcVad_InitCore :: "VadInstT option \<Rightarrow> int \<times> VadInstT option" where
  "WebRtcVad_InitCore handle = (case handle of None \<Rightarrow> (- 1, None) | Some self \<Rightarrow>
     (let self1 = self\<lparr>vad := 1, frame_counter := 0, over_hang := 0, num_of_speech := 0,
            downsampling_filter_states := [0, 0, 0, 0], state_48_to_8 := WebRtcSpl_ResetResample48khzTo8khz,
            noise_means := kNoiseDataMeans, speech_means := kSpeechDataMeans,
            noise_stds := kNoiseDataStds, speech_stds := kSpeechDataStds,
            low_value_vector := replicate 96 10000, index_vector := replicate 96 0,
            upper_state := [0, 0, 0, 0, 0], lower_state := [0, 0, 0, 0, 0],
            hp_filter_state := (0, 0, 0, 0), mean_value := replicate 6 1600\<rparr>;
          (r, self2) = WebRtcVad_set_mode_core self1 0
      in if r \<noteq> 0 then (- 1, Some self2) else (0, Some (self2\<lparr>init_flag := 42\<rparr>))))"

section \<open>Frames at the four sampling rates\<close>

definition WebRtcVad_CalcVad8khz :: "VadInstT \<Rightarrow> int list \<Rightarrow> nat \<Rightarrow> int \<times> VadInstT" where
  "WebRtcVad_CalcVad8khz inst speech_frame frame_length =
     (let (total_power, feature_vector, inst1) =
            WebRtcVad_CalculateFeatures inst (take frame_length speech_frame);
          (v, inst2) = GmmProbability inst1 feature_vector total_power frame_length
      in (v, inst2\<lparr>vad := v\<rparr>))"

definition WebRtcVad_CalcVad16khz :: "VadInstT \<Rightarrow> int list \<Rightarrow> nat \<Rightarrow> int \<times> VadInstT" where
  "WebRtcVad_CalcVad16khz inst speech_frame frame_length =
     (let s = downsampling_filter_states inst;
          ((s0, s1), speechNB) = WebRtcVad_Downsampling (s ! 0, s ! 1) (take frame_length speech_frame)
      in WebRtcVad_CalcVad8khz (inst\<lparr>downsampling_filter_states := s[0 := s0, 1 := s1]\<rparr>) speechNB (frame_length div 2))"

definition WebRtcVad_CalcVad32khz :: "VadInstT \<Rightarrow> int list \<Rightarrow> nat \<Rightarrow> int \<times> VadInstT" where
  "WebRtcVad_CalcVad32khz inst speech_frame frame_length =
     (let s = downsampling_filter_states inst;
          ((s2, s3), speechWB) = WebRtcVad_Downsampling (s ! 2, s ! 3) (take frame_length speech_frame);
          len = frame_length div 2;
          ((s0, s1), speechNB) = WebRtcVad_Downsampling (s ! 0, s ! 1) (take len speechWB)
      in WebRtcVad_CalcVad8khz (inst\<lparr>downsampling_filter_states := s[2 := s2, 3 := s3, 0 := s0, 1 := s1]\<rparr>)
           speechNB (len div 2))"

text \<open>One pass of the loop of \<^verbatim>\<open>WebRtcVad_CalcVad48khz\<close>: it reads \<^verbatim>\<open>speech_frame\<close> from the
  start every time and appends 80 samples to \<^verbatim>\<open>speech_nb\<close>.\<close>

definition resample_pass :: "int list \<Rightarrow> State48khzTo8khz \<times> int list \<times> int list \<Rightarrow> State48khzTo8khz \<times> int list \<times> int list" where
  "resample_pass speech_frame acc = (case acc of (st, speech_nb, tmp_mem) \<Rightarrow>
     (let (out, st', mem') = WebRtcSpl_Resample48khzTo8khz speech_frame st tmp_mem in (st', speech_nb @ out, mem')))"

definition WebRtcVad_CalcVad48khz :: "VadInstT \<Rightarrow> int list \<Rightarrow> nat \<Rightarrow> int \<times> VadInstT" where
  "WebRtcVad_CalcVad48khz inst speech_frame frame_length =
     (let num_10ms_frames = frame_length div 480;
          (st, speech_nb, _) = (resample_pass speech_frame ^^ num_10ms_frames) (state_48_to_8 inst, [], replicate 736 0)
      in WebRtcVad_CalcVad8khz (inst\<lparr>state_48_to_8 := st\<rparr>) speech_nb (frame_length div 6))"

section \<open>The public interface\<close>

text \<open>\<^verbatim>\<open>WebRtcVad_Create\<close>: \<open>mem\<close> is the fresh, uninitialised structure, or nothing when the
  allocation fails; \<open>handle_ok\<close> says that the handle argument is not NULL.\<close>

definition WebRtcVad_Create :: "bool \<Rightarrow> VadInstT option \<Rightarrow> int \<times> VadInstT option" where
  "WebRtcVad_Create handle_ok mem =
     (if \<not> handle_ok then (- 1, None)
      else case mem of None \<Rightarrow> (- 1, None) | Some self \<Rightarrow> (0, Some (self\<lparr>init_flag := 0\<rparr>)))"

definition WebRtcVad_Init :: "VadInstT option \<Rightarrow> int \<times> VadInstT option" where
  "WebRtcVad_Init handle = WebRtcVad_InitCore handle"

definition WebRtcVad_set_mode :: "VadInstT option \<Rightarrow> int \<Rightarrow> int \<times> VadInstT option" where
  "WebRtcVad_set_mode handle mode = (case handle of None \<Rightarrow> (- 1, None) | Some self \<Rightarrow>
     if init_flag self \<noteq> 42 then (- 1, Some self)
     else let (r, self') = WebRtcVad_set_mode_core self mode in (r, Some self'))"

definition kValidRates :: "int list" where
  "kValidRates = [8000, 16000, 32000, 48000]"

definition WebRtcVad_ValidRateAndFrameLength :: "int \<Rightarrow> int \<Rightarrow> int" where
  "WebRtcVad_ValidRateAndFrameLength rate frame_length =
     (case List.find (\<lambda>r. r = rate) kValidRates of None \<Rightarrow> - 1
      | Some r \<Rightarrow> if List.member (map (\<lambda>ms. r div 1000 * ms) [10, 20, 30]) frame_length then 0 else - 1)"

definition WebRtcVad_Process :: "VadInstT option \<Rightarrow> int \<Rightarrow> int list option \<Rightarrow> int \<Rightarrow> int \<times> VadInstT option" where
  "WebRtcVad_Process handle fs audio_frame frame_length = (case handle of None \<Rightarrow> (- 1, None) | Some self \<Rightarrow>
     if init_flag self \<noteq> 42 then (- 1, Some self)
     else case audio_frame of None \<Rightarrow> (- 1, Some self) | Some frame \<Rightarrow>
     if WebRtcVad_ValidRateAndFrameLength fs frame_length \<noteq> 0 then (- 1, Some self)
     else let n = nat frame_length;
              (v, self') =
                (if fs = 48000 then WebRtcVad_CalcVad48khz self frame n
                 else if fs = 32000 then WebRtcVad_CalcVad32khz self frame n
                 else if fs = 16000 then WebRtcVad_CalcVad16khz self frame n
                 else if fs = 8000 then WebRtcVad_CalcVad8khz self frame n
                 else (- 1, self))
          in (if v > 0 then 1 else v, Some self'))"


section \<open>The invariant of an instance\<close>

definition arr :: "nat \<Rightarrow> (int \<Rightarrow> bool) \<Rightarrow> int list \<Rightarrow> bool" where
  "arr n P xs \<longleftrightarrow> length xs = n \<and> (\<forall>x \<in> set xs. P x)"

lemma arr_update: "arr n P xs \<Longrightarrow> P v \<Longrightarrow> arr n P (xs[i := v])"
  using set_update_subset_insert [of xs i v] unfolding arr_def by (simp, blast)

definition std_ok :: "int \<Rightarrow> bool" where
  "std_ok x \<longleftrightarrow> 378 \<le> x \<and> x \<le> 32767"

definition gmm_inv :: "VadInstT \<Rightarrow> bool" where
  "gmm_inv self \<longleftrightarrow> arr 12 in_i16 (noise_means self) \<and> arr 12 in_i16 (speech_means self) \<and>
     arr 12 std_ok (noise_stds self) \<and> arr 12 std_ok (speech_stds self)"

definition vad_inv :: "VadInstT \<Rightarrow> bool" where
  "vad_inv self \<longleftrightarrow> gmm_inv self \<and> minima_inv self \<and>
     0 \<le> over_hang self \<and> over_hang self \<le> 14 \<and> 0 \<le> num_of_speech self \<and> num_of_speech self \<le> 6 \<and>
     (over_hang_max_1 self, over_hang_max_2 self, individual self, total self) \<in> set mode_tables \<and>
     length (upper_state self) = 5 \<and> length (lower_state self) = 5 \<and> length (downsampling_filter_states self) = 4 \<and>
     length (S_24_16 (state_48_to_8 self)) = 8 \<and> init_flag self = 42"

lemma std_update_ok: "std_ok (if i16 x < 384 then 384 else i16 x)"
  using i16_range [of x] by (simp add: std_ok_def)

lemma noise_std_update_ok: "std_ok (noise_std_update f m s g d)"
  unfolding noise_std_update_def Let_def by (rule std_update_ok)

lemma speech_std_update_ok: "std_ok (speech_std_update f m s g d)"
  unfolding speech_std_update_def Let_def by (rule std_update_ok)

lemma if_i16: "in_i16 a \<Longrightarrow> in_i16 b \<Longrightarrow> in_i16 (if c then a else b)"
  by simp

lemma noise_mean_update_i16: "in_i16 (noise_mean_update v m g d f t k c)"
  unfolding noise_mean_update_def Let_def by (intro if_i16 i16_range)

lemma speech_mean_update_i16: "k < 2 \<Longrightarrow> in_i16 (speech_mean_update m g d x k)"
proof -
  assume "k < 2"
  then have "in_i16 (kMinimumMean ! k)" by (auto simp: kMinimumMean_def less_2_cases_iff)
  then show ?thesis unfolding speech_mean_update_def Let_def by (intro if_i16 i16_range)
qed

lemma WeightedAverage_arr: "arr n in_i16 data \<Longrightarrow> arr n in_i16 (snd (WeightedAverage data c off w))"
  unfolding WeightedAverage_def Let_def snd_conv by (intro arr_update i16_range)

lemma push_apart_arr:
  assumes "arr n in_i16 nm" "arr n in_i16 sm"
  shows "arr n in_i16 (snd (fst (push_apart c nm sm))) \<and> arr n in_i16 (snd (snd (push_apart c nm sm)))"
proof -
  obtain ngm nm1 where 1: "WeightedAverage nm c 0 kNoiseDataWeights = (ngm, nm1)" by fastforce
  obtain sgm sm1 where 2: "WeightedAverage sm c 0 kSpeechDataWeights = (sgm, sm1)" by fastforce
  have "arr n in_i16 nm1" "arr n in_i16 sm1"
    using WeightedAverage_arr [OF assms(1), of c 0 kNoiseDataWeights]
      WeightedAverage_arr [OF assms(2), of c 0 kSpeechDataWeights] by (simp_all add: 1 2)
  then show ?thesis unfolding push_apart_def 1 2 prod.case Let_def by (simp add: WeightedAverage_arr)
qed

lemma limit_drift_arr: "arr n in_i16 xs \<Longrightarrow> arr n in_i16 (limit_drift c l a xs)"
  unfolding limit_drift_def Let_def by (simp only: arr_update i16_range split: if_split) simp

lemma separate_models_arr:
  assumes "arr n in_i16 nm" "arr n in_i16 sm"
  shows "arr n in_i16 (fst (separate_models c nm sm)) \<and> arr n in_i16 (snd (separate_models c nm sm))"
  using push_apart_arr [OF assms, of c] unfolding separate_models_def case_prod_unfold Let_def fst_conv snd_conv
  by (simp add: limit_drift_arr)

lemma update_gaussian_inv:
  assumes "gmm_inv self" "k < 2"
  shows "gmm_inv (update_gaussian vf f lik fm t ms c self k)"
proof -
  note i = assms(1) [unfolded gmm_inv_def]
  show ?thesis using i assms(2)
    by (simp add: update_gaussian_def Let_def gmm_inv_def arr_update noise_mean_update_i16 speech_mean_update_i16
        noise_std_update_ok speech_std_update_ok)
qed

text \<open>Only the models change in the update of a Gaussian, only the minima in \<^verbatim>\<open>FindMinimum\<close>:
  \<open>same_rest\<close> holds of two instances that agree on everything else.\<close>

definition same_rest :: "VadInstT \<Rightarrow> VadInstT \<Rightarrow> bool" where
  "same_rest a b \<longleftrightarrow> over_hang a = over_hang b \<and> num_of_speech a = num_of_speech b \<and>
     over_hang_max_1 a = over_hang_max_1 b \<and> over_hang_max_2 a = over_hang_max_2 b \<and>
     individual a = individual b \<and> total a = total b \<and> upper_state a = upper_state b \<and> lower_state a = lower_state b \<and>
     downsampling_filter_states a = downsampling_filter_states b \<and> state_48_to_8 a = state_48_to_8 b \<and>
     init_flag a = init_flag b"

lemma update_gaussian_rest:
  "same_rest (update_gaussian vf f lik fm t ms c self k) self \<and>
   index_vector (update_gaussian vf f lik fm t ms c self k) = index_vector self \<and>
   low_value_vector (update_gaussian vf f lik fm t ms c self k) = low_value_vector self \<and>
   mean_value (update_gaussian vf f lik fm t ms c self k) = mean_value self"
  by (simp add: update_gaussian_def Let_def same_rest_def)

lemma minima_inv_cong:
  "index_vector a = index_vector b \<Longrightarrow> low_value_vector a = low_value_vector b \<Longrightarrow> mean_value a = mean_value b \<Longrightarrow>
   minima_inv a = minima_inv b"
  by (simp add: minima_inv_def)

lemma FindMinimum_rest:
  "same_rest (snd (WebRtcVad_FindMinimum self v c)) self \<and>
   gmm_inv (snd (WebRtcVad_FindMinimum self v c)) = gmm_inv self"
  by (simp add: WebRtcVad_FindMinimum_def Let_def case_prod_unfold same_rest_def gmm_inv_def)

lemma update_channel_inv:
  assumes "gmm_inv self" "minima_inv self" "c < 6" "in_i16 (features ! c)"
  shows "gmm_inv (update_channel vf features liks self c) \<and> minima_inv (update_channel vf features liks self c) \<and>
    same_rest (update_channel vf features liks self c) self"
proof -
  obtain fm self1 where 1: "WebRtcVad_FindMinimum self (features ! c) c = (fm, self1)" by fastforce
  have inv1: "gmm_inv self1" "minima_inv self1" "same_rest self1 self"
    using minima_inv_FindMinimum [OF assms(2-4)] FindMinimum_rest [of self "features ! c" c] assms(1) by (simp_all add: 1)
  obtain ngm nm where 2: "WeightedAverage (noise_means self1) c 0 kNoiseDataWeights = (ngm, nm)" by fastforce
  have nm: "arr 12 in_i16 nm"
    using WeightedAverage_arr [of 12 "noise_means self1" c 0 kNoiseDataWeights] inv1(1) by (simp add: 2 gmm_inv_def)
  define ug where "ug = update_gaussian vf (features ! c) (liks ! c) fm (i16 (shr ngm 6))
    (if c = 0 then 12800 else kMaximumSpeech ! (c - 1)) c"
  define self2 where "self2 = ug (ug (self1\<lparr>noise_means := nm\<rparr>) 0) (Suc 0)"
  have g0: "gmm_inv (self1\<lparr>noise_means := nm\<rparr>)" using inv1(1) nm by (simp add: gmm_inv_def)
  have g2: "gmm_inv self2" unfolding self2_def ug_def by (intro update_gaussian_inv g0) simp_all
  have m2: "minima_inv self2"
    using inv1(2) update_gaussian_rest minima_inv_cong [of self2 self1] by (simp add: self2_def ug_def)
  have r2: "same_rest self2 self" using inv1(3) update_gaussian_rest by (simp add: self2_def ug_def same_rest_def)
  obtain nm' sm' where 3: "separate_models c (noise_means self2) (speech_means self2) = (nm', sm')" by fastforce
  have "update_channel vf features liks self c = self2\<lparr>noise_means := nm', speech_means := sm'\<rparr>"
    by (simp add: update_channel_def 1 2 3 ug_def [symmetric] self2_def [symmetric] Let_def)
  moreover have "arr 12 in_i16 nm'" "arr 12 in_i16 sm'"
    using separate_models_arr [of 12 "noise_means self2" "speech_means self2" c] g2 by (simp_all add: 3 gmm_inv_def)
  ultimately show ?thesis using g2 m2 r2 by (simp add: gmm_inv_def minima_inv_def same_rest_def)
qed


lemma update_channels_inv:
  assumes "gmm_inv self" "minima_inv self" "\<forall>c < 6. in_i16 (features ! c)" "set cs \<subseteq> {..<6}"
  shows "gmm_inv (foldl (update_channel vf features liks) self cs) \<and>
    minima_inv (foldl (update_channel vf features liks) self cs) \<and>
    same_rest (foldl (update_channel vf features liks) self cs) self"
  using assms
proof (induction cs arbitrary: self)
  case (Cons c cs)
  have "gmm_inv (update_channel vf features liks self c) \<and> minima_inv (update_channel vf features liks self c) \<and>
      same_rest (update_channel vf features liks self c) self"
    using Cons.prems by (intro update_channel_inv) auto
  moreover from this have "gmm_inv (foldl (update_channel vf features liks) (update_channel vf features liks self c) cs) \<and>
      minima_inv (foldl (update_channel vf features liks) (update_channel vf features liks self c) cs) \<and>
      same_rest (foldl (update_channel vf features liks) (update_channel vf features liks self c) cs)
        (update_channel vf features liks self c)"
    using Cons.prems by (intro Cons.IH) auto
  ultimately show ?case by (simp add: same_rest_def)
qed (simp add: same_rest_def)

lemma mode_table_shape:
  assumes "(a, b, c, d) \<in> set mode_tables" "i < 3"
  shows "0 < a ! i \<and> a ! i \<le> 14 \<and> 0 < b ! i \<and> b ! i \<le> 14"
  using assms by (auto simp: mode_tables_def less_Suc_eq numeral_3_eq_3 numeral_2_eq_2)

lemma frame_index_less: "frame_index n < 3"
  by (simp add: frame_index_def)

lemma hangover_inv:
  assumes "vad_inv self" "0 < o1" "o1 \<le> 14" "0 < o2" "o2 \<le> 14"
  shows "vad_inv (snd (hangover self vf o1 o2)) \<and> 0 \<le> fst (hangover self vf o1 o2) \<and>
    fst (hangover self vf o1 o2) \<le> 16"
  using assms
  by (cases vf; cases "over_hang self > 0"; cases "num_of_speech self + 1 > 6")
    (simp_all add: hangover_def vad_inv_def gmm_inv_def minima_inv_def Let_def)

lemma GmmProbability_inv:
  assumes "vad_inv self" "\<forall>c < 6. in_i16 (features ! c)"
  shows "vad_inv (snd (GmmProbability self features tp n)) \<and> 0 \<le> fst (GmmProbability self features tp n) \<and>
    fst (GmmProbability self features tp n) \<le> 16"
proof -
  define i where "i = frame_index n"
  have oh: "0 < over_hang_max_1 self ! i \<and> over_hang_max_1 self ! i \<le> 14 \<and> 0 < over_hang_max_2 self ! i \<and>
      over_hang_max_2 self ! i \<le> 14"
    using mode_table_shape [of "over_hang_max_1 self" "over_hang_max_2 self" "individual self" "total self" i] assms(1)
    by (simp add: vad_inv_def i_def frame_index_less)
  define liks where "liks = map (channel_likelihood self features) [0..<6]"
  define vf where "vf = vad_decision liks (individual self ! i) (total self ! i)"
  define self1 where "self1 = foldl (update_channel vf features liks) self [0..<6]"
  have "gmm_inv self1 \<and> minima_inv self1 \<and> same_rest self1 self"
    unfolding self1_def using assms by (intro update_channels_inv) (auto simp: vad_inv_def)
  then have "vad_inv (self1\<lparr>frame_counter := i32 (frame_counter self1 + 1)\<rparr>)"
    using assms(1) by (simp add: vad_inv_def same_rest_def gmm_inv_def minima_inv_def)
  then have "vad_inv (snd (hangover (self1\<lparr>frame_counter := i32 (frame_counter self1 + 1)\<rparr>) vf
        (over_hang_max_1 self ! i) (over_hang_max_2 self ! i))) \<and>
      0 \<le> fst (hangover (self1\<lparr>frame_counter := i32 (frame_counter self1 + 1)\<rparr>) vf
        (over_hang_max_1 self ! i) (over_hang_max_2 self ! i)) \<and>
      fst (hangover (self1\<lparr>frame_counter := i32 (frame_counter self1 + 1)\<rparr>) vf
        (over_hang_max_1 self ! i) (over_hang_max_2 self ! i)) \<le> 16"
    using oh by (intro hangover_inv) auto
  moreover have "vad_inv (snd (hangover self False (over_hang_max_1 self ! i) (over_hang_max_2 self ! i))) \<and>
      0 \<le> fst (hangover self False (over_hang_max_1 self ! i) (over_hang_max_2 self ! i)) \<and>
      fst (hangover self False (over_hang_max_1 self ! i) (over_hang_max_2 self ! i)) \<le> 16"
    using oh assms(1) by (intro hangover_inv) auto
  ultimately show ?thesis
    unfolding GmmProbability_def Let_def i_def [symmetric] liks_def [symmetric] vf_def [symmetric] self1_def [symmetric]
    by simp
qed


lemma features_i16:
  assumes "length data_in \<le> 240"
  shows "\<forall>c < 6. in_i16 (fst (snd (WebRtcVad_CalculateFeatures self data_in)) ! c)"
proof (intro allI impI)
  fix c :: nat assume c: "c < 6"
  have "kOffsetVector ! c \<in> set kOffsetVector" using c by (intro nth_mem) (simp add: kOffsetVector_def)
  then have "176 \<le> kOffsetVector ! c \<and> kOffsetVector ! c \<le> 368" by (auto simp: kOffsetVector_def)
  then show "in_i16 (fst (snd (WebRtcVad_CalculateFeatures self data_in)) ! c)"
    using CalculateFeatures_bounds [OF assms, of self _ _ _] c by (fastforce simp: prod_eq_iff)
qed

lemma CalculateFeatures_inv:
  "vad_inv self \<Longrightarrow> vad_inv (snd (snd (WebRtcVad_CalculateFeatures self data_in)))"
  by (simp add: WebRtcVad_CalculateFeatures_def Let_def case_prod_unfold vad_inv_def gmm_inv_def minima_inv_def)

lemma vad_inv_fields [simp]:
  "vad_inv (self\<lparr>vad := v\<rparr>) = vad_inv self"
  "length s = 4 \<Longrightarrow> vad_inv self \<Longrightarrow> vad_inv (self\<lparr>downsampling_filter_states := s\<rparr>)"
  "length (S_24_16 r) = 8 \<Longrightarrow> vad_inv self \<Longrightarrow> vad_inv (self\<lparr>state_48_to_8 := r\<rparr>)"
  by (simp_all add: vad_inv_def gmm_inv_def minima_inv_def)

lemma CalcVad8khz_inv:
  assumes "vad_inv self" "n \<le> 240"
  shows "vad_inv (snd (WebRtcVad_CalcVad8khz self frame n)) \<and> 0 \<le> fst (WebRtcVad_CalcVad8khz self frame n) \<and>
    fst (WebRtcVad_CalcVad8khz self frame n) \<le> 16"
proof -
  obtain tp fv inst1 where 1: "WebRtcVad_CalculateFeatures self (take n frame) = (tp, fv, inst1)" by (rule prod_cases3)
  have "vad_inv inst1" using CalculateFeatures_inv [OF assms(1), of "take n frame"] by (simp add: 1)
  moreover have "\<forall>c < 6. in_i16 (fv ! c)" using features_i16 [of "take n frame" self] assms(2) by (simp add: 1)
  ultimately have "vad_inv (snd (GmmProbability inst1 fv tp n)) \<and> 0 \<le> fst (GmmProbability inst1 fv tp n) \<and>
      fst (GmmProbability inst1 fv tp n) \<le> 16" by (rule GmmProbability_inv)
  then show ?thesis
    by (simp add: WebRtcVad_CalcVad8khz_def 1 case_prod_unfold Let_def)
qed


lemma vad_inv_lengths:
  "vad_inv self \<Longrightarrow> length (downsampling_filter_states self) = 4 \<and> length (S_24_16 (state_48_to_8 self)) = 8"
  by (simp add: vad_inv_def)

lemma CalcVad16khz_inv:
  assumes "vad_inv self" "n \<le> 480"
  shows "vad_inv (snd (WebRtcVad_CalcVad16khz self frame n)) \<and> 0 \<le> fst (WebRtcVad_CalcVad16khz self frame n) \<and>
    fst (WebRtcVad_CalcVad16khz self frame n) \<le> 16"
  unfolding WebRtcVad_CalcVad16khz_def Let_def case_prod_unfold
  using assms vad_inv_lengths [OF assms(1)] by (intro CalcVad8khz_inv) simp_all

lemma CalcVad32khz_inv:
  assumes "vad_inv self" "n \<le> 960"
  shows "vad_inv (snd (WebRtcVad_CalcVad32khz self frame n)) \<and> 0 \<le> fst (WebRtcVad_CalcVad32khz self frame n) \<and>
    fst (WebRtcVad_CalcVad32khz self frame n) \<le> 16"
  unfolding WebRtcVad_CalcVad32khz_def Let_def case_prod_unfold
  using assms vad_inv_lengths [OF assms(1)] by (intro CalcVad8khz_inv) simp_all

lemma length_Resample48khzTo32khz [simp]: "length (WebRtcSpl_Resample48khzTo32khz mem i p K) = length mem"
  unfolding WebRtcSpl_Resample48khzTo32khz_def
  by (induction K arbitrary: mem i p) (simp_all add: block_48_32_def Let_def)

lemma Resample48khzTo8khz_take:
  "WebRtcSpl_Resample48khzTo8khz (take 480 frame) st mem = WebRtcSpl_Resample48khzTo8khz frame st mem"
  by (simp add: WebRtcSpl_Resample48khzTo8khz_def)

lemma Resample48khzTo8khz_shape:
  assumes "480 \<le> length in0" "length (S_24_16 state) = 8" "length tmpmem = 736"
  shows "case WebRtcSpl_Resample48khzTo8khz in0 state tmpmem of (out, state', mem') \<Rightarrow>
    length out = 80 \<and> length (S_24_16 state') = 8 \<and> length mem' = 736"
proof -
  have m: "length (snd (snd (WebRtcSpl_DownBy2IntToShort st m 160))) = length m" if "160 \<le> length m" for st m
    using that by (simp add: WebRtcSpl_DownBy2IntToShort_def Let_def case_prod_unfold)
  have "length (snd (snd (WebRtcSpl_Resample48khzTo8khz in0 state tmpmem))) = 736" using assms m
    by (simp add: WebRtcSpl_Resample48khzTo8khz_def Let_def case_prod_unfold)
  then show ?thesis
    using resample_48_8_out [of "take 480 in0" state tmpmem] assms
    by (simp add: Resample48khzTo8khz_take case_prod_unfold)
qed

lemma resample_passes:
  assumes "480 \<le> length frame" "length (S_24_16 st) = 8" "length mem = 736"
  shows "case (resample_pass frame ^^ n) (st, nb, mem) of (st', nb', mem') \<Rightarrow>
    length (S_24_16 st') = 8 \<and> length nb' = length nb + 80 * n \<and> length mem' = 736"
proof (induction n)
  case (Suc n)
  obtain st' nb' mem' where r: "(resample_pass frame ^^ n) (st, nb, mem) = (st', nb', mem')" by (rule prod_cases3)
  have ih: "length (S_24_16 st') = 8" "length nb' = length nb + 80 * n" "length mem' = 736"
    using Suc by (simp_all add: r)
  have e: "(resample_pass frame ^^ Suc n) (st, nb, mem) = resample_pass frame (st', nb', mem')" by (simp add: r)
  show ?case unfolding e using ih Resample48khzTo8khz_shape [OF assms(1) ih(1,3)]
    by (simp add: resample_pass_def Let_def case_prod_unfold)
qed (use assms in simp)

lemma CalcVad48khz_inv:
  assumes "vad_inv self" "n \<le> 1440" "480 \<le> length frame"
  shows "vad_inv (snd (WebRtcVad_CalcVad48khz self frame n)) \<and> 0 \<le> fst (WebRtcVad_CalcVad48khz self frame n) \<and>
    fst (WebRtcVad_CalcVad48khz self frame n) \<le> 16"
  unfolding WebRtcVad_CalcVad48khz_def Let_def case_prod_unfold
  using assms vad_inv_lengths [OF assms(1)]
    resample_passes [of frame "state_48_to_8 self" "replicate 736 0" "[]" "n div 480"]
  by (intro CalcVad8khz_inv) (simp_all add: case_prod_unfold)

section \<open>The interface as a state machine\<close>

lemma valid_rate_iff:
  "WebRtcVad_ValidRateAndFrameLength fs n = 0 \<longleftrightarrow>
     fs \<in> {8000, 16000, 32000, 48000} \<and> n \<in> {fs div 100, fs div 50, 3 * (fs div 100)}"
  by (auto simp: WebRtcVad_ValidRateAndFrameLength_def kValidRates_def)

lemma vad_inv_init: "vad_inv self \<Longrightarrow> init_flag self = 42"
  by (simp add: vad_inv_def)

lemma Process_error:
  "init_flag self \<noteq> 42 \<or> frame = None \<or> WebRtcVad_ValidRateAndFrameLength fs n \<noteq> 0 \<Longrightarrow>
     WebRtcVad_Process (Some self) fs frame n = (- 1, Some self)"
  unfolding WebRtcVad_Process_def by (auto split: option.split)

lemma Process_cases:
  assumes "vad_inv self" "WebRtcVad_ValidRateAndFrameLength fs n = 0" "nat n \<le> length frame"
  shows "\<exists>v self'. WebRtcVad_Process (Some self) fs (Some frame) n = (if v > 0 then 1 else v, Some self') \<and>
    vad_inv self' \<and> 0 \<le> v \<and> v \<le> 16"
proof -
  define r where "r = (if fs = 48000 then WebRtcVad_CalcVad48khz self frame (nat n)
     else if fs = 32000 then WebRtcVad_CalcVad32khz self frame (nat n)
     else if fs = 16000 then WebRtcVad_CalcVad16khz self frame (nat n)
     else if fs = 8000 then WebRtcVad_CalcVad8khz self frame (nat n) else (- 1, self))"
  have "vad_inv (snd r) \<and> 0 \<le> fst r \<and> fst r \<le> 16"
  proof -
    have n: "n \<in> {fs div 100, fs div 50, 3 * (fs div 100)}" using assms(2) valid_rate_iff by blast
    consider "fs = 8000" | "fs = 16000" | "fs = 32000" | "fs = 48000" using assms(2) valid_rate_iff by blast
    then show ?thesis
    proof cases
      case 1 then have "nat n \<le> 240" using n by auto
      then show ?thesis using 1 CalcVad8khz_inv [OF assms(1)] by (simp add: r_def)
    next
      case 2 then have "nat n \<le> 480" using n by auto
      then show ?thesis using 2 CalcVad16khz_inv [OF assms(1)] by (simp add: r_def)
    next
      case 3 then have "nat n \<le> 960" using n by auto
      then show ?thesis using 3 CalcVad32khz_inv [OF assms(1)] by (simp add: r_def)
    next
      case 4 then have "nat n \<le> 1440" "480 \<le> nat n" using n by auto
      then show ?thesis using 4 CalcVad48khz_inv [OF assms(1), of "nat n" frame] assms(3) by (simp add: r_def)
    qed
  qed
  moreover have "WebRtcVad_Process (Some self) fs (Some frame) n = (if fst r > 0 then 1 else fst r, Some (snd r))"
    using vad_inv_init [OF assms(1)] assms(2)
    unfolding WebRtcVad_Process_def option.case r_def [symmetric] case_prod_unfold Let_def by simp
  ultimately show ?thesis by blast
qed

lemma set_mode_core_inv:
  "vad_inv self \<Longrightarrow> vad_inv (snd (WebRtcVad_set_mode_core self mode))"
proof (cases "0 \<le> mode \<and> mode \<le> 3")
  case True
  assume inv: "vad_inv self"
  have "mode_tables ! nat mode \<in> set mode_tables" using True by (intro nth_mem) (simp add: mode_tables_def nat_less_iff)
  moreover obtain a b c d where "mode_tables ! nat mode = (a, b, c, d)" by (rule prod_cases4)
  ultimately show ?thesis using inv True
    by (simp add: WebRtcVad_set_mode_core_def vad_inv_def gmm_inv_def minima_inv_def)
qed (auto simp: WebRtcVad_set_mode_core_def)


lemma InitCore_inv: "\<exists>self'. WebRtcVad_Init (Some self) = (0, Some self') \<and> vad_inv self'"
proof -
  have c: "chan c (replicate 96 x) = replicate 16 x" if "c < 6" for c and x :: int
    using that by (simp add: chan_def)
  show ?thesis
    by (simp add: WebRtcVad_Init_def WebRtcVad_InitCore_def WebRtcVad_set_mode_core_def mode_tables_def vad_inv_def
        gmm_inv_def minima_inv_def minima_ok_def c arr_def std_ok_def kNoiseDataMeans_def kSpeechDataMeans_def
        kNoiseDataStds_def kSpeechDataStds_def WebRtcSpl_ResetResample48khzTo8khz_def Let_def)
qed

text \<open>The instances a program can hold: created (not initialised), or initialised and then used with
  any arguments; frames have at least the announced length.\<close>

inductive vad_reach :: "VadInstT \<Rightarrow> bool" where
  create: "WebRtcVad_Create True (Some mem) = (0, Some self) \<Longrightarrow> vad_reach self"
| init: "vad_reach self \<Longrightarrow> WebRtcVad_Init (Some self) = (r, Some self') \<Longrightarrow> vad_reach self'"
| set_mode: "vad_reach self \<Longrightarrow> WebRtcVad_set_mode (Some self) m = (r, Some self') \<Longrightarrow> vad_reach self'"
| process: "vad_reach self \<Longrightarrow> (\<And>f. frame = Some f \<Longrightarrow> nat n \<le> length f) \<Longrightarrow>
    WebRtcVad_Process (Some self) fs frame n = (r, Some self') \<Longrightarrow> vad_reach self'"

inductive_cases vad_reach_cases: "vad_reach self"

lemma vad_reach_inv: "vad_reach self \<Longrightarrow> init_flag self = 0 \<or> vad_inv self"
proof (induction rule: vad_reach.induct)
  case (create mem self)
  then show ?case by (auto simp: WebRtcVad_Create_def)
next
  case (init self r self')
  then show ?case using InitCore_inv [of self] by auto
next
  case (set_mode self m r self')
  then show ?case using set_mode_core_inv [of self m]
    by (auto simp: WebRtcVad_set_mode_def case_prod_unfold Let_def vad_inv_def split: if_splits)
next
  case (process self frame n fs r self')
  show ?case
  proof (cases "vad_inv self \<and> frame \<noteq> None \<and> WebRtcVad_ValidRateAndFrameLength fs n = 0")
    case True
    then obtain f where f: "frame = Some f" "nat n \<le> length f" using process.hyps by auto
    obtain v s where "WebRtcVad_Process (Some self) fs (Some f) n = (if v > 0 then 1 else v, Some s)" "vad_inv s"
      using Process_cases [of self fs n f] True f(2) by blast
    then have "vad_inv self'" using process.hyps(3) f(1) by simp
    then show ?thesis by (rule disjI2)
  next
    case False
    then have "init_flag self \<noteq> 42 \<or> frame = None \<or> WebRtcVad_ValidRateAndFrameLength fs n \<noteq> 0"
      using process.IH by auto
    then have "self' = self" using process.hyps(3) Process_error [of self frame fs n] by simp
    then show ?thesis using process.IH by simp
  qed
qed

section \<open>Properties\<close>


lemma vad_reach_example: "vad_reach vad_blank"
  by (rule vad_reach.create [of vad_blank]) (simp add: WebRtcVad_Create_def vad_blank_def)






definition hang_run :: "nat \<Rightarrow> bool \<Rightarrow> int \<Rightarrow> int \<Rightarrow> VadInstT \<Rightarrow> VadInstT" where
  "hang_run k vadflag o1 o2 = (\<lambda>s. snd (hangover s vadflag o1 o2)) ^^ k"

lemma hang_run_noise:
  assumes "0 \<le> over_hang self" "over_hang self \<le> 14"
  shows "over_hang (hang_run k False o1 o2 self) = max 0 (over_hang self - int k)"
  using assms by (induction k) (auto simp: hang_run_def hangover_def Let_def)

lemma hang_run_speech:
  assumes "num_of_speech self = 0"
  shows "num_of_speech (hang_run (Suc k) True o1 o2 self) = min 6 (int k + 1) \<and>
    over_hang (hang_run (Suc k) True o1 o2 self) = (if k < 6 then o1 else o2)"
  using assms by (induction k) (auto simp: hang_run_def hangover_def Let_def)



lemma resample_pass_take: "take 480 f = take 480 g \<Longrightarrow> resample_pass f = resample_pass g"
proof -
  assume e: "take 480 f = take 480 g"
  have "WebRtcSpl_Resample48khzTo8khz f st mem = WebRtcSpl_Resample48khzTo8khz g st mem" for st mem
    using Resample48khzTo8khz_take [of f st mem] Resample48khzTo8khz_take [of g st mem] e by simp
  then show ?thesis by (simp add: resample_pass_def fun_eq_iff)
qed

text \<open>C36. At 48 kHz the decision for a 20 or 30 ms frame depends on its first 480 samples only: the
  resampling loop never advances its input, so it feeds the first 10 ms two or three times.\<close>

theorem vad_48khz_ignores_rest:
  assumes "take 480 f = take 480 g"
  shows "WebRtcVad_CalcVad48khz inst f n = WebRtcVad_CalcVad48khz inst g n"
  unfolding WebRtcVad_CalcVad48khz_def resample_pass_take [OF assms] by (rule refl)

theorem vad_48khz_ignores_rest_witness:
  "WebRtcVad_CalcVad48khz vad_blank (replicate 480 0 @ replicate 480 9000) 960 =
     WebRtcVad_CalcVad48khz vad_blank (replicate 960 0) 960"
  using vad_48khz_ignores_rest [of "replicate 480 0 @ replicate 480 9000" "replicate 960 0" vad_blank 960] by simp

lemma sum_thresholds_mono:
  "vad_decision liks a' b' \<Longrightarrow> a \<le> a' \<Longrightarrow> b \<le> b' \<Longrightarrow> vad_decision liks a b"
  unfolding vad_decision_def by force

text \<open>C37. \<^verbatim>\<open>WebRtcVad_set_mode_core\<close> accepts exactly the modes 0 to 3 and leaves the instance
  unchanged otherwise; a higher mode is more aggressive at every frame length: for the same
  likelihoods, what is judged speech in the higher mode is judged speech in the lower one.\<close>

theorem vad_mode_monotone:
  "(fst (WebRtcVad_set_mode_core self m) = 0 \<longleftrightarrow> 0 \<le> m \<and> m \<le> 3) \<and>
   (fst (WebRtcVad_set_mode_core self m) \<noteq> 0 \<longrightarrow> WebRtcVad_set_mode_core self m = (- 1, self)) \<and>
   (0 \<le> m \<and> m \<le> m' \<and> m' \<le> 3 \<and> i < 3 \<and>
    vad_decision liks (individual (snd (WebRtcVad_set_mode_core self m')) ! i) (total (snd (WebRtcVad_set_mode_core self m')) ! i) \<longrightarrow>
    vad_decision liks (individual (snd (WebRtcVad_set_mode_core self m)) ! i) (total (snd (WebRtcVad_set_mode_core self m)) ! i))"
proof (intro conjI impI)
  show "fst (WebRtcVad_set_mode_core self m) = 0 \<longleftrightarrow> 0 \<le> m \<and> m \<le> 3"
    by (simp add: WebRtcVad_set_mode_core_def case_prod_unfold)
  show "fst (WebRtcVad_set_mode_core self m) \<noteq> 0 \<Longrightarrow> WebRtcVad_set_mode_core self m = (- 1, self)"
    by (simp add: WebRtcVad_set_mode_core_def case_prod_unfold split: if_splits)
next
  assume h: "0 \<le> m \<and> m \<le> m' \<and> m' \<le> 3 \<and> i < 3 \<and>
    vad_decision liks (individual (snd (WebRtcVad_set_mode_core self m')) ! i) (total (snd (WebRtcVad_set_mode_core self m')) ! i)"
  have mono: "fst (snd (snd (mode_tables ! a))) ! i \<le> fst (snd (snd (mode_tables ! b))) ! i \<and>
      snd (snd (snd (mode_tables ! a))) ! i \<le> snd (snd (snd (mode_tables ! b))) ! i" if "a \<le> b" "b < 4" for a b
  proof -
    have "b \<in> {0, 1, 2, 3}" "a \<in> {0, 1, 2, 3}" "i \<in> {0, 1, 2}" using that h by auto
    then show ?thesis using that by (auto simp: mode_tables_def)
  qed
  have e: "individual (snd (WebRtcVad_set_mode_core self q)) = fst (snd (snd (mode_tables ! nat q)))"
    "total (snd (WebRtcVad_set_mode_core self q)) = snd (snd (snd (mode_tables ! nat q)))" if "0 \<le> q" "q \<le> 3" for q
    using that by (simp_all add: WebRtcVad_set_mode_core_def case_prod_unfold)
  show "vad_decision liks (individual (snd (WebRtcVad_set_mode_core self m)) ! i) (total (snd (WebRtcVad_set_mode_core self m)) ! i)"
    using h mono [of "nat m" "nat m'"] e [of m] e [of m'] by (auto elim!: sum_thresholds_mono simp: nat_less_iff)
qed

theorem vad_mode_monotone_witness:
  "vad_decision [\<lparr>llr = 30, ngpr = [], sgpr = [], deltaN = [], deltaS = []\<rparr>]
     (individual (snd (WebRtcVad_set_mode_core vad_blank 0)) ! 0) (total (snd (WebRtcVad_set_mode_core vad_blank 0)) ! 0)"
  using vad_mode_monotone [of vad_blank 0 3 0 "[\<lparr>llr = 30, ngpr = [], sgpr = [], deltaN = [], deltaS = []\<rparr>]"]
  by (simp add: vad_decision_def WebRtcVad_set_mode_core_def mode_tables_def)

end
