(* ===== verification/Rtp_Bytes.thy ===== *)
theory Rtp_Bytes
  imports C_Prelude
begin

text \<open>
  Bytes on the wire: the templates \<^verbatim>\<open>ByteReader\<close> and \<^verbatim>\<open>ByteWriter\<close> of
  \<^verbatim>\<open>modules/rtp_rtcp/source/byte_io.h\<close> and the comparisons of wrapping sequence numbers and
  timestamps of \<^verbatim>\<open>modules/interface/module_common_types.h\<close>.  Integers are words of their C width; the
  template argument \<^verbatim>\<open>T\<close> is the word type and \<^verbatim>\<open>B\<close> the first argument.  A signed value
  is the word whose \<open>sint\<close> it is.  The theory ends with the contract of a field encoding
  (\<open>field_codec\<close>), through which the packet theories use the readers and writers.
\<close>

section \<open>Readers\<close>

definition or_bytes :: "(nat \<Rightarrow> nat) \<Rightarrow> nat \<Rightarrow> byte list \<Rightarrow> 'a::len word" where
  "or_bytes sh B bytes = foldl (\<lambda>val i. val OR push_bit (sh i) (ucast (bytes ! i))) 0 [0..<B]"

definition InternalReadBigEndian :: "nat \<Rightarrow> byte list \<Rightarrow> 'a::len word" where
  "InternalReadBigEndian B bytes = or_bytes (\<lambda>i. (B - 1 - i) * 8) B bytes"

definition InternalReadLittleEndian :: "nat \<Rightarrow> byte list \<Rightarrow> 'a::len word" where
  "InternalReadLittleEndian B bytes = or_bytes (\<lambda>i. i * 8) B bytes"

definition SignExtend :: "nat \<Rightarrow> 'a::len word \<Rightarrow> 'a word" where
  "SignExtend B val =
     (let msb = (ucast (signed_drop_bit ((B - 1) * 8) val) :: byte)
      in if msb AND 0x80 \<noteq> 0
         then let size_T = LENGTH('a) div 8;
                  sign_extend = (if size_T = B then 0 else push_bit ((B mod size_T) * 8) (- 1))
              in val OR sign_extend
         else val)"

definition ReadBigEndian :: "bool \<Rightarrow> nat \<Rightarrow> byte list \<Rightarrow> 'a::len word" where
  "ReadBigEndian is_signed B bytes =
     (if is_signed \<and> B < LENGTH('a) div 8 then SignExtend B (InternalReadBigEndian B bytes)
      else InternalReadBigEndian B bytes)"

definition ReadLittleEndian :: "bool \<Rightarrow> nat \<Rightarrow> byte list \<Rightarrow> 'a::len word" where
  "ReadLittleEndian is_signed B bytes =
     (if is_signed \<and> B < LENGTH('a) div 8 then SignExtend B (InternalReadLittleEndian B bytes)
      else InternalReadLittleEndian B bytes)"

text \<open>The specialisations for two, four and eight bytes.  The first two combine C \<^verbatim>\<open>int\<close>s, 32-bit
  words, and convert the result to \<^verbatim>\<open>T\<close>.\<close>

definition int_byte :: "byte list \<Rightarrow> nat \<Rightarrow> nat \<Rightarrow> 32 word" where
  "int_byte bytes i n = push_bit n (ucast (bytes ! i))"

definition ReadBigEndian2 :: "byte list \<Rightarrow> 'a::len word" where
  "ReadBigEndian2 bytes = scast (int_byte bytes 0 8 OR int_byte bytes 1 0)"

definition ReadLittleEndian2 :: "byte list \<Rightarrow> 'a::len word" where
  "ReadLittleEndian2 bytes = scast (int_byte bytes 0 0 OR int_byte bytes 1 8)"

definition ReadBigEndian4 :: "byte list \<Rightarrow> 'a::len word" where
  "ReadBigEndian4 bytes =
     scast (int_byte bytes 0 24 OR int_byte bytes 1 16 OR int_byte bytes 2 8 OR int_byte bytes 3 0)"

definition ReadLittleEndian4 :: "byte list \<Rightarrow> 'a::len word" where
  "ReadLittleEndian4 bytes =
     scast (int_byte bytes 0 0 OR int_byte bytes 1 8 OR int_byte bytes 2 16 OR int_byte bytes 3 24)"

definition Get_byte :: "byte list \<Rightarrow> nat \<Rightarrow> 'a::len word" where
  "Get_byte bytes index = ucast (bytes ! index)"

definition ReadBigEndian8 :: "byte list \<Rightarrow> 'a::len word" where
  "ReadBigEndian8 bytes =
     push_bit 56 (Get_byte bytes 0) OR push_bit 48 (Get_byte bytes 1) OR
     push_bit 40 (Get_byte bytes 2) OR push_bit 32 (Get_byte bytes 3) OR
     push_bit 24 (Get_byte bytes 4) OR push_bit 16 (Get_byte bytes 5) OR
     push_bit 8 (Get_byte bytes 6) OR Get_byte bytes 7"

definition ReadLittleEndian8 :: "byte list \<Rightarrow> 'a::len word" where
  "ReadLittleEndian8 bytes =
     Get_byte bytes 0 OR push_bit 8 (Get_byte bytes 1) OR
     push_bit 16 (Get_byte bytes 2) OR push_bit 24 (Get_byte bytes 3) OR
     push_bit 32 (Get_byte bytes 4) OR push_bit 40 (Get_byte bytes 5) OR
     push_bit 48 (Get_byte bytes 6) OR push_bit 56 (Get_byte bytes 7)"

section \<open>Writers\<close>

text \<open>A right shift is arithmetic on a signed \<^verbatim>\<open>T\<close> and logical on an unsigned one.\<close>

definition shift_right :: "bool \<Rightarrow> nat \<Rightarrow> 'a::len word \<Rightarrow> 'a word" where
  "shift_right is_signed n val = (if is_signed then signed_drop_bit n val else drop_bit n val)"

definition WriteBigEndian :: "bool \<Rightarrow> nat \<Rightarrow> 'a::len word \<Rightarrow> byte list" where
  "WriteBigEndian is_signed B val =
     map (\<lambda>i. ucast (shift_right is_signed ((B - 1 - i) * 8) val)) [0..<B]"

definition WriteLittleEndian :: "bool \<Rightarrow> nat \<Rightarrow> 'a::len word \<Rightarrow> byte list" where
  "WriteLittleEndian is_signed B val =
     map (\<lambda>i. ucast (shift_right is_signed (i * 8) val)) [0..<B]"

definition WriteBigEndian2 :: "bool \<Rightarrow> 'a::len word \<Rightarrow> byte list" where
  "WriteBigEndian2 is_signed val = [ucast (shift_right is_signed 8 val), ucast val]"

definition WriteLittleEndian2 :: "bool \<Rightarrow> 'a::len word \<Rightarrow> byte list" where
  "WriteLittleEndian2 is_signed val = [ucast val, ucast (shift_right is_signed 8 val)]"

definition WriteBigEndian4 :: "bool \<Rightarrow> 'a::len word \<Rightarrow> byte list" where
  "WriteBigEndian4 is_signed val =
     [ucast (shift_right is_signed 24 val), ucast (shift_right is_signed 16 val),
      ucast (shift_right is_signed 8 val), ucast val]"

definition WriteLittleEndian4 :: "bool \<Rightarrow> 'a::len word \<Rightarrow> byte list" where
  "WriteLittleEndian4 is_signed val =
     [ucast val, ucast (shift_right is_signed 8 val),
      ucast (shift_right is_signed 16 val), ucast (shift_right is_signed 24 val)]"

definition WriteBigEndian8 :: "bool \<Rightarrow> 'a::len word \<Rightarrow> byte list" where
  "WriteBigEndian8 is_signed val =
     [ucast (shift_right is_signed 56 val), ucast (shift_right is_signed 48 val),
      ucast (shift_right is_signed 40 val), ucast (shift_right is_signed 32 val),
      ucast (shift_right is_signed 24 val), ucast (shift_right is_signed 16 val),
      ucast (shift_right is_signed 8 val), ucast val]"

definition WriteLittleEndian8 :: "bool \<Rightarrow> 'a::len word \<Rightarrow> byte list" where
  "WriteLittleEndian8 is_signed val =
     [ucast val, ucast (shift_right is_signed 8 val),
      ucast (shift_right is_signed 16 val), ucast (shift_right is_signed 24 val),
      ucast (shift_right is_signed 32 val), ucast (shift_right is_signed 40 val),
      ucast (shift_right is_signed 48 val), ucast (shift_right is_signed 56 val)]"

section \<open>Checked access\<close>

text \<open>Reads and writes of a buffer through a pointer; \<open>None\<close> is an access outside the buffer.\<close>

definition load :: "byte list \<Rightarrow> nat \<Rightarrow> nat \<Rightarrow> byte list option" where
  "load buf ptr n = (if ptr + n \<le> length buf then Some (take n (drop ptr buf)) else None)"

definition load1 :: "byte list \<Rightarrow> nat \<Rightarrow> byte option" where
  "load1 buf ptr = (if ptr < length buf then Some (buf ! ptr) else None)"

definition store :: "byte list \<Rightarrow> nat \<Rightarrow> byte list \<Rightarrow> byte list option" where
  "store buf ptr bs = (if ptr + length bs \<le> length buf then Some (memcpy buf ptr bs) else None)"

lemma load_Some [simp]: "ptr + n \<le> length buf \<Longrightarrow> load buf ptr n = Some (take n (drop ptr buf))"
  by (simp add: load_def)

lemma load1_Some [simp]: "ptr < length buf \<Longrightarrow> load1 buf ptr = Some (buf ! ptr)"
  by (simp add: load1_def)

text \<open>\<^verbatim>\<open>(p[0] << 8) + p[1]\<close> as a \<^verbatim>\<open>uint16_t\<close>.\<close>

definition two_bytes :: "byte list \<Rightarrow> 16 word" where
  "two_bytes bs = push_bit 8 (ucast (bs ! 0)) + ucast (bs ! 1)"

section \<open>Wrapping sequence numbers\<close>

definition IsNewerSequenceNumber :: "16 word \<Rightarrow> 16 word \<Rightarrow> bool" where
  "IsNewerSequenceNumber sequence_number prev_sequence_number \<longleftrightarrow>
     sequence_number \<noteq> prev_sequence_number \<and> sequence_number - prev_sequence_number < 0x8000"

definition IsNewerTimestamp :: "32 word \<Rightarrow> 32 word \<Rightarrow> bool" where
  "IsNewerTimestamp timestamp prev_timestamp \<longleftrightarrow>
     timestamp \<noteq> prev_timestamp \<and> timestamp - prev_timestamp < 0x80000000"

definition LatestSequenceNumber :: "16 word \<Rightarrow> 16 word \<Rightarrow> 16 word" where
  "LatestSequenceNumber sequence_number1 sequence_number2 =
     (if IsNewerSequenceNumber sequence_number1 sequence_number2 then sequence_number1
      else sequence_number2)"

definition LatestTimestamp :: "32 word \<Rightarrow> 32 word \<Rightarrow> 32 word" where
  "LatestTimestamp timestamp1 timestamp2 =
     (if IsNewerTimestamp timestamp1 timestamp2 then timestamp1 else timestamp2)"

section \<open>Reading back what was written\<close>

lemma bit_or_bytes:
  "bit (or_bytes sh B bytes :: 'a::len word) k \<longleftrightarrow>
     (\<exists>i<B. bit (push_bit (sh i) (ucast (bytes ! i) :: 'a word)) k)"
  by (induction B) (auto simp: or_bytes_def bit_or_iff less_Suc_eq)

lemma byte_index_unique:
  fixes i k :: nat
  shows "i * 8 \<le> k \<and> k < i * 8 + 8 \<longleftrightarrow> i = k div 8"
  by auto

lemma bit_InternalReadLittleEndian:
  "bit (InternalReadLittleEndian B bytes :: 'a::len word) k \<longleftrightarrow>
     k < LENGTH('a) \<and> k < 8 * B \<and> bit (bytes ! (k div 8)) (k mod 8)"
proof -
  have *: "bit (push_bit (i * 8) (ucast (bytes ! i) :: 'a word)) k \<longleftrightarrow>
      k < LENGTH('a) \<and> i = k div 8 \<and> bit (bytes ! i) (k mod 8)" for i
    using byte_index_unique [of i k]
    by (auto simp: bit_simps minus_div_mult_eq_mod [symmetric] dest: bit_imp_le_length)
  show ?thesis unfolding InternalReadLittleEndian_def bit_or_bytes * by auto
qed

lemma read_big_rev:
  assumes "B \<le> length bytes"
  shows "InternalReadBigEndian B bytes = (InternalReadLittleEndian B (rev (take B bytes)) :: 'a::len word)"
proof (rule bit_word_eqI)
  fix k assume k: "k < LENGTH('a)"
  have r: "rev (take B bytes) ! i = bytes ! (B - 1 - i)" if "i < B" for i
    using that assms by (simp add: rev_nth min_def)
  have "bit (InternalReadBigEndian B bytes :: 'a word) k \<longleftrightarrow>
      (\<exists>i<B. bit (push_bit ((B - 1 - i) * 8) (ucast (bytes ! i) :: 'a word)) k)"
    by (simp only: InternalReadBigEndian_def bit_or_bytes)
  also have "\<dots> \<longleftrightarrow> (\<exists>i<B. bit (push_bit (i * 8) (ucast (bytes ! (B - 1 - i)) :: 'a word)) k)"
    by (rule iffI; elim exE conjE; rule_tac x = "B - 1 - i" in exI) simp_all
  also have "\<dots> \<longleftrightarrow> (\<exists>i<B. bit (push_bit (i * 8) (ucast (rev (take B bytes) ! i) :: 'a word)) k)"
    using r by (metis (no_types, lifting))
  finally show "bit (InternalReadBigEndian B bytes :: 'a word) k \<longleftrightarrow>
      bit (InternalReadLittleEndian B (rev (take B bytes)) :: 'a word) k"
    by (simp only: InternalReadLittleEndian_def bit_or_bytes)
qed

lemma length_Write [simp]:
  "length (WriteBigEndian is_signed B val) = B" "length (WriteLittleEndian is_signed B val) = B"
  by (simp_all add: WriteBigEndian_def WriteLittleEndian_def)

lemma write_big_rev: "WriteBigEndian is_signed B val = rev (WriteLittleEndian is_signed B val)"
  by (rule nth_equalityI) (simp_all add: WriteBigEndian_def WriteLittleEndian_def rev_nth)

lemma low_byte_shift:
  fixes val :: "'a::len word"
  assumes "n + 8 \<le> LENGTH('a)"
  shows "bit (ucast (shift_right is_signed n val) :: byte) j \<longleftrightarrow> j < 8 \<and> bit val (n + j)"
  using assms by (auto simp: shift_right_def bit_simps dest: bit_imp_le_length)

lemma read_write_little:
  assumes "8 * B \<le> LENGTH('a::len)"
  shows "InternalReadLittleEndian B (WriteLittleEndian is_signed B (val :: 'a word)) = take_bit (8 * B) val"
proof (rule bit_word_eqI)
  fix k assume "k < LENGTH('a)"
  have "bit (WriteLittleEndian is_signed B val ! (k div 8)) (k mod 8) \<longleftrightarrow> bit val k" if "k < 8 * B"
  proof -
    have "k div 8 < B" using that by (simp add: less_mult_imp_div_less mult.commute)
    moreover from this have "k div 8 * 8 + 8 \<le> LENGTH('a)" using assms by linarith
    ultimately show ?thesis by (simp add: WriteLittleEndian_def low_byte_shift)
  qed
  then show "bit (InternalReadLittleEndian B (WriteLittleEndian is_signed B val) :: 'a word) k \<longleftrightarrow>
      bit (take_bit (8 * B) val) k"
    using \<open>k < LENGTH('a)\<close> by (auto simp: bit_InternalReadLittleEndian bit_take_bit_iff)
qed

lemma read_write_big:
  assumes "8 * B \<le> LENGTH('a::len)"
  shows "InternalReadBigEndian B (WriteBigEndian is_signed B (val :: 'a word)) = take_bit (8 * B) val"
  using read_write_little [OF assms, of is_signed val] by (simp add: read_big_rev write_big_rev)


lemma byte_msb: "(x :: byte) AND 0x80 \<noteq> 0 \<longleftrightarrow> bit x 7"
  using and_exp_eq_0_iff_not_bit [of x 7] by simp

lemma SignExtend_take_bit:
  fixes val :: "'a::len word"
  assumes "0 < B" "B < LENGTH('a) div 8"
  shows "SignExtend B (take_bit (8 * B) val) = signed_take_bit (8 * B - 1) val"
proof -
  from assms(2) have len: "8 * B < LENGTH('a)" by linarith
  have msb: "bit (ucast (signed_drop_bit ((B - 1) * 8) (take_bit (8 * B) val)) :: byte) 7 \<longleftrightarrow>
      bit val (8 * B - 1)"
    using assms(1) len by (cases B) (auto simp: bit_simps algebra_simps)
  have stb: "bit (signed_take_bit (8 * B - 1) val) k \<longleftrightarrow> bit val (if k < 8 * B then k else 8 * B - 1)"
    if "k < LENGTH('a)" for k
  proof -
    have "min k (8 * B - 1) = (if k < 8 * B then k else 8 * B - 1)" using assms(1) by auto
    with that show ?thesis by (simp add: bit_signed_take_bit_iff)
  qed
  show ?thesis
  proof (rule bit_word_eqI)
    fix k assume k: "k < LENGTH('a)"
    have "SignExtend B (take_bit (8 * B) val) =
        (if bit val (8 * B - 1) then take_bit (8 * B) val OR push_bit (B * 8) (- 1) else take_bit (8 * B) val)"
      using assms unfolding SignExtend_def Let_def byte_msb msb by simp
    then show "bit (SignExtend B (take_bit (8 * B) val)) k \<longleftrightarrow> bit (signed_take_bit (8 * B - 1) val) k"
      unfolding stb [OF k] using k
      by (cases "k < 8 * B") (simp_all add: bit_simps mult.commute)
  qed
qed


lemma Read_unsigned:
  "ReadBigEndian False B bytes = InternalReadBigEndian B bytes"
  "ReadLittleEndian False B bytes = InternalReadLittleEndian B bytes"
  by (simp_all add: ReadBigEndian_def ReadLittleEndian_def)

lemma signed_take_bit_full: "LENGTH('a) \<le> Suc n \<Longrightarrow> signed_take_bit n (w :: 'a::len word) = w"
  by (rule bit_word_eqI) (simp add: bit_signed_take_bit_iff min_absorb1)

lemma read_write_signed:
  fixes val :: "'a::len word"
  assumes "0 < B" "8 * B \<le> LENGTH('a)" "8 dvd LENGTH('a)"
  shows "ReadBigEndian True B (WriteBigEndian is_signed B val) = signed_take_bit (8 * B - 1) val"
    and "ReadLittleEndian True B (WriteLittleEndian is_signed B val) = signed_take_bit (8 * B - 1) val"
proof -
  have "take_bit (8 * B) val = signed_take_bit (8 * B - 1) val" if "\<not> B < LENGTH('a) div 8"
    using that assms by (auto simp: signed_take_bit_full elim!: dvdE intro!: take_bit_word_eq_self)
  then show "ReadBigEndian True B (WriteBigEndian is_signed B val) = signed_take_bit (8 * B - 1) val"
    "ReadLittleEndian True B (WriteLittleEndian is_signed B val) = signed_take_bit (8 * B - 1) val"
    using assms by (simp_all add: ReadBigEndian_def ReadLittleEndian_def read_write_big read_write_little
        SignExtend_take_bit)
qed

lemma signed_take_bit_word_self:
  fixes w :: "'a::len word"
  assumes "- (2 ^ n) \<le> sint w" "sint w < 2 ^ n"
  shows "signed_take_bit n w = w"
proof -
  have *: "signed_take_bit n (sint w) = sint w"
    using assms by (simp add: signed_take_bit_int_eq_self_iff)
  have "bit (signed_take_bit n w) k \<longleftrightarrow> bit w k" if "k < LENGTH('a)" for k
  proof -
    have "bit (sint w) k \<longleftrightarrow> bit (sint w) (min k n)"
      using bit_signed_take_bit_iff [of n "sint w" k] by (simp add: * min.commute)
    moreover have "bit (sint w) j \<longleftrightarrow> bit w j" if "j < LENGTH('a)" for j
      using that by (simp add: bit_sint_iff)
    moreover have "min k n < LENGTH('a)" using that by simp
    ultimately show ?thesis using that by (simp add: bit_signed_take_bit_iff min.commute)
  qed
  then show ?thesis by (intro bit_word_eqI) 
qed

lemma take_bit_word_self: "unat (w :: 'a::len word) < 2 ^ n \<Longrightarrow> take_bit n w = w"
proof -
  assume "unat w < 2 ^ n"
  then have "unat (take_bit n w) = unat w"
    by (simp add: unsigned_take_bit_eq take_bit_nat_eq_self_iff)
  then show ?thesis by (rule unsigned_word_eqI)
qed

section \<open>The specialisations\<close>

lemma upt_2: "[0..<2] = [0, 1::nat]" and upt_4: "[0..<4] = [0, 1, 2, 3::nat]"
  and upt_8: "[0..<8] = [0, 1, 2, 3, 4, 5, 6, 7::nat]"
  by (simp_all add: upt_rec)

lemma Read2_generic:
  "ReadBigEndian2 bytes = (InternalReadBigEndian 2 bytes :: 16 word)"
  "ReadLittleEndian2 bytes = (InternalReadLittleEndian 2 bytes :: 16 word)"
  by (rule bit_word_eqI; auto simp: ReadBigEndian2_def ReadLittleEndian2_def int_byte_def
      InternalReadBigEndian_def InternalReadLittleEndian_def or_bytes_def upt_2 bit_simps)+

lemma Read4_generic:
  "ReadBigEndian4 bytes = (InternalReadBigEndian 4 bytes :: 32 word)"
  "ReadLittleEndian4 bytes = (InternalReadLittleEndian 4 bytes :: 32 word)"
  by (simp_all add: ReadBigEndian4_def ReadLittleEndian4_def int_byte_def
      InternalReadBigEndian_def InternalReadLittleEndian_def or_bytes_def upt_4 or.assoc)

lemma Read8_generic:
  "ReadBigEndian8 bytes = (InternalReadBigEndian 8 bytes :: 64 word)"
  "ReadLittleEndian8 bytes = (InternalReadLittleEndian 8 bytes :: 64 word)"
  by (simp_all add: ReadBigEndian8_def ReadLittleEndian8_def Get_byte_def
      InternalReadBigEndian_def InternalReadLittleEndian_def or_bytes_def upt_8 or.assoc)

lemma shift_right_0 [simp]: "shift_right is_signed 0 val = val"
  by (auto simp: shift_right_def)

lemma Write_specialised:
  "WriteBigEndian2 is_signed val = WriteBigEndian is_signed 2 val"
  "WriteLittleEndian2 is_signed val = WriteLittleEndian is_signed 2 val"
  "WriteBigEndian4 is_signed val = WriteBigEndian is_signed 4 val"
  "WriteLittleEndian4 is_signed val = WriteLittleEndian is_signed 4 val"
  "WriteBigEndian8 is_signed val = WriteBigEndian is_signed 8 val"
  "WriteLittleEndian8 is_signed val = WriteLittleEndian is_signed 8 val"
  by (simp_all add: WriteBigEndian2_def WriteLittleEndian2_def WriteBigEndian4_def WriteLittleEndian4_def
      WriteBigEndian8_def WriteLittleEndian8_def WriteBigEndian_def WriteLittleEndian_def upt_2 upt_4 upt_8)

text \<open>Used with a wider type the specialisations differ from the general template: two bytes read
  as a signed 32-bit value are not sign extended, and four bytes read as an unsigned 64-bit value are.\<close>

lemma specialisations_wider_type:
  "ReadBigEndian2 [0xFF, 0xFF] = (0xFFFF :: 32 word)"
  "ReadBigEndian True 2 [0xFF, 0xFF] = (- 1 :: 32 word)"
  "ReadBigEndian4 [0xFF, 0, 0, 0] = (0xFFFFFFFFFF000000 :: 64 word)"
  "ReadBigEndian False 4 [0xFF, 0, 0, 0] = (0xFF000000 :: 64 word)"
  by code_simp+




section \<open>Fields of a packet\<close>

text \<open>The contract of a field of fixed width: the values \<open>ok\<close> are those the field can carry.\<close>

locale field_codec =
  fixes enc :: "'v \<Rightarrow> byte list" and dec :: "byte list \<Rightarrow> 'v" and width :: nat and ok :: "'v \<Rightarrow> bool"
  assumes length_enc [simp]: "length (enc v) = width"
    and dec_enc [simp]: "ok v \<Longrightarrow> dec (enc v) = v"
begin

lemma dec_prefix: "ok v \<Longrightarrow> dec (take width (enc v @ rest)) = v"
  by simp

lemma dec_at: "ok v \<Longrightarrow> pos = length pre \<Longrightarrow> dec (take width (drop pos (pre @ enc v @ rest))) = v"
  by simp

lemma dec_stored:
  assumes "ok v" "pos + width \<le> length buf"
  shows "dec (take width (drop pos (memcpy buf pos (enc v)))) = v"
  using assms by (simp add: memcpy_def)

end

lemma read_write_24:
  fixes v :: "32 word"
  shows "- 0x800000 \<le> sint v \<and> sint v < 0x800000 \<Longrightarrow> ReadBigEndian True 3 (WriteBigEndian True 3 v) = v"
    and "v \<le> 0xFFFFFF \<Longrightarrow> ReadBigEndian False 3 (WriteBigEndian False 3 v) = v"
proof -
  show "ReadBigEndian True 3 (WriteBigEndian True 3 v) = v" if "- 0x800000 \<le> sint v \<and> sint v < 0x800000"
    using that by (simp add: read_write_signed signed_take_bit_word_self)
  show "ReadBigEndian False 3 (WriteBigEndian False 3 v) = v" if "v \<le> 0xFFFFFF"
    using that by (simp add: Read_unsigned read_write_big take_bit_word_self word_le_nat_alt)
qed

interpretation u16f: field_codec "WriteBigEndian2 False" "ReadBigEndian2 :: byte list \<Rightarrow> 16 word" 2 "\<lambda>_. True"
  by unfold_locales (simp_all add: Read2_generic Write_specialised read_write_big take_bit_word_eq_self)

lemma two_bytes_read: "two_bytes bs = ReadBigEndian2 bs"
proof -
  have "push_bit 8 (ucast (bs ! 0)) + ucast (bs ! 1) = push_bit 8 (ucast (bs ! 0)) OR (ucast (bs ! 1) :: 16 word)"
    by (rule disjunctive_add) (auto simp: bit_simps dest: bit_imp_le_length)
  then show ?thesis
    by (simp add: two_bytes_def Read2_generic InternalReadBigEndian_def or_bytes_def upt_2)
qed

lemma two_bytes_written [simp]: "two_bytes (WriteBigEndian2 False v) = v"
  by (simp add: two_bytes_read u16f.dec_enc)

lemma write_two_bytes: "WriteBigEndian2 False (two_bytes [x, y]) = [x, y]"
  by (auto simp: two_bytes_read Read2_generic InternalReadBigEndian_def or_bytes_def upt_2 WriteBigEndian2_def
      shift_right_def intro!: bit_word_eqI) (auto simp: bit_simps dest: bit_imp_le_length)

interpretation u32f: field_codec "WriteBigEndian4 False" "ReadBigEndian4 :: byte list \<Rightarrow> 32 word" 4 "\<lambda>_. True"
  by unfold_locales (simp_all add: Read4_generic Write_specialised read_write_big take_bit_word_eq_self)

interpretation s24f: field_codec "WriteBigEndian True 3" "ReadBigEndian True 3 :: byte list \<Rightarrow> 32 word" 3
  "\<lambda>v. - 0x800000 \<le> sint v \<and> sint v < 0x800000"
  by unfold_locales (simp_all add: read_write_24)

interpretation u24f: field_codec "WriteBigEndian False 3" "ReadBigEndian False 3 :: byte list \<Rightarrow> 32 word" 3
  "\<lambda>v. v \<le> 0xFFFFFF"
  by unfold_locales (simp_all add: read_write_24)

section \<open>The order of wrapping numbers\<close>

lemma newer_iff_positive:
  fixes d :: int
  assumes "\<bar>d\<bar> < 2 ^ (LENGTH('a::len) - 1)"
  shows "word_of_int d \<noteq> (0 :: 'a word) \<and> word_of_int d < (2 ^ (LENGTH('a) - 1) :: 'a word) \<longleftrightarrow> 0 < d"
proof -
  have p: "(2 :: int) ^ LENGTH('a) = 2 * 2 ^ (LENGTH('a) - 1)"
    by (metis len_gt_0 power_minus_mult mult.commute)
  have "uint (word_of_int d :: 'a word) = (if 0 \<le> d then d else d + 2 ^ LENGTH('a))"
  proof (cases "0 \<le> d")
    case True
    with assms p show ?thesis by (simp add: uint_word_of_int)
  next
    case False
    then have "d mod 2 ^ LENGTH('a) = (d + 2 ^ LENGTH('a)) mod 2 ^ LENGTH('a)" by simp
    also have "\<dots> = d + 2 ^ LENGTH('a)" using False assms p by (intro mod_pos_pos_trivial) linarith+
    finally show ?thesis using False by (simp add: uint_word_of_int)
  qed
  moreover have "uint (2 ^ (LENGTH('a) - 1) :: 'a word) = 2 ^ (LENGTH('a) - 1)"
    by (rule uint_2p) (simp add: word_greater_zero_iff exp_eq_zero_iff)
  ultimately show ?thesis
    using assms p by (auto simp: word_less_def word_neq_0_conv word_uint_eq_iff)
qed

lemma word_of_int_neq: "(word_of_int a :: 'a::len word) \<noteq> word_of_int b \<longleftrightarrow> word_of_int (a - b) \<noteq> (0 :: 'a word)"
  by (metis eq_iff_diff_eq_0 wi_hom_sub)

lemma newer_seq_unwrapped:
  assumes "\<bar>a - b\<bar> < 2 ^ 15"
  shows "IsNewerSequenceNumber (word_of_int a) (word_of_int b) \<longleftrightarrow> b < a"
proof -
  have "(2 ^ (LENGTH(16) - 1) :: 16 word) = 0x8000" by simp
  with newer_iff_positive [of "a - b", where 'a = 16] assms show ?thesis
    by (simp only: IsNewerSequenceNumber_def word_of_int_neq wi_hom_sub) simp
qed

lemma newer_time_unwrapped:
  assumes "\<bar>a - b\<bar> < 2 ^ 31"
  shows "IsNewerTimestamp (word_of_int a) (word_of_int b) \<longleftrightarrow> b < a"
proof -
  have "(2 ^ (LENGTH(32) - 1) :: 32 word) = 0x80000000" by simp
  with newer_iff_positive [of "a - b", where 'a = 32] assms show ?thesis
    by (simp only: IsNewerTimestamp_def word_of_int_neq wi_hom_sub) simp
qed



end
