(* ===== verification/Rtp_Extension_Map.thy ===== *)
theory Rtp_Extension_Map
  imports C_Prelude
begin

text \<open>
  The registry of RTP header extensions, \<^verbatim>\<open>rtp_header_extension.h\<close> and
  \<^verbatim>\<open>rtp_header_extension.cc\<close>.  The \<^verbatim>\<open>std::map\<close> from local identifiers to extensions is
  the list of its entries in key order, which is the order of its iterators; the locale
  \<open>ordered_dict\<close> states what the registry relies on of such a container.  A function with a status
  and an output parameter returns an \<open>option\<close>.  \<^verbatim>\<open>assert\<close> is compiled away.
\<close>

section \<open>An ordered dictionary\<close>

locale ordered_dict =
  fixes inv :: "'m \<Rightarrow> bool" and entries :: "'m \<Rightarrow> ('k::linorder \<times> 'v) list"
    and find :: "'m \<Rightarrow> 'k \<Rightarrow> 'v option" and put :: "'k \<Rightarrow> 'v \<Rightarrow> 'm \<Rightarrow> 'm" and erase :: "'k \<Rightarrow> 'm \<Rightarrow> 'm"
  assumes sorted: "inv m \<Longrightarrow> sorted_wrt (<) (map fst (entries m))"
    and find_entries: "inv m \<Longrightarrow> find m = map_of (entries m)"
    and inv_put: "inv m \<Longrightarrow> inv (put k v m)"
    and find_put: "inv m \<Longrightarrow> find (put k v m) = (find m)(k \<mapsto> v)"
    and inv_erase: "inv m \<Longrightarrow> inv (erase k m)"
    and find_erase: "inv m \<Longrightarrow> find (erase k m) = (find m)(k := None)"
begin

lemma distinct_keys: "inv m \<Longrightarrow> distinct (map fst (entries m))"
  using sorted strict_sorted_iff by blast

lemma find_iff: "inv m \<Longrightarrow> find m k = Some v \<longleftrightarrow> (k, v) \<in> set (entries m)"
  by (simp add: find_entries distinct_keys)

lemma inv_fold: "inv m \<Longrightarrow> inv (fold (\<lambda>(k, v). put k v) es m)"
  by (induction es arbitrary: m) (auto simp: inv_put)

text \<open>Copying the entries into a dictionary overrides it.\<close>

lemma find_fold:
  "inv m \<Longrightarrow> find (fold (\<lambda>(k, v). put k v) es m) = find m ++ map_of (rev es)"
  by (induction es arbitrary: m) (auto simp: inv_put find_put map_add_upd_left)

lemma entries_unique:
  assumes "inv m" "inv m'" "find m = find m'"
  shows "entries m = entries m'"
proof -
  have "set (entries m) = set (entries m')"
    using assms by (auto simp: find_iff [symmetric])
  moreover have "sorted (map fst (entries m))" "sorted (map fst (entries m'))"
    using assms sorted strict_sorted_iff by blast+
  ultimately show ?thesis
    using distinct_keys assms by (intro map_sorted_distinct_set_unique [of fst]) (auto simp: distinct_map inj_on_def)
qed

end

fun map_put :: "'k::linorder \<Rightarrow> 'v \<Rightarrow> ('k \<times> 'v) list \<Rightarrow> ('k \<times> 'v) list" where
  "map_put k v [] = [(k, v)]"
| "map_put k v ((k', v') # m) =
     (if k < k' then (k, v) # (k', v') # m else if k = k' then (k, v) # m else (k', v') # map_put k v m)"

definition map_erase :: "'k \<Rightarrow> ('k \<times> 'v) list \<Rightarrow> ('k \<times> 'v) list" where
  "map_erase k m = filter (\<lambda>(k', v). k' \<noteq> k) m"

abbreviation key_sorted :: "('k::linorder \<times> 'v) list \<Rightarrow> bool" where
  "key_sorted m \<equiv> sorted_wrt (<) (map fst m)"

lemma set_map_put: "set (map fst (map_put k v m)) = insert k (set (map fst m))"
  by (induction m rule: map_put.induct) auto

lemma key_sorted_put: "key_sorted m \<Longrightarrow> key_sorted (map_put k v m)"
proof (induction k v m rule: map_put.induct)
  case (2 k v k' v' m)
  then show ?case using set_map_put [of k v m] by (auto simp del: set_map simp add: image_iff)
qed simp

lemma map_of_put: "key_sorted m \<Longrightarrow> map_of (map_put k v m) = (map_of m)(k \<mapsto> v)"
  by (induction k v m rule: map_put.induct) (auto simp: fun_eq_iff)

lemma map_of_erase: "map_of (map_erase k m) = (map_of m)(k := None)"
  by (induction m) (auto simp: map_erase_def fun_eq_iff)

lemma key_sorted_erase: "key_sorted m \<Longrightarrow> key_sorted (map_erase k m)"
  by (induction m) (auto simp: map_erase_def)

interpretation std_map: ordered_dict key_sorted "\<lambda>m. m" map_of map_put map_erase
  by unfold_locales (simp_all add: key_sorted_put map_of_put map_of_erase key_sorted_erase)

section \<open>The registry\<close>

datatype RTPExtensionType =
  kRtpExtensionNone
| kRtpExtensionTransmissionTimeOffset
| kRtpExtensionAudioLevel
| kRtpExtensionAbsoluteSendTime
| kRtpExtensionVideoRotation
| kRtpExtensionTransportSequenceNumber

record HeaderExtension =
  ext_type :: RTPExtensionType
  ext_length :: nat

definition kRtpOneByteHeaderLength :: nat where
  "kRtpOneByteHeaderLength = 4"

fun extension_length :: "RTPExtensionType \<Rightarrow> nat" where
  "extension_length kRtpExtensionTransmissionTimeOffset = 4"
| "extension_length kRtpExtensionAudioLevel = 2"
| "extension_length kRtpExtensionAbsoluteSendTime = 4"
| "extension_length kRtpExtensionVideoRotation = 2"
| "extension_length kRtpExtensionTransportSequenceNumber = 3"
| "extension_length kRtpExtensionNone = 0"

definition new_HeaderExtension :: "RTPExtensionType \<Rightarrow> HeaderExtension" where
  "new_HeaderExtension extension_type =
     \<lparr>ext_type = extension_type, ext_length = extension_length extension_type\<rparr>"

type_synonym RtpHeaderExtensionMap = "(byte \<times> HeaderExtension) list"

fun Erase :: "RtpHeaderExtensionMap \<Rightarrow> RtpHeaderExtensionMap" where
  "Erase [] = []"
| "Erase (begin # m) = Erase m"

definition Register :: "RTPExtensionType \<Rightarrow> byte \<Rightarrow> RtpHeaderExtensionMap \<Rightarrow> int \<times> RtpHeaderExtensionMap" where
  "Register ty idn m =
     (if idn < 1 \<or> idn > 14 then (- 1, m)
      else case map_of m idn of
          Some e \<Rightarrow> if ext_type e \<noteq> ty then (- 1, m) else (0, m)
        | None \<Rightarrow> (0, map_put idn (new_HeaderExtension ty) m))"

fun GetId :: "RTPExtensionType \<Rightarrow> RtpHeaderExtensionMap \<Rightarrow> byte option" where
  "GetId ty [] = None"
| "GetId ty ((k, e) # m) = (if ext_type e = ty then Some k else GetId ty m)"

definition Deregister :: "RTPExtensionType \<Rightarrow> RtpHeaderExtensionMap \<Rightarrow> int \<times> RtpHeaderExtensionMap" where
  "Deregister ty m = (case GetId ty m of None \<Rightarrow> (0, m) | Some idn \<Rightarrow> (0, map_erase idn m))"

definition IsRegistered :: "RTPExtensionType \<Rightarrow> RtpHeaderExtensionMap \<Rightarrow> bool" where
  "IsRegistered ty m = list_ex (\<lambda>(k, e). ext_type e = ty) m"

definition GetType :: "byte \<Rightarrow> RtpHeaderExtensionMap \<Rightarrow> RTPExtensionType option" where
  "GetType idn m = map_option ext_type (map_of m idn)"

definition Word32Align :: "nat \<Rightarrow> nat" where
  "Word32Align sz = (let remainder = sz mod 4 in if remainder \<noteq> 0 then sz + 4 - remainder else sz)"

definition GetTotalLengthInBytes :: "RtpHeaderExtensionMap \<Rightarrow> nat" where
  "GetTotalLengthInBytes m =
     (let len = foldl (\<lambda>len (k, e). len + ext_length e) 0 m;
          len = (if len > 0 then len + kRtpOneByteHeaderLength else len)
      in Word32Align len)"

fun length_until :: "RTPExtensionType \<Rightarrow> nat \<Rightarrow> RtpHeaderExtensionMap \<Rightarrow> nat" where
  "length_until ty len [] = len"
| "length_until ty len ((k, e) # m) =
     (if ext_type e = ty then len else length_until ty ((len + ext_length e) mod 65536) m)"

definition GetLengthUntilBlockStartInBytes :: "RTPExtensionType \<Rightarrow> RtpHeaderExtensionMap \<Rightarrow> int" where
  "GetLengthUntilBlockStartInBytes ty m =
     (case GetId ty m of None \<Rightarrow> - 1 | Some idn \<Rightarrow> int (length_until ty kRtpOneByteHeaderLength m))"

definition Size :: "RtpHeaderExtensionMap \<Rightarrow> int" where
  "Size m = int (length m)"

definition First :: "RtpHeaderExtensionMap \<Rightarrow> RTPExtensionType" where
  "First m = (case m of [] \<Rightarrow> kRtpExtensionNone | (k, e) # _ \<Rightarrow> ext_type e)"

text \<open>\<open>from_key\<close> is the rest of the container from the position of \<^verbatim>\<open>find(idn)\<close> on.\<close>

definition from_key :: "byte \<Rightarrow> RtpHeaderExtensionMap \<Rightarrow> RtpHeaderExtensionMap" where
  "from_key idn m = dropWhile (\<lambda>(k, e). k \<noteq> idn) m"

definition Next :: "RTPExtensionType \<Rightarrow> RtpHeaderExtensionMap \<Rightarrow> RTPExtensionType" where
  "Next ty m = (case GetId ty m of None \<Rightarrow> kRtpExtensionNone
     | Some idn \<Rightarrow> (case from_key idn m of
           (_ # (k, e) # _) \<Rightarrow> ext_type e
         | _ \<Rightarrow> kRtpExtensionNone))"

definition GetCopy :: "RtpHeaderExtensionMap \<Rightarrow> RtpHeaderExtensionMap \<Rightarrow> RtpHeaderExtensionMap" where
  "GetCopy m target = foldl (\<lambda>t (k, e). snd (Register (ext_type e) k t)) target m"


section \<open>Invariant\<close>

abbreviation types_of :: "RtpHeaderExtensionMap \<Rightarrow> RTPExtensionType list" where
  "types_of m \<equiv> map (\<lambda>(k, e). ext_type e) m"

definition entry_ok :: "byte \<times> HeaderExtension \<Rightarrow> bool" where
  "entry_ok ke = (case ke of (k, e) \<Rightarrow> 1 \<le> k \<and> k \<le> 14 \<and> ext_type e \<noteq> kRtpExtensionNone \<and>
     e = new_HeaderExtension (ext_type e))"

definition emap_inv :: "RtpHeaderExtensionMap \<Rightarrow> bool" where
  "emap_inv m \<longleftrightarrow> key_sorted m \<and> list_all entry_ok m"

text \<open>The registries that the interface can produce; registering \<^verbatim>\<open>kRtpExtensionNone\<close> fails an
  assertion of \<^verbatim>\<open>HeaderExtension\<close>.\<close>

inductive emap_reach :: "RtpHeaderExtensionMap \<Rightarrow> bool" where
  reach_new: "emap_reach []"
| reach_register: "emap_reach m \<Longrightarrow> ty \<noteq> kRtpExtensionNone \<Longrightarrow> emap_reach (snd (Register ty idn m))"
| reach_deregister: "emap_reach m \<Longrightarrow> emap_reach (snd (Deregister ty m))"
| reach_erase: "emap_reach m \<Longrightarrow> emap_reach (Erase m)"

lemma one_le_byte [simp]: "(1 :: byte) \<le> k \<longleftrightarrow> k \<noteq> 0"
  by (simp flip: linorder_not_less)

lemma set_put_subset: "set (map_put k v m) \<subseteq> insert (k, v) (set m)"
  by (induction k v m rule: map_put.induct) auto

lemma new_HeaderExtension_sel [simp]:
  "ext_type (new_HeaderExtension ty) = ty" "ext_length (new_HeaderExtension ty) = extension_length ty"
  by (simp_all add: new_HeaderExtension_def)

lemma emap_inv_Nil [simp]: "emap_inv []"
  by (simp add: emap_inv_def)

lemma emap_inv_Register:
  assumes "emap_inv m" "ty \<noteq> kRtpExtensionNone"
  shows "emap_inv (snd (Register ty idn m))"
proof (cases "idn < 1 \<or> idn > 14 \<or> map_of m idn \<noteq> None")
  case True
  with assms show ?thesis by (auto simp: Register_def)
next
  case False
  then have "snd (Register ty idn m) = map_put idn (new_HeaderExtension ty) m"
    by (auto simp: Register_def)
  moreover have "entry_ok (idn, new_HeaderExtension ty)"
    using False assms(2) by (auto simp: entry_ok_def not_less)
  ultimately show ?thesis
    using assms(1) set_put_subset [of idn "new_HeaderExtension ty" m]
    by (auto simp: emap_inv_def list_all_iff key_sorted_put)
qed

lemma emap_inv_erase: "emap_inv m \<Longrightarrow> emap_inv (map_erase k m)"
  using key_sorted_erase [of m k] by (auto simp: emap_inv_def list_all_iff map_erase_def)

lemma Erase_Nil [simp]: "Erase m = []"
  by (induction m) simp_all

lemma emap_reach_inv: "emap_reach m \<Longrightarrow> emap_inv m"
proof (induction rule: emap_reach.induct)
  case (reach_deregister m ty)
  then show ?case by (auto simp: Deregister_def emap_inv_erase split: option.splits)
qed (simp_all add: emap_inv_Register)

section \<open>The registry as a finite map\<close>

definition emap_abs :: "RtpHeaderExtensionMap \<Rightarrow> byte \<Rightarrow> RTPExtensionType option" where
  "emap_abs m = (\<lambda>idn. GetType idn m)"

lemma GetId_iff:
  assumes "key_sorted m"
  shows "GetId ty m = Some idn \<longleftrightarrow> emap_abs m idn = Some ty \<and> (\<forall>idn' < idn. emap_abs m idn' \<noteq> Some ty)"
  using assms
proof (induction m)
  case (Cons ke m)
  obtain k e where ke: "ke = (k, e)" by (cases ke)
  from Cons.prems ke have above: "emap_abs m j = None" if "j \<le> k" for j
    using that by (auto simp: emap_abs_def GetType_def map_of_eq_None_iff image_iff)
  have abs: "emap_abs ((k, e) # m) j = (if j = k then Some (ext_type e) else emap_abs m j)" for j
    by (simp add: emap_abs_def GetType_def)
  from Cons ke have IH: "GetId ty m = Some idn \<longleftrightarrow>
      emap_abs m idn = Some ty \<and> (\<forall>idn' < idn. emap_abs m idn' \<noteq> Some ty)" by simp
  show ?case
  proof (cases "ext_type e = ty")
    case True
    then show ?thesis using above abs ke
      by (auto simp: not_less) (metis not_less_iff_gr_or_eq option.distinct(1) order.order_iff_strict)+
  next
    case False
    have "emap_abs m idn' \<noteq> Some ty" if "idn' \<le> k" for idn'
      using above [OF that] by simp
    with False abs ke IH show ?thesis by (metis GetId.simps(2) option.inject order_refl)
  qed
qed (simp add: emap_abs_def GetType_def)

lemma GetId_None: "GetId ty m = None \<longleftrightarrow> ty \<notin> set (types_of m)"
proof (induction m)
  case (Cons ke m)
  then show ?case by (cases ke) auto
qed simp

lemma IsRegistered_iff: "IsRegistered ty m \<longleftrightarrow> GetId ty m \<noteq> None"
  by (induction m) (auto simp: IsRegistered_def)

lemma Register_abs:
  assumes "key_sorted m"
  shows "case Register ty idn m of (r, m') \<Rightarrow>
       if 1 \<le> idn \<and> idn \<le> 14 \<and> emap_abs m idn \<in> {None, Some ty}
       then r = 0 \<and> emap_abs m' = (emap_abs m)(idn \<mapsto> ty) else r = - 1 \<and> m' = m"
  using assms
  by (auto simp: Register_def emap_abs_def GetType_def map_of_put fun_eq_iff not_less split: option.splits)

lemma Deregister_abs:
  "case Deregister ty m of (r, m') \<Rightarrow> r = 0 \<and>
     emap_abs m' = (case GetId ty m of None \<Rightarrow> emap_abs m | Some i \<Rightarrow> (emap_abs m)(i := None))"
  by (auto simp: Deregister_def emap_abs_def GetType_def map_of_erase fun_eq_iff split: option.splits)

lemma map_put_last: "\<forall>k' \<in> set (map fst m). k' < k \<Longrightarrow> map_put k v m = m @ [(k, v)]"
  by (induction m) auto

lemma Register_last:
  assumes "emap_inv (pre @ (k, e) # post)"
  shows "snd (Register (ext_type e) k pre) = pre @ [(k, e)]"
proof -
  from assms have ke: "1 \<le> k" "k \<le> 14" "e = new_HeaderExtension (ext_type e)" and
    less: "\<forall>k' \<in> set (map fst pre). k' < k"
    by (auto simp: emap_inv_def entry_ok_def sorted_wrt_append)
  from less have "map_of pre k = None" by (auto simp: map_of_eq_None_iff)
  with ke less show ?thesis by (simp add: Register_def map_put_last not_less [symmetric])
qed

lemma GetCopy_append:
  "emap_inv (pre @ post) \<Longrightarrow> foldl (\<lambda>t (k, e). snd (Register (ext_type e) k t)) pre post = pre @ post"
proof (induction post arbitrary: pre)
  case (Cons ke post)
  obtain k e where ke: "ke = (k, e)" by (cases ke)
  with Cons.prems have "snd (Register (ext_type e) k pre) = pre @ [(k, e)]" by (simp add: Register_last)
  with Cons.IH [of "pre @ [(k, e)]"] Cons.prems ke show ?case by simp
qed simp

lemma GetCopy_same: "emap_inv m \<Longrightarrow> GetCopy m [] = m"
  using GetCopy_append [of "[]" m] by (simp add: GetCopy_def)


lemma Size_card: "key_sorted m \<Longrightarrow> Size m = int (card (dom (emap_abs m)))"
proof -
  assume "key_sorted m"
  then have "distinct (map fst m)" by (rule std_map.distinct_keys)
  moreover have "dom (emap_abs m) = set (map fst m)"
    by (simp add: emap_abs_def GetType_def dom_map_of_conv_image_fst [symmetric] dom_def)
  ultimately show ?thesis by (simp add: Size_def distinct_card del: set_map)
qed

lemma registered_ran: "key_sorted m \<Longrightarrow> IsRegistered ty m \<longleftrightarrow> ty \<in> ran (emap_abs m)"
  by (force simp: IsRegistered_def list_ex_iff ran_def emap_abs_def GetType_def std_map.find_iff)

text \<open>C10.  Every registry built through the interface is in key order with identifiers 1 to 14 and
  the block length of its type at each of them, and it behaves as the finite map from identifiers to
  types: registering adds the pair unless the identifier is out of range or taken by another type,
  when it fails without a change; \<^verbatim>\<open>GetId\<close> finds the smallest identifier of a type and
  \<^verbatim>\<open>Deregister\<close> removes that one only; the size is the number of identifiers and
  a copy is equal to the original.\<close>

theorem extension_registry_refines_map:
  assumes "emap_reach m" "ty \<noteq> kRtpExtensionNone"
  shows "emap_inv m \<and>
    (case Register ty idn m of (r, m') \<Rightarrow>
       if 1 \<le> idn \<and> idn \<le> 14 \<and> emap_abs m idn \<in> {None, Some ty}
       then r = 0 \<and> emap_abs m' = (emap_abs m)(idn \<mapsto> ty) else r = - 1 \<and> m' = m) \<and>
    (GetId ty m = Some i \<longleftrightarrow> emap_abs m i = Some ty \<and> (\<forall>i' < i. emap_abs m i' \<noteq> Some ty)) \<and>
    (IsRegistered ty m \<longleftrightarrow> ty \<in> ran (emap_abs m)) \<and>
    (case Deregister ty m of (r, m') \<Rightarrow> r = 0 \<and>
       emap_abs m' = (case GetId ty m of None \<Rightarrow> emap_abs m | Some i \<Rightarrow> (emap_abs m)(i := None))) \<and>
    Size m = int (card (dom (emap_abs m))) \<and> GetCopy m [] = m"
proof -
  have inv: "emap_inv m" by (rule emap_reach_inv [OF assms(1)])
  then have ks: "key_sorted m" by (simp add: emap_inv_def)
  show ?thesis
    using inv Register_abs [OF ks, where ty = ty and idn = idn] Deregister_abs [where ty = ty and m = m] GetId_iff [OF ks]
      registered_ran [OF ks] Size_card [OF ks] GetCopy_same [OF inv] by (intro conjI)
qed

theorem extension_registry_refines_map_witness:
  "case Register kRtpExtensionAudioLevel 3 (snd (Register kRtpExtensionAbsoluteSendTime 5 [])) of (r, m') \<Rightarrow>
     r = 0 \<and> emap_abs m' = [5 \<mapsto> kRtpExtensionAbsoluteSendTime, 3 \<mapsto> kRtpExtensionAudioLevel]"
proof -
  have "emap_reach (snd (Register kRtpExtensionAbsoluteSendTime 5 []))"
    by (simp add: reach_new reach_register)
  from extension_registry_refines_map [OF this, of kRtpExtensionAudioLevel 3]
  show ?thesis by (simp add: Register_def emap_abs_def GetType_def fun_eq_iff)
qed

section \<open>Iterating over the registry\<close>

text \<open>\<^verbatim>\<open>Next\<close> goes on from the first entry of the given type.\<close>

lemma GetId_split:
  "ext_type e \<notin> set (types_of pre) \<Longrightarrow> GetId (ext_type e) (pre @ (k, e) # post) = Some k"
proof (induction pre)
  case (Cons x pre)
  then show ?case by (cases x) auto
qed simp

lemma Next_split:
  assumes "key_sorted m" "m = pre @ (k, e) # post" "ext_type e \<notin> set (types_of pre)"
  shows "Next (ext_type e) m = First post"
proof -
  have "GetId (ext_type e) m = Some k"
    unfolding assms(2) by (rule GetId_split [OF assms(3)])
  moreover have "from_key k m = (k, e) # post"
    using assms(1) unfolding assms(2) from_key_def by (subst dropWhile_append2) (auto simp: sorted_wrt_append)
  ultimately show ?thesis
    by (auto simp: Next_def First_def split: list.splits)
qed

lemma First_types: "First m = (case types_of m of [] \<Rightarrow> kRtpExtensionNone | t # _ \<Rightarrow> t)"
  by (auto simp: First_def split: list.splits)

lemma iterate_distinct:
  assumes "key_sorted m" "distinct (types_of m)" "m = pre @ post"
  shows "((\<lambda>t. Next t m) ^^ length pre) (First m) = First post"
  using assms(3)
proof (induction pre arbitrary: post rule: rev_induct)
  case (snoc x pre)
  obtain k e where x: "x = (k, e)" by (cases x)
  from snoc have "((\<lambda>t. Next t m) ^^ length pre) (First m) = First (x # post)" by simp
  moreover have "Next (ext_type e) m = First post"
    using assms(1,2) snoc.prems x by (intro Next_split [of m pre k e]) auto
  ultimately show ?case using x by (simp add: First_def)
qed simp

lemma iterate_repeated:
  assumes "key_sorted m" "m = xs @ (k, e) # ys" "ext_type e \<in> set (types_of xs)"
  shows "((\<lambda>t. Next t m) ^^ n) (First m) \<in> set (types_of xs)"
proof (induction n)
  case 0
  from assms(2,3) show ?case by (cases xs) (auto simp: First_types)
next
  case (Suc n)
  let ?t = "((\<lambda>t. Next t m) ^^ n) (First m)"
  from Suc have "\<exists>x \<in> set xs. (\<lambda>(k, e). ext_type e) x = ?t" by force
  from split_list_first_prop [OF this] obtain pre x post where
    x: "xs = pre @ x # post" "(\<lambda>(k, e). ext_type e) x = ?t" "\<forall>y \<in> set pre. (\<lambda>(k, e). ext_type e) y \<noteq> ?t"
    by blast
  obtain k' e' where x': "x = (k', e')" by (cases x)
  have "Next (ext_type e') m = First (post @ (k, e) # ys)"
    using assms(1,2) x x' by (intro Next_split [of m pre k']) auto
  also have "\<dots> \<in> set (types_of xs)"
    using assms(3) x by (cases post) (auto simp: First_types)
  finally show ?case using x x' by simp
qed

lemma not_distinct_types:
  assumes "\<not> distinct (types_of m)"
  obtains xs k e ys where "m = xs @ (k, e) # ys" "ext_type e \<in> set (types_of xs)"
  using assms
proof (induction m arbitrary: thesis rule: rev_induct)
  case (snoc x m)
  obtain k e where x: "x = (k, e)" by (cases x)
  show ?case
  proof (cases "distinct (types_of m)")
    case True
    with snoc.prems(2) x have "ext_type e \<in> set (types_of m)" by auto
    with x show ?thesis by (intro snoc.prems(1) [of m k e "[]"]) auto
  next
    case False
    then show ?thesis using snoc.IH snoc.prems(1) by (metis append_Cons append_assoc)
  qed
qed simp

text \<open>C40.  The loop \<^verbatim>\<open>type = First(); while (type != kRtpExtensionNone) type = Next(type)\<close> over a
  registry ends exactly when no type is registered under two identifiers, and then it visits the
  extensions in the order of their identifiers.  (\<^verbatim>\<open>Register\<close> accepts a type a second time
  under another identifier, and the loop of \<^verbatim>\<open>BuildRTPHeaderExtension\<close> then never ends.)\<close>

theorem extension_iteration_terminates:
  assumes "emap_inv m"
  shows "((\<exists>n. ((\<lambda>t. Next t m) ^^ n) (First m) = kRtpExtensionNone) \<longleftrightarrow> distinct (types_of m)) \<and>
    (distinct (types_of m) \<longrightarrow>
      map (\<lambda>n. ((\<lambda>t. Next t m) ^^ n) (First m)) [0..<length m] = types_of m \<and>
      ((\<lambda>t. Next t m) ^^ length m) (First m) = kRtpExtensionNone)"
proof -
  from assms have ks: "key_sorted m" and ne: "kRtpExtensionNone \<notin> set (types_of m)"
    by (auto simp: emap_inv_def list_all_iff entry_ok_def)
  have visits: "map (\<lambda>n. ((\<lambda>t. Next t m) ^^ n) (First m)) [0..<length m] = types_of m \<and>
      ((\<lambda>t. Next t m) ^^ length m) (First m) = kRtpExtensionNone" if d: "distinct (types_of m)"
  proof
    show "map (\<lambda>n. ((\<lambda>t. Next t m) ^^ n) (First m)) [0..<length m] = types_of m"
    proof (rule nth_equalityI)
      fix n assume "n < length (map (\<lambda>n. ((\<lambda>t. Next t m) ^^ n) (First m)) [0..<length m])"
      then have n: "n < length m" by simp
      then have "First (drop n m) = types_of m ! n"
        by (simp add: First_def Cons_nth_drop_Suc [symmetric] split: prod.splits)
      with n iterate_distinct [OF ks d, of "take n m" "drop n m"]
      show "map (\<lambda>n. ((\<lambda>t. Next t m) ^^ n) (First m)) [0..<length m] ! n = types_of m ! n"
        by (simp add: min_def)
    qed simp
    from iterate_distinct [OF ks d, of m "[]"]
    show "((\<lambda>t. Next t m) ^^ length m) (First m) = kRtpExtensionNone" by (simp add: First_def)
  qed
  have "\<forall>n. ((\<lambda>t. Next t m) ^^ n) (First m) \<noteq> kRtpExtensionNone" if nd: "\<not> distinct (types_of m)"
  proof -
    from not_distinct_types [OF nd] obtain xs k e ys
      where m: "m = xs @ (k, e) # ys" "ext_type e \<in> set (types_of xs)" .
    from iterate_repeated [OF ks this] ne m(1) show ?thesis by (metis UnCI map_append set_append)
  qed
  with visits show ?thesis by blast
qed

theorem extension_iteration_terminates_witness:
  "(\<exists>n. ((\<lambda>t. Next t [(1, new_HeaderExtension kRtpExtensionAudioLevel)]) ^^ n)
      (First [(1, new_HeaderExtension kRtpExtensionAudioLevel)]) = kRtpExtensionNone) \<and>
   (let m = snd (Register kRtpExtensionAudioLevel 2 (snd (Register kRtpExtensionAudioLevel 1 [])))
    in \<nexists>n. ((\<lambda>t. Next t m) ^^ n) (First m) = kRtpExtensionNone)"
proof
  have "emap_inv [(1, new_HeaderExtension kRtpExtensionAudioLevel)]"
    by (simp add: emap_inv_def entry_ok_def)
  from extension_iteration_terminates [OF this]
  show "\<exists>n. ((\<lambda>t. Next t [(1, new_HeaderExtension kRtpExtensionAudioLevel)]) ^^ n)
      (First [(1, new_HeaderExtension kRtpExtensionAudioLevel)]) = kRtpExtensionNone" by force
  let ?m = "snd (Register kRtpExtensionAudioLevel 2 (snd (Register kRtpExtensionAudioLevel 1 [])))"
  have "emap_inv ?m" by (intro emap_inv_Register) simp_all
  from extension_iteration_terminates [OF this]
  have "(\<exists>n. ((\<lambda>t. Next t ?m) ^^ n) (First ?m) = kRtpExtensionNone) \<longleftrightarrow> distinct (types_of ?m)" by (rule conjunct1)
  also have "\<not> distinct (types_of ?m)" by (simp add: Register_def)
  finally show "let m = ?m in \<nexists>n. ((\<lambda>t. Next t m) ^^ n) (First m) = kRtpExtensionNone"
    unfolding Let_def by blast
qed

end
