(* ===== verification/Rtp_Parser.thy ===== *)
theory Rtp_Parser
  imports Rtp_Bytes Rtp_Extension_Map "HOL-Library.Monad_Syntax"
begin

text \<open>
  The RTP and RTCP header parser \<^verbatim>\<open>RtpHeaderParser\<close> of \<^verbatim>\<open>rtp_utility.cc\<close>.  The packet is the
  list of its bytes, a pointer into it an offset.  Every read of a byte goes through \<open>load\<close>: the
  result \<open>None\<close> of a parser is a read outside the packet, and \<open>Some (ok, header)\<close> its return
  value with the header it has filled in.
\<close>

section \<open>Headers\<close>

record RTPHeaderExtension =
  hasTransmissionTimeOffset :: bool
  transmissionTimeOffset :: "32 word"
  hasAbsoluteSendTime :: bool
  absoluteSendTime :: "32 word"
  hasTransportSequenceNumber :: bool
  transportSequenceNumber :: "16 word"
  hasAudioLevel :: bool
  audioLevel :: byte
  hasVideoRotation :: bool
  videoRotation :: byte

record RTPHeader =
  markerBit :: bool
  payloadType :: byte
  sequenceNumber :: "16 word"
  timestamp :: "32 word"
  ssrc :: "32 word"
  numCSRCs :: byte
  arrOfCSRCs :: "32 word list"
  paddingLength :: nat
  headerLength :: nat
  payload_type_frequency :: int
  extension :: RTPHeaderExtension

definition new_RTPHeaderExtension :: RTPHeaderExtension where
  "new_RTPHeaderExtension =
     \<lparr>hasTransmissionTimeOffset = False, transmissionTimeOffset = 0, hasAbsoluteSendTime = False,
      absoluteSendTime = 0, hasTransportSequenceNumber = False, transportSequenceNumber = 0,
      hasAudioLevel = False, audioLevel = 0, hasVideoRotation = False, videoRotation = 0\<rparr>"

definition kRtpCsrcSize :: nat where
  "kRtpCsrcSize = 15"

definition new_RTPHeader :: RTPHeader where
  "new_RTPHeader =
     \<lparr>markerBit = False, payloadType = 0, sequenceNumber = 0, timestamp = 0, ssrc = 0, numCSRCs = 0,
      arrOfCSRCs = replicate kRtpCsrcSize 0, paddingLength = 0, headerLength = 0,
      payload_type_frequency = 0, extension = new_RTPHeaderExtension\<rparr>"

section \<open>RTCP\<close>

definition RTCP :: "byte list \<Rightarrow> bool option" where
  "RTCP buf = (if length buf < 4 then Some False else do {
     b0 \<leftarrow> load1 buf 0;
     if drop_bit 6 b0 \<noteq> 2 then Some False else do {
       payloadType \<leftarrow> load1 buf 1;
       Some (payloadType \<in> set [192, 195, 200, 201, 202, 203, 204, 205, 206, 207])
     }})"

definition ParseRtcp :: "byte list \<Rightarrow> RTPHeader \<Rightarrow> (bool \<times> RTPHeader) option" where
  "ParseRtcp buf header = (if length buf < 8 then Some (False, header) else do {
     b0 \<leftarrow> load1 buf 0;
     if drop_bit 6 b0 \<noteq> 2 then Some (False, header) else do {
       PT \<leftarrow> load1 buf 1;
       b2 \<leftarrow> load1 buf 2;
       b3 \<leftarrow> load1 buf 3;
       let len = unat b2 * 256 + unat b3;
       w \<leftarrow> load buf 4 4;
       Some (True, header\<lparr>payloadType := PT, ssrc := ReadBigEndian4 w, headerLength := 4 + len * 4\<rparr>)
     }})"

section \<open>RTP\<close>

function ParsePaddingBytes :: "byte list \<Rightarrow> nat \<Rightarrow> nat \<Rightarrow> byte \<Rightarrow> byte option" where
  "ParsePaddingBytes buf ext_end ptr num_zero_bytes =
     (if ptr < ext_end then do {
        b \<leftarrow> load1 buf ptr;
        if b \<noteq> 0 then Some num_zero_bytes else ParsePaddingBytes buf ext_end (Suc ptr) (num_zero_bytes + 1)
      } else Some num_zero_bytes)"
  by pat_completeness auto
termination by (relation "measure (\<lambda>(buf, ext_end, ptr, n). ext_end - ptr)") auto

declare ParsePaddingBytes.simps [simp del]

text \<open>One iteration's \<^verbatim>\<open>switch\<close>; the flag is False when the function returns.\<close>

definition parse_element ::
  "RTPExtensionType \<Rightarrow> byte \<Rightarrow> byte list \<Rightarrow> nat \<Rightarrow> RTPHeader \<Rightarrow> (bool \<times> RTPHeader) option" where
  "parse_element ty len buf ptr header = (case ty of
     kRtpExtensionTransmissionTimeOffset \<Rightarrow>
       if len \<noteq> 2 then Some (False, header) else do {
         bs \<leftarrow> load buf ptr 3;
         Some (True, header\<lparr>extension := (extension header)
           \<lparr>transmissionTimeOffset := ReadBigEndian True 3 bs, hasTransmissionTimeOffset := True\<rparr>\<rparr>)}
   | kRtpExtensionAudioLevel \<Rightarrow>
       if len \<noteq> 0 then Some (False, header) else do {
         b \<leftarrow> load1 buf ptr;
         Some (True, header\<lparr>extension := (extension header)
           \<lparr>audioLevel := b, hasAudioLevel := True\<rparr>\<rparr>)}
   | kRtpExtensionAbsoluteSendTime \<Rightarrow>
       if len \<noteq> 2 then Some (False, header) else do {
         bs \<leftarrow> load buf ptr 3;
         Some (True, header\<lparr>extension := (extension header)
           \<lparr>absoluteSendTime := ReadBigEndian False 3 bs, hasAbsoluteSendTime := True\<rparr>\<rparr>)}
   | kRtpExtensionVideoRotation \<Rightarrow>
       if len \<noteq> 0 then Some (False, header) else do {
         b \<leftarrow> load1 buf ptr;
         Some (True, header\<lparr>extension := (extension header)
           \<lparr>hasVideoRotation := True, videoRotation := b\<rparr>\<rparr>)}
   | kRtpExtensionTransportSequenceNumber \<Rightarrow>
       if len \<noteq> 1 then Some (False, header) else do {
         bs \<leftarrow> load buf ptr 2;
         Some (True, header\<lparr>extension := (extension header)
           \<lparr>transportSequenceNumber := two_bytes bs, hasTransportSequenceNumber := True\<rparr>\<rparr>)}
   | kRtpExtensionNone \<Rightarrow> Some (False, header))"

function parse_elements ::
  "RtpHeaderExtensionMap \<Rightarrow> byte list \<Rightarrow> nat \<Rightarrow> nat \<Rightarrow> RTPHeader \<Rightarrow> RTPHeader option" where
  "parse_elements m buf ext_end ptr header =
     (if ptr < ext_end then do {
        b \<leftarrow> load1 buf ptr;
        let idn = drop_bit 4 (b AND 0xF0);
        let len = b AND 0x0F;
        if idn = 15 then Some header else do {
          (go, header) \<leftarrow> (case GetType idn m of
              None \<Rightarrow> Some (True, header)
            | Some ty \<Rightarrow> parse_element ty len buf (Suc ptr) header);
          if go then do {
            let ptr' = Suc ptr + (unat len + 1);
            num_bytes \<leftarrow> ParsePaddingBytes buf ext_end ptr' 0;
            parse_elements m buf ext_end (ptr' + unat num_bytes) header
          } else Some header
        }
      } else Some header)"
  by pat_completeness auto
termination by (relation "measure (\<lambda>(m, buf, ext_end, ptr, header). ext_end - ptr)") auto

declare parse_elements.simps [simp del]

definition ParseOneByteExtensionHeader ::
  "RTPHeader \<Rightarrow> RtpHeaderExtensionMap option \<Rightarrow> byte list \<Rightarrow> nat \<Rightarrow> nat \<Rightarrow> RTPHeader option" where
  "ParseOneByteExtensionHeader header ptrExtensionMap buf ext_end ptr =
     (case ptrExtensionMap of None \<Rightarrow> Some header | Some m \<Rightarrow> parse_elements m buf ext_end ptr header)"

text \<open>The loop over the contributing sources: \<open>n\<close> of them are left.\<close>

fun read_csrcs :: "byte list \<Rightarrow> nat \<Rightarrow> nat \<Rightarrow> nat \<Rightarrow> 32 word list \<Rightarrow> 32 word list option" where
  "read_csrcs buf ptr i 0 arr = Some arr"
| "read_csrcs buf ptr i (Suc n) arr = do {
     w \<leftarrow> load buf ptr 4;
     read_csrcs buf (ptr + 4) (Suc i) n (arr[i := ReadBigEndian4 w])
   }"

definition parse_extension ::
  "byte list \<Rightarrow> nat \<Rightarrow> RtpHeaderExtensionMap option \<Rightarrow> RTPHeader \<Rightarrow> (bool \<times> RTPHeader) option" where
  "parse_extension buf ptr ptrExtensionMap header =
     (let remain = length buf - ptr
      in if remain < 4 then Some (False, header) else do {
        let header = header\<lparr>headerLength := headerLength header + 4\<rparr>;
        w1 \<leftarrow> load buf ptr 2;
        let definedByProfile = (ReadBigEndian2 w1 :: 16 word);
        w2 \<leftarrow> load buf (ptr + 2) 2;
        let XLen = unat (ReadBigEndian2 w2 :: 16 word) * 4;
        if remain < 4 + XLen then Some (False, header) else do {
          header \<leftarrow> (if definedByProfile = 0xBEDE
             then ParseOneByteExtensionHeader header ptrExtensionMap buf (ptr + 4 + XLen) (ptr + 4)
             else Some header);
          Some (True, header\<lparr>headerLength := headerLength header + XLen\<rparr>)
        }
      })"

definition Parse ::
  "byte list \<Rightarrow> RTPHeader \<Rightarrow> RtpHeaderExtensionMap option \<Rightarrow> (bool \<times> RTPHeader) option" where
  "Parse buf header ptrExtensionMap = (if length buf < 12 then Some (False, header) else do {
     b0 \<leftarrow> load1 buf 0;
     b1 \<leftarrow> load1 buf 1;
     let V = drop_bit 6 b0;
     let P = (b0 AND 0x20 \<noteq> 0);
     let X = (b0 AND 0x10 \<noteq> 0);
     let CC = b0 AND 0x0F;
     let M = (b1 AND 0x80 \<noteq> 0);
     let PT = b1 AND 0x7F;
     sn \<leftarrow> load buf 2 2;
     ts \<leftarrow> load buf 4 4;
     ss \<leftarrow> load buf 8 4;
     if V \<noteq> 2 then Some (False, header) else do {
       let CSRCocts = unat CC * 4;
       if 12 + CSRCocts > length buf then Some (False, header) else do {
         padding \<leftarrow> (if P then load1 buf (length buf - 1) else Some 0);
         csrcs \<leftarrow> read_csrcs buf 12 0 (unat CC) (arrOfCSRCs header);
         let header = header\<lparr>markerBit := M, payloadType := PT, sequenceNumber := two_bytes sn,
           timestamp := ReadBigEndian4 ts, ssrc := ReadBigEndian4 ss, numCSRCs := CC,
           paddingLength := unat padding, arrOfCSRCs := csrcs, headerLength := 12 + CSRCocts,
           extension := (extension header)\<lparr>hasTransmissionTimeOffset := False, transmissionTimeOffset := 0,
             hasAbsoluteSendTime := False, absoluteSendTime := 0, hasAudioLevel := False, audioLevel := 0,
             hasVideoRotation := False, videoRotation := 0\<rparr>\<rparr>;
         if X then parse_extension buf (12 + CSRCocts) ptrExtensionMap header else Some (True, header)
       }
     }
   })"

text \<open>\<^verbatim>\<open>RtpHeaderParserImpl::Parse\<close> of \<^verbatim>\<open>rtp_header_parser.cc\<close> clears the header and parses
  with a copy of its registry.\<close>

definition parser_Parse :: "RtpHeaderExtensionMap \<Rightarrow> byte list \<Rightarrow> (bool \<times> RTPHeader) option" where
  "parser_Parse m packet = Parse packet new_RTPHeader (Some (GetCopy m []))"


section \<open>Reads stay in the packet\<close>

lemma ParsePaddingBytes_step:
  assumes "ptr < length buf"
  shows "ParsePaddingBytes buf ext_end ptr n =
    (if ptr < ext_end \<and> buf ! ptr = 0 then ParsePaddingBytes buf ext_end (Suc ptr) (n + 1) else Some n)"
  using assms by (subst ParsePaddingBytes.simps) simp

lemma ParsePaddingBytes_end [simp]: "ext_end \<le> ptr \<Longrightarrow> ParsePaddingBytes buf ext_end ptr n = Some n"
  by (subst ParsePaddingBytes.simps) simp

lemma ParsePaddingBytes_Some:
  "ext_end \<le> length buf \<Longrightarrow> \<exists>n. ParsePaddingBytes buf ext_end ptr n0 = Some n"
proof (induction "ext_end - ptr" arbitrary: ptr n0)
  case (Suc d)
  then show ?case by (simp add: ParsePaddingBytes_step)
qed simp

text \<open>The loop, with the effect of one element as a value.\<close>

definition element_step :: "RtpHeaderExtensionMap \<Rightarrow> byte list \<Rightarrow> nat \<Rightarrow> RTPHeader \<Rightarrow> (bool \<times> RTPHeader) option" where
  "element_step m buf ptr header =
     (let idn = drop_bit 4 (buf ! ptr AND 0xF0); len = buf ! ptr AND 0x0F
      in if idn = 15 then Some (False, header)
         else case GetType idn m of None \<Rightarrow> Some (True, header)
           | Some ty \<Rightarrow> parse_element ty len buf (Suc ptr) header)"

lemma parse_elements_end [simp]: "ext_end \<le> ptr \<Longrightarrow> parse_elements m buf ext_end ptr header = Some header"
  by (subst parse_elements.simps) simp

lemma parse_elements_step:
  assumes "ptr < ext_end" "ptr < length buf"
  shows "parse_elements m buf ext_end ptr header =
    (case element_step m buf ptr header of
       None \<Rightarrow> None
     | Some (go, header') \<Rightarrow>
         if go then let ptr' = Suc ptr + (unat (buf ! ptr AND 0x0F) + 1)
           in case ParsePaddingBytes buf ext_end ptr' 0 of None \<Rightarrow> None
            | Some n \<Rightarrow> parse_elements m buf ext_end (ptr' + unat n) header'
         else Some header')"
  using assms
  by (subst parse_elements.simps)
    (simp add: element_step_def Let_def bind_eq_None_conv split: option.split prod.split Option.bind_split)

text \<open>Parsing the elements changes the \<^verbatim>\<open>extension\<close> member only, and reads less than three
  bytes past the end of the extension.\<close>

lemma parse_element_Some:
  assumes "ptr + 3 \<le> length buf"
  shows "\<exists>go header'. parse_element ty len buf ptr header = Some (go, header')"
  using assms by (cases ty) (auto simp: parse_element_def)

lemma extension_same: "\<exists>x. header = header\<lparr>extension := x\<rparr>"
  by (rule exI [of _ "extension header"]) simp

lemma parse_element_frame:
  assumes "parse_element ty len buf ptr header = Some (go, header')"
  shows "\<exists>x. header' = header\<lparr>extension := x\<rparr>"
  using assms by (cases ty) (auto simp: parse_element_def bind_eq_Some_conv intro: extension_same split: if_splits)

lemma element_step_frame:
  assumes "element_step m buf ptr header = Some (go, header')"
  shows "\<exists>x. header' = header\<lparr>extension := x\<rparr>"
  using assms parse_element_frame extension_same
  by (auto simp: element_step_def Let_def split: if_splits option.splits)

lemma element_step_Some:
  assumes "Suc ptr + 3 \<le> length buf"
  shows "\<exists>go header'. element_step m buf ptr header = Some (go, header')"
  using parse_element_Some [OF assms] by (auto simp: element_step_def Let_def split: option.splits)

lemma parse_elements_Some:
  "ext_end + 3 \<le> length buf \<Longrightarrow> \<exists>x. parse_elements m buf ext_end ptr header = Some (header\<lparr>extension := x\<rparr>)"
proof (induction "ext_end - ptr" arbitrary: ptr header rule: less_induct)
  case less
  show ?case
  proof (cases "ptr < ext_end")
    case True
    with less.prems have in_buf: "Suc ptr + 3 \<le> length buf" "ptr < length buf" by simp_all
    from element_step_Some [OF in_buf(1)] obtain go header' where
      step: "element_step m buf ptr header = Some (go, header')" by blast
    from element_step_frame [OF this] obtain x where x: "header' = header\<lparr>extension := x\<rparr>" by blast
    define ptr' where "ptr' = Suc ptr + (unat (buf ! ptr AND 0x0F) + 1)"
    from ParsePaddingBytes_Some [of ext_end buf ptr' 0] less.prems obtain n where
      n: "ParsePaddingBytes buf ext_end ptr' 0 = Some n" by auto
    have "ext_end - (ptr' + unat n) < ext_end - ptr" using True by (simp add: ptr'_def)
    from less.hyps [OF this less.prems] obtain y where
      y: "parse_elements m buf ext_end (ptr' + unat n) header' = Some (header'\<lparr>extension := y\<rparr>)" by blast
    show ?thesis
      unfolding parse_elements_step [OF True in_buf(2)] step
      using n y x by (auto simp: ptr'_def Let_def)
  next
    case False
    with extension_same show ?thesis by simp
  qed
qed


lemma read_csrcs_Some:
  "ptr + 4 * n \<le> length buf \<Longrightarrow> \<exists>arr'. read_csrcs buf ptr i n arr = Some arr' \<and> length arr' = length arr"
proof (induction n arbitrary: ptr i arr)
  case (Suc n)
  then have "ptr + 4 + 4 * n \<le> length buf" by simp
  from Suc.IH [OF this] have "\<exists>arr'. read_csrcs buf (ptr + 4) (Suc i) n (arr[i := ReadBigEndian4 (take 4 (drop ptr buf))]) =
      Some arr' \<and> length arr' = length arr" by (metis length_list_update)
  with Suc.prems show ?case by simp
qed simp

lemma parse_extension_Some:
  assumes "ptr \<le> length buf" "headerLength header = ptr"
  obtains ok header' where "parse_extension buf ptr None header = Some (ok, header')"
    and "\<not> ok \<Longrightarrow> parse_extension buf ptr (Some m) header = Some (False, header')"
    and "ok \<Longrightarrow> headerLength header' + 3 \<le> length buf \<Longrightarrow>
      \<exists>x. parse_extension buf ptr (Some m) header = Some (True, header'\<lparr>extension := x\<rparr>)"
    and "ok \<Longrightarrow> headerLength header' \<le> length buf"
proof (cases "length buf - ptr < 4")
  case True
  then show thesis by (intro that [of False header]) (simp_all add: parse_extension_def)
next
  case False
  define XLen where "XLen = unat (ReadBigEndian2 (take 2 (drop (ptr + 2) buf)) :: 16 word) * 4"
  define header4 where "header4 = header\<lparr>headerLength := headerLength header + 4\<rparr>"
  define prof where "prof = (ReadBigEndian2 (take 2 (drop ptr buf)) :: 16 word)"
  have unfold: "parse_extension buf ptr em header =
      (if length buf - ptr < 4 + XLen then Some (False, header4) else do {
         h \<leftarrow> (if prof = 0xBEDE then ParseOneByteExtensionHeader header4 em buf (ptr + 4 + XLen) (ptr + 4)
           else Some header4);
         Some (True, h\<lparr>headerLength := headerLength h + XLen\<rparr>)})" for em
    using False by (simp add: parse_extension_def Let_def XLen_def header4_def prof_def)
  show thesis
  proof (cases "length buf - ptr < 4 + XLen")
    case True
    then show thesis by (intro that [of False header4]) (simp_all add: unfold)
  next
    case fits: False
    have None_case: "parse_extension buf ptr None header =
        Some (True, header4\<lparr>headerLength := headerLength header4 + XLen\<rparr>)"
      using fits by (simp add: unfold ParseOneByteExtensionHeader_def)
    have "\<exists>x. parse_extension buf ptr (Some m) header =
        Some (True, header4\<lparr>headerLength := headerLength header4 + XLen, extension := x\<rparr>)"
      if "ptr + 4 + XLen + 3 \<le> length buf"
    proof (cases "prof = 0xBEDE")
      case True
      from parse_elements_Some [OF that, of m "ptr + 4" header4] obtain x where
        "parse_elements m buf (ptr + 4 + XLen) (ptr + 4) header4 = Some (header4\<lparr>extension := x\<rparr>)" by blast
      then show ?thesis using fits True
        by (intro exI [of _ x]) (simp add: unfold ParseOneByteExtensionHeader_def)
    next
      case False
      then show ?thesis using fits extension_same [of "header4\<lparr>headerLength := headerLength header4 + XLen\<rparr>"]
        by (simp add: unfold)
    qed
    moreover have "headerLength header4 = ptr + 4" by (simp add: header4_def assms)
    ultimately show thesis using fits assms(1)
      by (intro that [OF None_case]) auto
  qed
qed

text \<open>The members that the fixed part of a packet determines.\<close>

definition fixed_members :: "byte list \<Rightarrow> 32 word list \<Rightarrow> RTPHeader \<Rightarrow> RTPHeader" where
  "fixed_members buf arr header =
     header\<lparr>markerBit := buf ! 1 AND 0x80 \<noteq> 0, payloadType := buf ! 1 AND 0x7F,
       sequenceNumber := two_bytes (take 2 (drop 2 buf)),
       timestamp := ReadBigEndian4 (take 4 (drop 4 buf)), ssrc := ReadBigEndian4 (take 4 (drop 8 buf)),
       numCSRCs := buf ! 0 AND 0x0F,
       paddingLength := unat (if buf ! 0 AND 0x20 \<noteq> 0 then buf ! (length buf - 1) else 0),
       arrOfCSRCs := arr, headerLength := 12 + unat (buf ! 0 AND 0x0F) * 4,
       extension := (extension header)\<lparr>hasTransmissionTimeOffset := False, transmissionTimeOffset := 0,
         hasAbsoluteSendTime := False, absoluteSendTime := 0, hasAudioLevel := False, audioLevel := 0,
         hasVideoRotation := False, videoRotation := 0\<rparr>\<rparr>"

lemma Parse_unfold:
  assumes "12 \<le> length buf" "drop_bit 6 (buf ! 0) = 2" "12 + unat (buf ! 0 AND 0x0F) * 4 \<le> length buf"
    and "read_csrcs buf 12 0 (unat (buf ! 0 AND 0x0F)) (arrOfCSRCs header) = Some arr"
  shows "Parse buf header em = (if buf ! 0 AND 0x10 \<noteq> 0
    then parse_extension buf (12 + unat (buf ! 0 AND 0x0F) * 4) em (fixed_members buf arr header)
    else Some (True, fixed_members buf arr header))"
proof -
  from assms(1) have "buf \<noteq> []" by auto
  then show ?thesis
    using assms by (simp add: Parse_def fixed_members_def Let_def)
qed

lemma Parse_rejected:
  assumes "length buf < 12 \<or> drop_bit 6 (buf ! 0) \<noteq> 2 \<or> 12 + unat (buf ! 0 AND 0x0F) * 4 > length buf"
  shows "Parse buf header em = Some (False, header)"
proof (cases "length buf < 12")
  case long: False
  then have "buf \<noteq> []" by auto
  with assms long show ?thesis by (auto simp: Parse_def Let_def)
qed (simp add: Parse_def)

lemma Parse_cases:
  obtains (rejected) "\<And>em. Parse buf header em = Some (False, header)"
  | (plain) header' where "\<And>em. Parse buf header em = Some (True, header')" "headerLength header' \<le> length buf"
  | (extended) header' ptr where "\<And>em. Parse buf header em = parse_extension buf ptr em header'"
      "ptr \<le> length buf" "headerLength header' = ptr"
proof (cases "length buf < 12 \<or> drop_bit 6 (buf ! 0) \<noteq> 2 \<or> 12 + unat (buf ! 0 AND 0x0F) * 4 > length buf")
  case True
  then show thesis by (intro rejected Parse_rejected)
next
  case False
  then have len: "12 \<le> length buf" "drop_bit 6 (buf ! 0) = 2" "12 + unat (buf ! 0 AND 0x0F) * 4 \<le> length buf"
    by simp_all
  then obtain arr where "read_csrcs buf 12 0 (unat (buf ! 0 AND 0x0F)) (arrOfCSRCs header) = Some arr"
    using read_csrcs_Some [of 12 "unat (buf ! 0 AND 0x0F)" buf] by (metis mult.commute)
  note P = Parse_unfold [OF len this]
  have hl: "headerLength (fixed_members buf arr header) = 12 + unat (buf ! 0 AND 0x0F) * 4"
    by (simp add: fixed_members_def)
  show thesis
  proof (cases "buf ! 0 AND 0x10 \<noteq> 0")
    case True
    with P hl len(3) show thesis by (intro extended [OF _ len(3)]) auto
  next
    case False
    with P hl len(3) show thesis by (intro plain [of "fixed_members buf arr header"]) auto
  qed
qed


lemma RTCP_total: "RTCP buf \<noteq> None"
  by (cases "buf = []") (auto simp: RTCP_def)

lemma ParseRtcp_total: "ParseRtcp buf header \<noteq> None"
  by (cases "buf = []") (auto simp: ParseRtcp_def)

lemma Parse_with_map:
  obtains ok header' where "Parse buf header None = Some (ok, header')"
    and "\<not> ok \<Longrightarrow> Parse buf header (Some m) = Some (False, header')"
    and "ok \<Longrightarrow> headerLength header' \<le> length buf"
    and "ok \<Longrightarrow> headerLength header' + 3 \<le> length buf \<Longrightarrow>
      \<exists>x. Parse buf header (Some m) = Some (True, header'\<lparr>extension := x\<rparr>)"
proof (cases rule: Parse_cases [of buf header])
  case rejected
  then show thesis by (intro that [of False header]) simp_all
next
  case (plain header')
  then show thesis by (intro that [of True header'] exI [of _ "extension header'"]) simp_all
next
  case (extended header' ptr)
  show thesis
    by (rule parse_extension_Some [OF extended(2,3), of m], rule that) (unfold extended(1))
qed

text \<open>The read past the packet: the extension ends with the first byte of a registered element.\<close>

lemma parse_reads_past_packet:
  "map_option fst (Parse [0x90, 96, 0, 1, 0, 0, 0, 2, 0, 0, 0, 3, 0xBE, 0xDE, 0, 1, 0, 0, 0, 0x12]
     new_RTPHeader None) = Some True"
  "Parse [0x90, 96, 0, 1, 0, 0, 0, 2, 0, 0, 0, 3, 0xBE, 0xDE, 0, 1, 0, 0, 0, 0x12] new_RTPHeader
     (Some [(1, new_HeaderExtension kRtpExtensionTransmissionTimeOffset)]) = None"
  by code_simp+

text \<open>C9.  Without an extension registry the parser never reads outside the packet and an accepted
  header lies inside it; the RTCP checks never do either.  With a registry it takes the same decision
  and finds the same members, only \<^verbatim>\<open>extension\<close> may differ, without a read outside the packet
  as long as three bytes follow the header.  When fewer follow, a registered element at the very end
  of the extension can make it read past the packet, as the last conjunct shows.\<close>

theorem parse_reads_in_bounds:
  "RTCP buf \<noteq> None \<and> ParseRtcp buf header \<noteq> None \<and>
   (case Parse buf header None of
      None \<Rightarrow> False
    | Some (False, header') \<Rightarrow> Parse buf header (Some m) = Some (False, header')
    | Some (True, header') \<Rightarrow> headerLength header' \<le> length buf \<and>
        (headerLength header' + 3 \<le> length buf \<longrightarrow>
          (\<exists>x. Parse buf header (Some m) = Some (True, header'\<lparr>extension := x\<rparr>)))) \<and>
   Parse [0x90, 96, 0, 1, 0, 0, 0, 2, 0, 0, 0, 3, 0xBE, 0xDE, 0, 1, 0, 0, 0, 0x12] new_RTPHeader
     (Some [(1, new_HeaderExtension kRtpExtensionTransmissionTimeOffset)]) = None"
proof (rule Parse_with_map [of buf header m])
  fix ok header'
  assume "Parse buf header None = Some (ok, header')"
    "\<not> ok \<Longrightarrow> Parse buf header (Some m) = Some (False, header')"
    "ok \<Longrightarrow> headerLength header' \<le> length buf"
    "ok \<Longrightarrow> headerLength header' + 3 \<le> length buf \<Longrightarrow>
      \<exists>x. Parse buf header (Some m) = Some (True, header'\<lparr>extension := x\<rparr>)"
  then show ?thesis using RTCP_total [of buf] ParseRtcp_total [of buf header] parse_reads_past_packet(2)
    by (cases ok) (simp_all only: option.case prod.case bool.case simp_thms, intro impI, simp only:)
qed

theorem parse_reads_in_bounds_witness:
  "\<exists>x. Parse [0x90, 96, 0, 1, 0, 0, 0, 2, 0, 0, 0, 3, 0xBE, 0xDE, 0, 1, 0x10, 7, 0, 0, 1, 2, 3] new_RTPHeader
     (Some [(1, new_HeaderExtension kRtpExtensionAudioLevel)]) = Some (True, x)"
proof -
  let ?p = "[0x90, 96, 0, 1, 0, 0, 0, 2, 0, 0, 0, 3, 0xBE, 0xDE, 0, 1, 0x10, 7, 0, 0, 1, 2, 3] :: byte list"
  have "\<exists>h. Parse ?p new_RTPHeader None = Some (True, h) \<and> headerLength h = 20"
    by (subst Parse_unfold) (simp_all add: fixed_members_def parse_extension_def Let_def
        ParseOneByteExtensionHeader_def Read2_generic InternalReadBigEndian_def or_bytes_def upt_2)
  with parse_reads_in_bounds [of ?p new_RTPHeader "[(1, new_HeaderExtension kRtpExtensionAudioLevel)]"]
  show ?thesis by force
qed

end
