(* ===== verification/Rtp_Sender.thy ===== *)
theory Rtp_Sender
  imports Rtp_Parser
begin

text \<open>
  The sender's side of the RTP header, from \<^verbatim>\<open>rtp_sender.cc\<close>: the state that the header is built
  from, the operations that set it, the construction of the header with its extension blocks, the
  in-place updates made just before a packet leaves, and the retransmission (RTX) packet.  Buffers are
  byte lists; a write goes through \<open>store\<close>, whose result \<open>None\<close> is a write outside the buffer.
\<close>

section \<open>State\<close>

datatype VideoRotation = kVideoRotation_0 | kVideoRotation_90 | kVideoRotation_180 | kVideoRotation_270

fun ConvertVideoRotationToCVOByte :: "VideoRotation \<Rightarrow> byte" where
  "ConvertVideoRotationToCVOByte kVideoRotation_0 = 0"
| "ConvertVideoRotationToCVOByte kVideoRotation_90 = 1"
| "ConvertVideoRotationToCVOByte kVideoRotation_180 = 2"
| "ConvertVideoRotationToCVOByte kVideoRotation_270 = 3"

definition ConvertCVOByteToVideoRotation :: "byte \<Rightarrow> VideoRotation" where
  "ConvertCVOByteToVideoRotation b =
     (if b = 0 then kVideoRotation_0 else if b = 1 then kVideoRotation_90
      else if b = 2 then kVideoRotation_180 else if b = 3 then kVideoRotation_270
      else kVideoRotation_0)"

record RTPSender =
  rtp_header_extension_map :: RtpHeaderExtensionMap
  transmission_time_offset :: "32 word"
  absolute_send_time :: "32 word"
  rotation :: VideoRotation
  transport_sequence_number :: "16 word"
  start_timestamp_forced :: bool
  start_timestamp :: "32 word"
  sequence_number_forced :: bool
  sequence_number :: "16 word"
  sender_ssrc :: "32 word"
  sender_timestamp :: "32 word"
  capture_time_ms :: int
  last_timestamp_time_ms :: int
  media_has_been_sent :: bool
  last_packet_marker_bit :: bool
  sending_media :: bool
  csrcs :: "32 word list"
  ssrc_rtx :: "32 word"
  sequence_number_rtx :: "16 word"
  payload_type_rtx :: int

text \<open>The constructor, for the random numbers it draws.\<close>

definition new_RTPSender :: "32 word \<Rightarrow> 32 word \<Rightarrow> 16 word \<Rightarrow> 16 word \<Rightarrow> RTPSender" where
  "new_RTPSender ssrc0 ssrc1 rand0 rand1 =
     \<lparr>rtp_header_extension_map = [], transmission_time_offset = 0, absolute_send_time = 0,
      rotation = kVideoRotation_0, transport_sequence_number = 0, start_timestamp_forced = False,
      start_timestamp = 0, sequence_number_forced = False, sequence_number = (rand1 + 1) AND 0x7FFF,
      sender_ssrc = ssrc0, sender_timestamp = 0, capture_time_ms = 0, last_timestamp_time_ms = 0,
      media_has_been_sent = False, last_packet_marker_bit = False, sending_media = True, csrcs = [],
      ssrc_rtx = ssrc1, sequence_number_rtx = (rand0 + 1) AND 0x7FFF, payload_type_rtx = - 1\<rparr>"

definition SetTransmissionTimeOffset :: "32 word \<Rightarrow> RTPSender \<Rightarrow> int \<times> RTPSender" where
  "SetTransmissionTimeOffset off s =
     (if sint off > 0x800000 - 1 \<or> sint off < - (0x800000 - 1) then (- 1, s)
      else (0, s\<lparr>transmission_time_offset := off\<rparr>))"

definition SetAbsoluteSendTime :: "32 word \<Rightarrow> RTPSender \<Rightarrow> int \<times> RTPSender" where
  "SetAbsoluteSendTime t s = (if t > 0xFFFFFF then (- 1, s) else (0, s\<lparr>absolute_send_time := t\<rparr>))"

definition SetVideoRotation :: "VideoRotation \<Rightarrow> RTPSender \<Rightarrow> RTPSender" where
  "SetVideoRotation r s = s\<lparr>rotation := r\<rparr>"

definition SetTransportSequenceNumber :: "16 word \<Rightarrow> RTPSender \<Rightarrow> int \<times> RTPSender" where
  "SetTransportSequenceNumber n s = (0, s\<lparr>transport_sequence_number := n\<rparr>)"

definition RegisterRtpHeaderExtension :: "RTPExtensionType \<Rightarrow> byte \<Rightarrow> RTPSender \<Rightarrow> int \<times> RTPSender" where
  "RegisterRtpHeaderExtension ty idn s =
     (let (r, m) = Register ty idn (rtp_header_extension_map s) in (r, s\<lparr>rtp_header_extension_map := m\<rparr>))"

definition DeregisterRtpHeaderExtension :: "RTPExtensionType \<Rightarrow> RTPSender \<Rightarrow> int \<times> RTPSender" where
  "DeregisterRtpHeaderExtension ty s =
     (let (r, m) = Deregister ty (rtp_header_extension_map s) in (r, s\<lparr>rtp_header_extension_map := m\<rparr>))"

definition RtpHeaderExtensionTotalLength :: "RTPSender \<Rightarrow> nat" where
  "RtpHeaderExtensionTotalLength s = GetTotalLengthInBytes (rtp_header_extension_map s)"

definition RTPHeaderLength :: "RTPSender \<Rightarrow> nat" where
  "RTPHeaderLength s = 12 + 4 * length (csrcs s) + RtpHeaderExtensionTotalLength s"

definition IncrementSequenceNumber :: "RTPSender \<Rightarrow> 16 word \<times> RTPSender" where
  "IncrementSequenceNumber s = (sequence_number s, s\<lparr>sequence_number := sequence_number s + 1\<rparr>)"

definition SetStartTimestamp :: "32 word \<Rightarrow> bool \<Rightarrow> RTPSender \<Rightarrow> RTPSender" where
  "SetStartTimestamp t force s =
     (if force then s\<lparr>start_timestamp_forced := True, start_timestamp := t\<rparr>
      else if \<not> start_timestamp_forced s then s\<lparr>start_timestamp := t\<rparr> else s)"

definition SetCsrcs :: "32 word list \<Rightarrow> RTPSender \<Rightarrow> RTPSender" where
  "SetCsrcs cs s = s\<lparr>csrcs := cs\<rparr>"

definition SetSequenceNumber :: "16 word \<Rightarrow> RTPSender \<Rightarrow> RTPSender" where
  "SetSequenceNumber seq s = s\<lparr>sequence_number_forced := True, sequence_number := seq\<rparr>"

record RtpState =
  st_sequence_number :: "16 word"
  st_start_timestamp :: "32 word"
  st_timestamp :: "32 word"
  st_capture_time_ms :: int
  st_last_timestamp_time_ms :: int
  st_media_has_been_sent :: bool

definition SetRtpState :: "RtpState \<Rightarrow> RTPSender \<Rightarrow> RTPSender" where
  "SetRtpState st s = (SetStartTimestamp (st_start_timestamp st) True s)
     \<lparr>sequence_number := st_sequence_number st, sequence_number_forced := True,
      sender_timestamp := st_timestamp st, capture_time_ms := st_capture_time_ms st,
      last_timestamp_time_ms := st_last_timestamp_time_ms st,
      media_has_been_sent := st_media_has_been_sent st\<rparr>"

definition GetRtpState :: "RTPSender \<Rightarrow> RtpState" where
  "GetRtpState s = \<lparr>st_sequence_number = sequence_number s, st_start_timestamp = start_timestamp s,
     st_timestamp = sender_timestamp s, st_capture_time_ms = capture_time_ms s,
     st_last_timestamp_time_ms = last_timestamp_time_ms s,
     st_media_has_been_sent = media_has_been_sent s\<rparr>"

definition SetRtxRtpState :: "RtpState \<Rightarrow> RTPSender \<Rightarrow> RTPSender" where
  "SetRtxRtpState st s = s\<lparr>sequence_number_rtx := st_sequence_number st\<rparr>"

section \<open>Building the header\<close>

text \<open>The five block writers return the length of the block.\<close>

definition BuildTransmissionTimeOffsetExtension :: "RTPSender \<Rightarrow> nat \<Rightarrow> byte list \<Rightarrow> (nat \<times> byte list) option" where
  "BuildTransmissionTimeOffsetExtension s ptr buf =
     (case GetId kRtpExtensionTransmissionTimeOffset (rtp_header_extension_map s) of
        None \<Rightarrow> Some (0, buf)
      | Some idn \<Rightarrow> do {
          buf \<leftarrow> store buf ptr [push_bit 4 idn + 2];
          buf \<leftarrow> store buf (ptr + 1) (WriteBigEndian True 3 (transmission_time_offset s));
          Some (4, buf) })"

definition BuildAudioLevelExtension :: "RTPSender \<Rightarrow> nat \<Rightarrow> byte list \<Rightarrow> (nat \<times> byte list) option" where
  "BuildAudioLevelExtension s ptr buf =
     (case GetId kRtpExtensionAudioLevel (rtp_header_extension_map s) of
        None \<Rightarrow> Some (0, buf)
      | Some idn \<Rightarrow> do {
          buf \<leftarrow> store buf ptr [push_bit 4 idn + 0];
          buf \<leftarrow> store buf (ptr + 1) [0x80];
          Some (2, buf) })"

definition BuildAbsoluteSendTimeExtension :: "RTPSender \<Rightarrow> nat \<Rightarrow> byte list \<Rightarrow> (nat \<times> byte list) option" where
  "BuildAbsoluteSendTimeExtension s ptr buf =
     (case GetId kRtpExtensionAbsoluteSendTime (rtp_header_extension_map s) of
        None \<Rightarrow> Some (0, buf)
      | Some idn \<Rightarrow> do {
          buf \<leftarrow> store buf ptr [push_bit 4 idn + 2];
          buf \<leftarrow> store buf (ptr + 1) (WriteBigEndian False 3 (absolute_send_time s));
          Some (4, buf) })"

definition BuildVideoRotationExtension :: "RTPSender \<Rightarrow> nat \<Rightarrow> byte list \<Rightarrow> (nat \<times> byte list) option" where
  "BuildVideoRotationExtension s ptr buf =
     (case GetId kRtpExtensionVideoRotation (rtp_header_extension_map s) of
        None \<Rightarrow> Some (0, buf)
      | Some idn \<Rightarrow> do {
          buf \<leftarrow> store buf ptr [push_bit 4 idn + 0];
          buf \<leftarrow> store buf (ptr + 1) [ConvertVideoRotationToCVOByte (rotation s)];
          Some (2, buf) })"

definition BuildTransportSequenceNumberExtension :: "RTPSender \<Rightarrow> nat \<Rightarrow> byte list \<Rightarrow> (nat \<times> byte list) option" where
  "BuildTransportSequenceNumberExtension s ptr buf =
     (case GetId kRtpExtensionTransportSequenceNumber (rtp_header_extension_map s) of
        None \<Rightarrow> Some (0, buf)
      | Some idn \<Rightarrow> do {
          buf \<leftarrow> store buf ptr [push_bit 4 idn + 1];
          buf \<leftarrow> store buf (ptr + 1) (WriteBigEndian2 False (transport_sequence_number s));
          Some (3, buf) })"

fun build_block :: "RTPSender \<Rightarrow> bool \<Rightarrow> RTPExtensionType \<Rightarrow> nat \<Rightarrow> byte list \<Rightarrow> (nat \<times> byte list) option" where
  "build_block s marker_bit kRtpExtensionTransmissionTimeOffset = BuildTransmissionTimeOffsetExtension s"
| "build_block s marker_bit kRtpExtensionAudioLevel = BuildAudioLevelExtension s"
| "build_block s marker_bit kRtpExtensionAbsoluteSendTime = BuildAbsoluteSendTimeExtension s"
| "build_block s marker_bit kRtpExtensionVideoRotation =
     (if marker_bit then BuildVideoRotationExtension s else (\<lambda>ptr buf. Some (0, buf)))"
| "build_block s marker_bit kRtpExtensionTransportSequenceNumber = BuildTransportSequenceNumberExtension s"
| "build_block s marker_bit kRtpExtensionNone = (\<lambda>ptr buf. Some (0, buf))"

text \<open>The loop over the registry, which need not end (\<open>extension_iteration_terminates\<close>): it has no
  result then, or when a block does not fit in the buffer.\<close>

partial_function (option) build_blocks ::
  "RTPSender \<Rightarrow> bool \<Rightarrow> nat \<Rightarrow> RTPExtensionType \<Rightarrow> nat \<Rightarrow> byte list \<Rightarrow> (nat \<times> byte list) option" where
  [code]: "build_blocks s marker_bit data_buffer ty total_block_length buf =
     (if ty = kRtpExtensionNone then Some (total_block_length, buf) else do {
        (block_length, buf) \<leftarrow> build_block s marker_bit ty (data_buffer + 4 + total_block_length) buf;
        build_blocks s marker_bit data_buffer (Next ty (rtp_header_extension_map s))
          ((total_block_length + block_length) mod 65536) buf
      })"

definition BuildRTPHeaderExtension :: "RTPSender \<Rightarrow> bool \<Rightarrow> nat \<Rightarrow> byte list \<Rightarrow> (nat \<times> byte list) option" where
  "BuildRTPHeaderExtension s marker_bit data_buffer buf =
     (if Size (rtp_header_extension_map s) \<le> 0 then Some (0, buf) else do {
        buf \<leftarrow> store buf data_buffer (WriteBigEndian2 False (0xBEDE :: 16 word));
        (total_block_length, buf) \<leftarrow>
          build_blocks s marker_bit data_buffer (First (rtp_header_extension_map s)) 0 buf;
        if total_block_length = 0 then Some (0, buf) else do {
          let padding_bytes = Word32Align total_block_length - total_block_length;
          buf \<leftarrow> (if padding_bytes > 0
             then store buf (data_buffer + 4 + total_block_length) (replicate padding_bytes 0) else Some buf);
          let total_block_length = (total_block_length + padding_bytes) mod 65536;
          buf \<leftarrow> store buf (data_buffer + 2) (WriteBigEndian2 False (of_nat (total_block_length div 4) :: 16 word));
          Some ((4 + total_block_length) mod 65536, buf)
        }
      })"

fun write_csrcs :: "byte list \<Rightarrow> nat \<Rightarrow> 32 word list \<Rightarrow> byte list option" where
  "write_csrcs buf ptr [] = Some buf"
| "write_csrcs buf ptr (c # cs) = do {
     buf \<leftarrow> store buf ptr (WriteBigEndian4 False c);
     write_csrcs buf (ptr + 4) cs }"

definition CreateRtpHeader ::
  "RTPSender \<Rightarrow> byte list \<Rightarrow> byte \<Rightarrow> 32 word \<Rightarrow> bool \<Rightarrow> 32 word \<Rightarrow> 16 word \<Rightarrow> 32 word list \<Rightarrow>
   (nat \<times> byte list) option" where
  "CreateRtpHeader s header payload_type ssrc0 marker_bit timestamp0 seq cs = do {
     header \<leftarrow> store header 0 [0x80];
     header \<leftarrow> store header 1 [payload_type];
     header \<leftarrow> (if marker_bit then store header 1 [header ! 1 OR 0x80] else Some header);
     header \<leftarrow> store header 2 (WriteBigEndian2 False seq);
     header \<leftarrow> store header 4 (WriteBigEndian4 False timestamp0);
     header \<leftarrow> store header 8 (WriteBigEndian4 False ssrc0);
     (rtp_header_length, header) \<leftarrow> (if length cs > 0 then do {
         header \<leftarrow> write_csrcs header 12 cs;
         header \<leftarrow> store header 0 [(header ! 0 AND 0xF0) OR of_nat (length cs)];
         Some (12 + 4 * length cs, header) }
       else Some (12, header));
     (len, header) \<leftarrow> BuildRTPHeaderExtension s marker_bit rtp_header_length header;
     if len > 0 then do {
       header \<leftarrow> store header 0 [header ! 0 OR 0x10];
       Some (rtp_header_length + len, header) }
     else Some (rtp_header_length, header)
   }"

text \<open>\<^verbatim>\<open>BuildRTPheader\<close>; \<open>now\<close> is the clock.  The last argument of the code,
  \<^verbatim>\<open>inc_sequence_number\<close>, has no effect: the number is always incremented.\<close>

definition BuildRTPheader ::
  "byte list \<Rightarrow> byte \<Rightarrow> bool \<Rightarrow> 32 word \<Rightarrow> int \<Rightarrow> bool \<Rightarrow> bool \<Rightarrow> int \<Rightarrow> RTPSender \<Rightarrow>
   (nat \<times> byte list \<times> RTPSender) option" where
  "BuildRTPheader data_buffer payload_type marker_bit capture_timestamp capture_time timestamp_provided
     inc_sequence_number now s =
     (let s1 = s\<lparr>sender_timestamp := (if timestamp_provided then start_timestamp s + capture_timestamp
              else sender_timestamp s + 1),
            last_timestamp_time_ms := now, sequence_number := sequence_number s + 1,
            capture_time_ms := capture_time, last_packet_marker_bit := marker_bit\<rparr>
      in do {
        (len, buf) \<leftarrow> CreateRtpHeader s1 data_buffer payload_type (sender_ssrc s) marker_bit
          (sender_timestamp s1) (sequence_number s) (csrcs s);
        Some (len, buf, s1) })"


section \<open>The bytes of a header\<close>

text \<open>The header as a value, block by block in the order of the identifiers; \<open>sent\<close> are the entries
  whose block is in a packet with the given marker bit.\<close>

definition sent :: "bool \<Rightarrow> RtpHeaderExtensionMap \<Rightarrow> RtpHeaderExtensionMap" where
  "sent marker_bit m = filter (\<lambda>(k, e). marker_bit \<or> ext_type e \<noteq> kRtpExtensionVideoRotation) m"

fun block_data :: "RTPSender \<Rightarrow> RTPExtensionType \<Rightarrow> byte list" where
  "block_data s kRtpExtensionTransmissionTimeOffset = WriteBigEndian True 3 (transmission_time_offset s)"
| "block_data s kRtpExtensionAudioLevel = [0x80]"
| "block_data s kRtpExtensionAbsoluteSendTime = WriteBigEndian False 3 (absolute_send_time s)"
| "block_data s kRtpExtensionVideoRotation = [ConvertVideoRotationToCVOByte (rotation s)]"
| "block_data s kRtpExtensionTransportSequenceNumber = WriteBigEndian2 False (transport_sequence_number s)"
| "block_data s kRtpExtensionNone = []"

definition block_bytes :: "RTPSender \<Rightarrow> byte \<times> HeaderExtension \<Rightarrow> byte list" where
  "block_bytes s ke = (case ke of (k, e) \<Rightarrow>
     (push_bit 4 k + of_nat (length (block_data s (ext_type e)) - 1)) # block_data s (ext_type e))"

definition all_blocks :: "RTPSender \<Rightarrow> RtpHeaderExtensionMap \<Rightarrow> byte list" where
  "all_blocks s m = concat (map (block_bytes s) m)"

definition padding_of :: "nat \<Rightarrow> nat" where
  "padding_of n = Word32Align n - n"

definition extension_bytes :: "RTPSender \<Rightarrow> bool \<Rightarrow> byte list" where
  "extension_bytes s marker_bit =
     (let bl = all_blocks s (sent marker_bit (rtp_header_extension_map s)); n = length bl
      in if bl = [] then []
         else WriteBigEndian2 False (0xBEDE :: 16 word) @
           WriteBigEndian2 False (of_nat ((n + padding_of n) div 4) :: 16 word) @ bl @ replicate (padding_of n) 0)"

definition header_bytes ::
  "RTPSender \<Rightarrow> byte \<Rightarrow> 32 word \<Rightarrow> bool \<Rightarrow> 32 word \<Rightarrow> 16 word \<Rightarrow> 32 word list \<Rightarrow> byte list" where
  "header_bytes s payload_type ssrc0 marker_bit timestamp0 seq cs =
     [0x80 OR of_nat (length cs) OR (if extension_bytes s marker_bit = [] then 0 else 0x10),
      (if marker_bit then payload_type OR 0x80 else payload_type)] @
     WriteBigEndian2 False seq @ WriteBigEndian4 False timestamp0 @ WriteBigEndian4 False ssrc0 @
     concat (map (WriteBigEndian4 False) cs) @ extension_bytes s marker_bit"

definition sender_inv :: "RTPSender \<Rightarrow> bool" where
  "sender_inv s \<longleftrightarrow> emap_inv (rtp_header_extension_map s) \<and>
     distinct (types_of (rtp_header_extension_map s)) \<and>
     - 0x7FFFFF \<le> sint (transmission_time_offset s) \<and> sint (transmission_time_offset s) \<le> 0x7FFFFF \<and>
     absolute_send_time s \<le> 0xFFFFFF \<and> length (csrcs s) \<le> kRtpCsrcSize"

lemma store_append:
  assumes "ptr = length xs" "length bs \<le> length rest"
  shows "store (xs @ rest) ptr bs = Some (xs @ bs @ drop (length bs) rest)"
  using assms by (simp add: store_def memcpy_def)

lemma memcpy_replace:
  "ptr = length pre \<Longrightarrow> length old = length bs \<Longrightarrow> memcpy (pre @ old @ post) ptr bs = pre @ bs @ post"
  by (simp add: memcpy_def)

lemma store_replace:
  assumes "ptr = length pre" "length old = length bs"
  shows "store (pre @ old @ post) ptr bs = Some (pre @ bs @ post)"
  using assms by (simp add: store_def memcpy_def)

lemma length_block_data: "length (block_data s ty) = extension_length ty - 1"
  by (cases ty) simp_all

lemma length_block_bytes: "entry_ok ke \<Longrightarrow> length (block_bytes s ke) = ext_length (snd ke)"
  by (cases "ext_type (snd ke)")
    (auto simp: block_bytes_def entry_ok_def length_block_data new_HeaderExtension_def split: prod.splits
      elim!: HeaderExtension.ext_inject [THEN iffD1, elim_format])


section \<open>The code writes these bytes\<close>

lemma store_block:
  assumes "ptr = length xs" "Suc (length d) \<le> length rest"
  shows "do { buf \<leftarrow> store (xs @ rest) ptr [b]; buf \<leftarrow> store buf (ptr + 1) d; Some (n, buf) } =
    Some (n, xs @ (b # d) @ drop (Suc (length d)) rest)"
proof -
  have "store (xs @ rest) ptr [b] = Some ((xs @ [b]) @ drop 1 rest)"
    using assms by (subst store_append) simp_all
  moreover have "store ((xs @ [b]) @ drop 1 rest) (ptr + 1) d = Some ((xs @ [b]) @ d @ drop (length d) (drop 1 rest))"
    using assms by (intro store_append) simp_all
  ultimately show ?thesis by simp
qed

lemma build_block_append:
  assumes "GetId ty (rtp_header_extension_map s) = Some k" "ty \<noteq> kRtpExtensionNone"
    and "marker_bit \<or> ty \<noteq> kRtpExtensionVideoRotation"
    and "ext_type e = ty" "ptr = length xs" "length (block_bytes s (k, e)) \<le> length rest"
  shows "build_block s marker_bit ty ptr (xs @ rest) =
    Some (length (block_bytes s (k, e)), xs @ block_bytes s (k, e) @ drop (length (block_bytes s (k, e))) rest)"
  using assms
  by (cases ty) (simp_all add: block_bytes_def store_block BuildTransmissionTimeOffsetExtension_def
      BuildAudioLevelExtension_def BuildAbsoluteSendTimeExtension_def BuildVideoRotationExtension_def
      BuildTransportSequenceNumberExtension_def del: One_nat_def bind.bind_lunit)


lemma build_blocks_None: "build_blocks s marker_bit base kRtpExtensionNone tot buf = Some (tot, buf)"
  by (subst build_blocks.simps) simp

lemma all_blocks_simps [simp]:
  "all_blocks s [] = []" "all_blocks s (ke # m) = block_bytes s ke @ all_blocks s m"
  by (simp_all add: all_blocks_def)

lemma build_blocks_append:
  assumes inv: "emap_inv m" "distinct (types_of m)" "m = rtp_header_extension_map s"
  shows "m = pre @ post \<Longrightarrow> length xs = base + 4 + tot \<Longrightarrow>
    tot + length (all_blocks s (sent marker_bit post)) < 65536 \<Longrightarrow>
    length (all_blocks s (sent marker_bit post)) \<le> length rest \<Longrightarrow>
    build_blocks s marker_bit base (First post) tot (xs @ rest) =
      Some (tot + length (all_blocks s (sent marker_bit post)),
        xs @ all_blocks s (sent marker_bit post) @ drop (length (all_blocks s (sent marker_bit post))) rest)"
proof (induction post arbitrary: pre tot xs rest)
  case Nil
  then show ?case by (simp add: First_def build_blocks_None sent_def)
next
  case (Cons ke post)
  obtain k e where ke: "ke = (k, e)" by (cases ke)
  let ?ty = "ext_type e"
  from inv(1) Cons.prems(1) ke have ty: "?ty \<noteq> kRtpExtensionNone" and ks: "key_sorted m"
    by (auto simp: emap_inv_def entry_ok_def)
  from inv(2) Cons.prems(1) ke have new: "?ty \<notin> set (types_of pre)" by auto
  have id: "GetId ?ty m = Some k" using GetId_split [OF new] Cons.prems(1) ke by simp
  have nxt: "Next ?ty m = First post" using Next_split [OF ks _ new] Cons.prems(1) ke by simp
  have first: "First (ke # post) = ?ty" by (simp add: First_def ke)
  show ?case
  proof (cases "marker_bit \<or> ?ty \<noteq> kRtpExtensionVideoRotation")
    case True
    let ?b = "block_bytes s (k, e)"
    from True have sent: "sent marker_bit (ke # post) = ke # sent marker_bit post"
      by (simp add: sent_def ke)
    have "build_block s marker_bit ?ty (base + 4 + tot) (xs @ rest) =
        Some (length ?b, xs @ ?b @ drop (length ?b) rest)"
      using True id ty Cons.prems(2,4) sent ke inv(3) by (intro build_block_append) simp_all
    moreover have "build_blocks s marker_bit base (First post) (tot + length ?b) ((xs @ ?b) @ drop (length ?b) rest) =
        Some (tot + length ?b + length (all_blocks s (sent marker_bit post)),
          (xs @ ?b) @ all_blocks s (sent marker_bit post) @
            drop (length (all_blocks s (sent marker_bit post))) (drop (length ?b) rest))"
      using Cons.prems sent ke by (intro Cons.IH [of "pre @ [ke]"]) simp_all
    moreover have "(tot + length ?b) mod 65536 = tot + length ?b"
      using Cons.prems(3) sent ke by simp
    ultimately show ?thesis
      using ty nxt inv(3) unfolding first sent
      by (subst build_blocks.simps) (simp add: ke add.assoc add.commute [of "length (all_blocks s _)"])
  next
    case False
    then have sent: "sent marker_bit (ke # post) = sent marker_bit post"
      and block: "build_block s marker_bit ?ty p buf = Some (0, buf)" for p buf
      by (auto simp: sent_def ke)
    have "tot mod 65536 = tot" using Cons.prems(3) by simp
    moreover have "build_blocks s marker_bit base (First post) tot (xs @ rest) =
        Some (tot + length (all_blocks s (sent marker_bit post)),
          xs @ all_blocks s (sent marker_bit post) @ drop (length (all_blocks s (sent marker_bit post))) rest)"
      using Cons.prems sent ke by (intro Cons.IH [of "pre @ [ke]"]) simp_all
    ultimately show ?thesis
      using ty nxt inv(3) by (subst build_blocks.simps) (simp add: first sent block)
  qed
qed


lemma Word32Align_alt: "Word32Align n = 4 * ((n + 3) div 4)"
  unfolding Word32Align_def Let_def by presburger

lemma padding_of_less: "padding_of n < 4"
  unfolding padding_of_def Word32Align_alt by presburger

lemma Word32Align_padding: "Word32Align n = n + padding_of n"
  unfolding padding_of_def Word32Align_alt by presburger

lemma Word32Align_mono: "n \<le> k \<Longrightarrow> Word32Align n \<le> Word32Align k"
  unfolding Word32Align_alt by (intro mult_le_mono2 div_le_mono) simp

lemma length_all_blocks:
  "list_all entry_ok m \<Longrightarrow> length (all_blocks s m) = (\<Sum>ke \<leftarrow> m. ext_length (snd ke))"
  by (induction m) (simp_all add: length_block_bytes)

lemma length_all_blocks_sent:
  "list_all entry_ok m \<Longrightarrow> length (all_blocks s (sent marker_bit m)) \<le> (\<Sum>ke \<leftarrow> m. ext_length (snd ke))"
  by (induction m) (auto simp: sent_def length_block_bytes)

lemma GetTotalLengthInBytes_alt:
  "GetTotalLengthInBytes m = (let n = (\<Sum>ke \<leftarrow> m. ext_length (snd ke)) in if n > 0 then 4 + Word32Align n else 0)"
proof -
  have "foldl (\<lambda>len (k, e). len + ext_length e) a m = a + (\<Sum>ke \<leftarrow> m. ext_length (snd ke))" for a
    by (induction m arbitrary: a) (auto simp: add.assoc)
  moreover have "Word32Align (if n > 0 then n + 4 else n) = (if n > 0 then 4 + Word32Align n else 0)" for n
    unfolding Word32Align_alt by presburger
  ultimately show ?thesis
    by (simp only: GetTotalLengthInBytes_def kRtpOneByteHeaderLength_def Let_def add_0)
qed

lemma length_types:
  assumes "emap_inv m" "distinct (types_of m)"
  shows "length m \<le> 5"
proof -
  have "ty \<in> {kRtpExtensionTransmissionTimeOffset, kRtpExtensionAudioLevel, kRtpExtensionAbsoluteSendTime,
      kRtpExtensionVideoRotation, kRtpExtensionTransportSequenceNumber}" (is "ty \<in> ?T")
    if "ty \<noteq> kRtpExtensionNone" for ty
    using that by (cases ty) simp_all
  then have "set (types_of m) \<subseteq> ?T"
    using assms(1) by (auto simp: emap_inv_def list_all_iff entry_ok_def split: prod.splits)
  then have "card (set (types_of m)) \<le> card ?T" by (intro card_mono) simp_all
  with distinct_card [OF assms(2)] show ?thesis by simp
qed

lemma extension_length_le: "extension_length ty \<le> 4"
  by (cases ty) simp_all

lemma ext_length_pos: "entry_ok ke \<Longrightarrow> 0 < ext_length (snd ke)"
proof -
  assume ok: "entry_ok ke"
  have "0 < extension_length ty" if "ty \<noteq> kRtpExtensionNone" for ty using that by (cases ty) simp_all
  with ok show ?thesis by (auto simp: entry_ok_def) (metis new_HeaderExtension_sel(2))
qed

lemma total_block_length_le:
  assumes "emap_inv m" "distinct (types_of m)"
  shows "(\<Sum>ke \<leftarrow> m. ext_length (snd ke)) \<le> 20"
proof -
  have "ext_length (snd ke) \<le> 4" if "entry_ok ke" for ke
    using that extension_length_le by (auto simp: entry_ok_def) (metis new_HeaderExtension_sel(2))
  with assms(1) have "(\<Sum>ke \<leftarrow> m. ext_length (snd ke)) \<le> (\<Sum>ke \<leftarrow> m. 4)"
    by (intro sum_list_mono) (auto simp: emap_inv_def list_all_iff)
  also have "\<dots> = 4 * length m" by (simp add: sum_list_triv)
  finally show ?thesis using length_types [OF assms] by simp
qed

lemma BuildRTPHeaderExtension_append:
  assumes inv: "emap_inv m" "distinct (types_of m)" "m = rtp_header_extension_map s"
    and "base = length xs" "GetTotalLengthInBytes m \<le> length rest"
  shows "\<exists>junk. BuildRTPHeaderExtension s marker_bit base (xs @ rest) =
      Some (length (extension_bytes s marker_bit), xs @ extension_bytes s marker_bit @ junk) \<and>
    length (extension_bytes s marker_bit) + length junk = length rest"
proof (cases "m = []")
  case True
  with inv(3) show ?thesis
    by (auto simp: BuildRTPHeaderExtension_def Size_def extension_bytes_def sent_def)
next
  case False
  let ?bl = "all_blocks s (sent marker_bit m)"
  let ?n = "length ?bl"
  let ?sum = "\<Sum>ke \<leftarrow> m. ext_length (snd ke)"
  have ok: "list_all entry_ok m" using inv(1) by (simp add: emap_inv_def)
  from False ok have pos: "0 < ?sum"
    by (cases m) (auto dest: ext_length_pos)
  have n: "?n \<le> ?sum" "?n \<le> 20"
    using length_all_blocks_sent [OF ok, of s marker_bit] total_block_length_le [OF inv(1,2)] by simp_all
  have room: "4 + Word32Align ?sum \<le> length rest"
    using assms(5) pos by (simp add: GetTotalLengthInBytes_alt Let_def)
  moreover have "Word32Align ?n \<le> Word32Align ?sum" using n(1) by (rule Word32Align_mono)
  ultimately have room_n: "4 + (?n + padding_of ?n) \<le> length rest" by (simp add: Word32Align_padding)
  obtain r0 r1 r2 r3 rest' where rest: "rest = [r0, r1, r2, r3] @ rest'"
    using room by (cases rest; cases "tl rest"; cases "tl (tl rest)"; cases "tl (tl (tl rest))") auto
  let ?bede = "WriteBigEndian2 False (0xBEDE :: 16 word)"
  have w2: "length (WriteBigEndian2 False w) = 2" for w :: "16 word" by (rule u16f.length_enc)
  have s1: "store (xs @ rest) base ?bede = Some ((xs @ ?bede @ [r2, r3]) @ rest')"
    using assms(4) by (subst store_append) (simp_all add: rest w2)
  have s2: "build_blocks s marker_bit base (First m) 0 ((xs @ ?bede @ [r2, r3]) @ rest') =
      Some (?n, (xs @ ?bede @ [r2, r3]) @ ?bl @ drop ?n rest')"
    using build_blocks_append [OF inv, of "[]" m "xs @ ?bede @ [r2, r3]" base 0 marker_bit rest']
      assms(4) n(2) room_n by (simp add: w2 rest)
  show ?thesis
  proof (cases "?bl = []")
    case True
    then have "extension_bytes s marker_bit = []" using inv(3) by (simp add: extension_bytes_def)
    moreover have "BuildRTPHeaderExtension s marker_bit base (xs @ rest) =
        Some (0, xs @ [] @ (?bede @ [r2, r3] @ rest'))"
      using False s1 s2 inv(3) True by (simp add: BuildRTPHeaderExtension_def Size_def)
    ultimately show ?thesis by (auto simp: rest w2)
  next
    case nonempty: False
    let ?len = "WriteBigEndian2 False (of_nat ((?n + padding_of ?n) div 4) :: 16 word)"
    let ?pad = "replicate (padding_of ?n) (0 :: byte)"
    let ?junk = "drop (?n + padding_of ?n) rest'"
    have eb: "extension_bytes s marker_bit = ?bede @ ?len @ ?bl @ ?pad"
      using nonempty inv(3) by (simp add: extension_bytes_def Let_def)
    have s3: "store ((xs @ ?bede @ [r2, r3] @ ?bl) @ drop ?n rest') (base + 4 + ?n) ?pad =
          Some ((xs @ ?bede @ [r2, r3] @ ?bl) @ ?pad @ ?junk)"
      using assms(4) room_n by (subst store_append) (simp_all add: w2 rest add.commute)
    have s4: "store ((xs @ ?bede) @ [r2, r3] @ (?bl @ ?pad @ ?junk)) (base + 2) ?len =
        Some ((xs @ ?bede) @ ?len @ (?bl @ ?pad @ ?junk))"
      using assms(4) by (intro store_replace) (simp_all add: w2)
    have small: "?n + padding_of ?n \<le> 23" using n(2) padding_of_less [of ?n] by linarith
    have "BuildRTPHeaderExtension s marker_bit base (xs @ rest) =
        Some (length (extension_bytes s marker_bit), xs @ extension_bytes s marker_bit @ ?junk)"
      unfolding eb
      using False nonempty s1 s2 s3 s4 small
      by (cases "padding_of ?n = 0")
        (simp_all add: BuildRTPHeaderExtension_def inv(3) [symmetric] Size_def Let_def Word32Align_padding w2)
    moreover have "length (extension_bytes s marker_bit) + length ?junk = length rest"
      using room_n by (simp add: eb w2 rest)
    ultimately show ?thesis by blast
  qed
qed


lemma write_csrcs_append:
  "ptr = length xs \<Longrightarrow> 4 * length cs \<le> length rest \<Longrightarrow>
   write_csrcs (xs @ rest) ptr cs =
     Some (xs @ concat (map (WriteBigEndian4 False) cs) @ drop (4 * length cs) rest)"
proof (induction cs arbitrary: ptr xs rest)
  case (Cons c cs)
  have "store (xs @ rest) ptr (WriteBigEndian4 False c) = Some ((xs @ WriteBigEndian4 False c) @ drop 4 rest)"
    using Cons.prems by (subst store_append) (simp_all add: u32f.length_enc)
  then show ?case
    using Cons.IH [of "ptr + 4" "xs @ WriteBigEndian4 False c" "drop 4 rest"] Cons.prems
    by (simp add: u32f.length_enc add.commute)
qed simp

lemma store_first: "store (b # bs) 0 [x] = Some (x # bs)"
  by (simp add: store_def memcpy_def)

definition second_byte :: "bool \<Rightarrow> byte \<Rightarrow> byte" where
  "second_byte marker_bit payload_type = (if marker_bit then payload_type OR 0x80 else payload_type)"

lemma fixed_part:
  assumes "12 \<le> length buf"
  shows "do {
     header \<leftarrow> store buf 0 [0x80];
     header \<leftarrow> store header 1 [payload_type];
     header \<leftarrow> (if marker_bit then store header 1 [header ! 1 OR 0x80] else Some header);
     header \<leftarrow> store header 2 (WriteBigEndian2 False seq);
     header \<leftarrow> store header 4 (WriteBigEndian4 False timestamp0);
     header \<leftarrow> store header 8 (WriteBigEndian4 False ssrc0);
     k header } =
   k ((0x80 # second_byte marker_bit payload_type # WriteBigEndian2 False (seq :: 16 word) @
     WriteBigEndian4 False (timestamp0 :: 32 word) @ WriteBigEndian4 False (ssrc0 :: 32 word)) @ drop 12 buf)"
proof -
  let ?b1 = "second_byte marker_bit payload_type"
  have s0: "store buf 0 [0x80] = Some ([0x80] @ drop 1 buf)"
    using assms store_append [of 0 "[]" "[0x80]" buf] by simp
  have s1: "store ([0x80] @ drop 1 buf) 1 [payload_type] = Some ([0x80, payload_type] @ drop 2 buf)"
    using assms by (subst store_append) (simp_all add: numeral_2_eq_2)
  have s2: "(if marker_bit then store ([0x80, payload_type] @ drop 2 buf) 1 [([0x80, payload_type] @ drop 2 buf) ! 1 OR 0x80]
      else Some ([0x80, payload_type] @ drop 2 buf)) = Some ([0x80, ?b1] @ drop 2 buf)"
    using store_replace [of 1 "[0x80]" "[payload_type]" "[payload_type OR 0x80]" "drop 2 buf"]
    by (simp add: second_byte_def)
  have s3: "store ([0x80, ?b1] @ drop 2 buf) 2 (WriteBigEndian2 False seq) =
      Some (([0x80, ?b1] @ WriteBigEndian2 False seq) @ drop 4 buf)"
    using assms by (subst store_append) (simp_all add: u16f.length_enc)
  have s4: "store (([0x80, ?b1] @ WriteBigEndian2 False seq) @ drop 4 buf) 4 (WriteBigEndian4 False timestamp0) =
      Some (([0x80, ?b1] @ WriteBigEndian2 False seq @ WriteBigEndian4 False timestamp0) @ drop 8 buf)"
    using assms by (subst store_append) (simp_all add: u16f.length_enc u32f.length_enc)
  have s5: "store (([0x80, ?b1] @ WriteBigEndian2 False seq @ WriteBigEndian4 False timestamp0) @ drop 8 buf) 8
        (WriteBigEndian4 False ssrc0) =
      Some (([0x80, ?b1] @ WriteBigEndian2 False seq @ WriteBigEndian4 False timestamp0 @
        WriteBigEndian4 False ssrc0) @ drop 12 buf)"
    using assms by (subst store_append) (simp_all add: u16f.length_enc u32f.length_enc)
  show ?thesis unfolding s0 bind.bind_lunit s1 s2 s3 s4 s5 by simp
qed

lemma CreateRtpHeader_bytes:
  assumes inv: "emap_inv m" "distinct (types_of m)" "m = rtp_header_extension_map s"
    and "12 + 4 * length cs + GetTotalLengthInBytes m \<le> length buf"
  shows "\<exists>junk. CreateRtpHeader s buf payload_type ssrc0 marker_bit timestamp0 seq cs =
      Some (length (header_bytes s payload_type ssrc0 marker_bit timestamp0 seq cs),
        header_bytes s payload_type ssrc0 marker_bit timestamp0 seq cs @ junk) \<and>
    length (header_bytes s payload_type ssrc0 marker_bit timestamp0 seq cs) + length junk = length buf"
proof -
  let ?tail = "second_byte marker_bit payload_type # WriteBigEndian2 False seq @ WriteBigEndian4 False timestamp0 @
     WriteBigEndian4 False ssrc0"
  let ?cs = "concat (map (WriteBigEndian4 False) cs)"
  let ?eb = "extension_bytes s marker_bit"
  have lcs: "length (concat (map (WriteBigEndian4 False) cs)) = 4 * length cs" for cs :: "32 word list"
    by (induction cs) (simp_all add: u32f.length_enc)
  have ltail: "length ?tail = 11" by (simp add: u16f.length_enc u32f.length_enc)
  have cs_part: "(if length cs > 0 then do {
         header \<leftarrow> write_csrcs ((0x80 # ?tail) @ drop 12 buf) 12 cs;
         header \<leftarrow> store header 0 [(header ! 0 AND 0xF0) OR of_nat (length cs)];
         Some (12 + 4 * length cs, header) }
       else Some (12, (0x80 # ?tail) @ drop 12 buf)) =
     Some (12 + 4 * length cs, ((0x80 OR of_nat (length cs)) # ?tail @ ?cs) @ drop (12 + 4 * length cs) buf)"
  proof (cases "cs = []")
    case False
    have "write_csrcs ((0x80 # ?tail) @ drop 12 buf) 12 cs =
        Some ((0x80 # ?tail) @ ?cs @ drop (4 * length cs) (drop 12 buf))"
      using assms(4) ltail by (intro write_csrcs_append) simp_all
    with False show ?thesis by (simp add: store_first add.commute)
  qed simp
  have "GetTotalLengthInBytes m \<le> length (drop (12 + 4 * length cs) buf)"
    using assms(4) by simp
  moreover have "12 + 4 * length cs = length ((0x80 OR of_nat (length cs)) # ?tail @ ?cs)"
    using ltail lcs [of cs] by simp
  ultimately obtain junk where junk:
    "BuildRTPHeaderExtension s marker_bit (12 + 4 * length cs)
       (((0x80 OR of_nat (length cs)) # ?tail @ ?cs) @ drop (12 + 4 * length cs) buf) =
     Some (length ?eb, ((0x80 OR of_nat (length cs)) # ?tail @ ?cs) @ ?eb @ junk)"
    "length ?eb + length junk = length (drop (12 + 4 * length cs) buf)"
    using BuildRTPHeaderExtension_append [OF inv] by blast
  have hb: "header_bytes s payload_type ssrc0 marker_bit timestamp0 seq cs =
      (0x80 OR of_nat (length cs) OR (if ?eb = [] then 0 else 0x10)) # ?tail @ ?cs @ ?eb"
    by (simp add: header_bytes_def second_byte_def)
  have len12: "12 \<le> length buf" using assms(4) by simp
  have "CreateRtpHeader s buf payload_type ssrc0 marker_bit timestamp0 seq cs =
      Some (length (header_bytes s payload_type ssrc0 marker_bit timestamp0 seq cs),
        header_bytes s payload_type ssrc0 marker_bit timestamp0 seq cs @ junk)"
    unfolding CreateRtpHeader_def fixed_part [OF len12] cs_part bind.bind_lunit prod.case junk(1)
    using ltail lcs [of cs] by (cases "?eb = []") (simp_all add: hb store_first or.assoc)
  moreover have "length (header_bytes s payload_type ssrc0 marker_bit timestamp0 seq cs) + length junk = length buf"
    using junk(2) assms(4) ltail lcs [of cs] by (simp add: hb)
  ultimately show ?thesis by blast
qed

end
