(* ===== verification/Rtp_Roundtrip.thy ===== *)
theory Rtp_Roundtrip
  imports Rtp_Sender
begin

text \<open>
  The sender and the parser together: the parser finds in a header what the sender put there.
\<close>

section \<open>Fields\<close>

lemma load_at: "ptr = length xs \<Longrightarrow> length bs = n \<Longrightarrow> load (xs @ bs @ rest) ptr n = Some bs"
  by (simp add: load_def)

lemma load1_at: "ptr = length xs \<Longrightarrow> load1 (xs @ b # rest) ptr = Some b"
  by (simp add: load1_def nth_append)

lemma read_csrcs_written:
  "ptr = length xs \<Longrightarrow> i + length cs \<le> length arr \<Longrightarrow>
   read_csrcs (xs @ concat (map (WriteBigEndian4 False) cs) @ rest) ptr i (length cs) arr =
     Some (take i arr @ cs @ drop (i + length cs) arr)"
proof (induction cs arbitrary: ptr xs i arr)
  case (Cons c cs)
  have "load (xs @ WriteBigEndian4 False c @ concat (map (WriteBigEndian4 False) cs) @ rest) ptr 4 =
      Some (WriteBigEndian4 False c)"
    using Cons.prems(1) by (intro load_at) (simp_all add: u32f.length_enc)
  moreover have "read_csrcs ((xs @ WriteBigEndian4 False c) @ concat (map (WriteBigEndian4 False) cs) @ rest)
      (ptr + 4) (Suc i) (length cs) (arr[i := c]) =
      Some (take (Suc i) (arr[i := c]) @ cs @ drop (Suc i + length cs) (arr[i := c]))"
    using Cons.prems by (intro Cons.IH) (simp_all add: u32f.length_enc)
  moreover have "take (Suc i) (arr[i := c]) = take i arr @ [c]"
    using Cons.prems(2) by (simp add: take_Suc_conv_app_nth)
  ultimately show ?case by (simp add: u32f.dec_enc)
qed simp

lemma ParsePaddingBytes_zeros:
  "ParsePaddingBytes (xs @ replicate k 0 @ rest) (length xs + k) (length xs) n = Some (n + of_nat k)"
proof (induction k arbitrary: xs n)
  case (Suc k)
  have "ParsePaddingBytes ((xs @ [0]) @ replicate k 0 @ rest) (length (xs @ [0]) + k) (length (xs @ [0])) (n + 1) =
      Some (n + 1 + of_nat k)"
    by (rule Suc.IH)
  then show ?case by (subst ParsePaddingBytes_step) (simp_all add: nth_append add.assoc)
qed simp

section \<open>Elements\<close>

lemma identifier_cases:
  assumes "(k :: byte) \<noteq> 0" "k \<le> 14"
  shows "k \<in> set [1, 2, 3, 4, 5, 6, 7, 8, 9, 10, 11, 12, 13, 14]"
proof -
  have "unat k \<le> 14" using assms(2) by (simp add: word_le_nat_alt)
  moreover have "unat k \<noteq> 0" using assms(1) by (simp add: unat_eq_0)
  ultimately have "unat k \<in> set [1..<15]" by simp
  moreover have "[1..<15] = [1, 2, 3, 4, 5, 6, 7, 8, 9, 10, 11, 12, 13, 14 :: nat]" by (simp add: upt_rec)
  ultimately have "unat k \<in> set [1, 2, 3, 4, 5, 6, 7, 8, 9, 10, 11, 12, 13, 14]" by (simp only:)
  then have "(of_nat (unat k) :: byte) \<in> of_nat ` set [1, 2, 3, 4, 5, 6, 7, 8, 9, 10, 11, 12, 13, 14]" by (rule imageI)
  then show ?thesis by simp
qed

lemma element_header:
  assumes "(k :: byte) \<noteq> 0" "k \<le> 14" "len \<in> {0, 1, 2}"
  shows "drop_bit 4 ((push_bit 4 k + len) AND 0xF0) = k" "(push_bit 4 k + len) AND 0x0F = len"
    "push_bit 4 k + len \<noteq> 0"
  using identifier_cases [OF assms(1,2)] assms(3) by auto

text \<open>What an element of the sender's registry does to the parsed header.\<close>

fun apply_block :: "RTPSender \<Rightarrow> RTPExtensionType \<Rightarrow> RTPHeaderExtension \<Rightarrow> RTPHeaderExtension" where
  "apply_block s kRtpExtensionTransmissionTimeOffset x =
     x\<lparr>transmissionTimeOffset := transmission_time_offset s, hasTransmissionTimeOffset := True\<rparr>"
| "apply_block s kRtpExtensionAudioLevel x = x\<lparr>audioLevel := 0x80, hasAudioLevel := True\<rparr>"
| "apply_block s kRtpExtensionAbsoluteSendTime x =
     x\<lparr>absoluteSendTime := absolute_send_time s, hasAbsoluteSendTime := True\<rparr>"
| "apply_block s kRtpExtensionVideoRotation x =
     x\<lparr>hasVideoRotation := True, videoRotation := ConvertVideoRotationToCVOByte (rotation s)\<rparr>"
| "apply_block s kRtpExtensionTransportSequenceNumber x =
     x\<lparr>transportSequenceNumber := transport_sequence_number s, hasTransportSequenceNumber := True\<rparr>"
| "apply_block s kRtpExtensionNone x = x"

lemma parse_element_written:
  assumes "sender_inv s" "ty \<noteq> kRtpExtensionNone" "ptr = length xs"
  shows "parse_element ty (of_nat (length (block_data s ty) - 1)) (xs @ block_data s ty @ rest) ptr header =
    Some (True, header\<lparr>extension := apply_block s ty (extension header)\<rparr>)"
  using assms
  by (cases ty) (simp_all add: parse_element_def load_at load1_at u16f.length_enc s24f.length_enc
      u24f.length_enc s24f.dec_enc u24f.dec_enc sender_inv_def del: load_Some load1_Some)


lemma element_step_written:
  assumes inv: "sender_inv s" and ke: "(k, e) \<in> set (rtp_header_extension_map s)" "ptr = length xs"
  shows "element_step (rtp_header_extension_map s) (xs @ block_bytes s (k, e) @ rest) ptr header =
      Some (True, header\<lparr>extension := apply_block s (ext_type e) (extension header)\<rparr>)"
    and "unat ((xs @ block_bytes s (k, e) @ rest) ! ptr AND 0x0F) + 2 = length (block_bytes s (k, e))"
    and "block_bytes s (k, e) \<noteq> [] \<and> hd (block_bytes s (k, e)) \<noteq> 0"
proof -
  let ?ty = "ext_type e"
  let ?len = "of_nat (length (block_data s ?ty) - 1) :: byte"
  let ?b = "push_bit 4 k + ?len"
  from inv ke have ok: "k \<noteq> 0" "k \<le> 14" "?ty \<noteq> kRtpExtensionNone" and ks: "key_sorted (rtp_header_extension_map s)"
    by (auto simp: sender_inv_def emap_inv_def list_all_iff entry_ok_def)
  then have "?len \<in> {0, 1, 2} \<and> unat ?len + 1 = length (block_data s ?ty)"
    by (cases ?ty) (simp_all add: length_block_data)
  then have len: "?len \<in> {0, 1, 2}" "unat ?len + 1 = length (block_data s ?ty)" by blast+
  have bb: "block_bytes s (k, e) = ?b # block_data s ?ty" by (simp add: block_bytes_def)
  have at: "(xs @ block_bytes s (k, e) @ rest) ! ptr = ?b" using ke(2) by (simp add: bb nth_append)
  note hdr = element_header [OF ok(1,2) len(1)]
  have "GetType k (rtp_header_extension_map s) = Some ?ty"
    using std_map.find_iff [OF ks, THEN iffD2, OF ke(1)] by (simp add: GetType_def)
  moreover have "parse_element ?ty ?len (xs @ block_bytes s (k, e) @ rest) (Suc ptr) header =
      Some (True, header\<lparr>extension := apply_block s ?ty (extension header)\<rparr>)"
    using parse_element_written [OF inv ok(3), of "Suc ptr" "xs @ [?b]" rest] ke(2) by (simp add: bb)
  moreover have "k \<noteq> 15" using ok(2) by auto
  ultimately show "element_step (rtp_header_extension_map s) (xs @ block_bytes s (k, e) @ rest) ptr header =
      Some (True, header\<lparr>extension := apply_block s ?ty (extension header)\<rparr>)"
    unfolding element_step_def at hdr Let_def by simp
  show "unat ((xs @ block_bytes s (k, e) @ rest) ! ptr AND 0x0F) + 2 = length (block_bytes s (k, e))"
    unfolding at hdr unfolding bb list.size using len(2) by linarith
  show "block_bytes s (k, e) \<noteq> [] \<and> hd (block_bytes s (k, e)) \<noteq> 0"
    using hdr(3) by (simp add: bb)
qed

lemma parse_elements_written:
  assumes inv: "sender_inv s"
  shows "set es \<subseteq> set (rtp_header_extension_map s) \<Longrightarrow> ptr = length xs \<Longrightarrow> pad < 256 \<Longrightarrow> es \<noteq> [] \<or> pad = 0 \<Longrightarrow>
    parse_elements (rtp_header_extension_map s) (xs @ all_blocks s es @ replicate pad 0 @ rest)
      (length xs + length (all_blocks s es) + pad) ptr header =
    Some (header\<lparr>extension := fold (apply_block s) (types_of es) (extension header)\<rparr>)"
proof (induction es arbitrary: xs pad ptr header)
  case Nil
  then show ?case by simp
next
  case (Cons ke es)
  obtain k e where ke: "ke = (k, e)" by (cases ke)
  let ?m = "rtp_header_extension_map s"
  let ?b = "block_bytes s (k, e)"
  let ?header = "header\<lparr>extension := apply_block s (ext_type e) (extension header)\<rparr>"
  let ?after = "all_blocks s es @ replicate pad 0 @ rest"
  let ?stop = "length xs + length (all_blocks s (ke # es)) + pad"
  from Cons.prems(1) ke have mem: "(k, e) \<in> set ?m" by simp
  note step = element_step_written [OF inv mem Cons.prems(2)]
  have buf: "xs @ all_blocks s (ke # es) @ replicate pad 0 @ rest = xs @ ?b @ ?after" by (simp add: ke)
  have pos: "length ?b > 0" using step(3) by simp
  have "parse_elements ?m (xs @ ?b @ ?after) ?stop ptr header =
      (case ParsePaddingBytes (xs @ ?b @ ?after) ?stop (ptr + length ?b) 0 of None \<Rightarrow> None
       | Some n \<Rightarrow> parse_elements ?m (xs @ ?b @ ?after) ?stop (ptr + length ?b + unat n) ?header)"
  proof (subst parse_elements_step)
    show "ptr < ?stop" "ptr < length (xs @ ?b @ ?after)" using Cons.prems(2) pos by (simp_all add: ke)
    have "Suc ptr + (unat ((xs @ ?b @ ?after) ! ptr AND 0x0F) + 1) = ptr + length ?b" using step(2) [where rest = ?after] by linarith
    then show "(case element_step ?m (xs @ ?b @ ?after) ptr header of None \<Rightarrow> None
      | Some (go, header') \<Rightarrow> if go then let ptr' = Suc ptr + (unat ((xs @ ?b @ ?after) ! ptr AND 0x0F) + 1)
          in case ParsePaddingBytes (xs @ ?b @ ?after) ?stop ptr' 0 of None \<Rightarrow> None
            | Some n \<Rightarrow> parse_elements ?m (xs @ ?b @ ?after) ?stop (ptr' + unat n) header' else Some header') =
      (case ParsePaddingBytes (xs @ ?b @ ?after) ?stop (ptr + length ?b) 0 of None \<Rightarrow> None
       | Some n \<Rightarrow> parse_elements ?m (xs @ ?b @ ?after) ?stop (ptr + length ?b + unat n) ?header)"
      by (simp only: step(1) Let_def option.case prod.case if_True)
  qed
  also have "\<dots> = Some (?header\<lparr>extension := fold (apply_block s) (types_of es) (extension ?header)\<rparr>)"
  proof (cases es)
    case Nil
    have "ParsePaddingBytes ((xs @ ?b) @ replicate pad 0 @ rest) (length (xs @ ?b) + pad) (length (xs @ ?b)) 0 =
        Some (0 + of_nat pad)"
      by (rule ParsePaddingBytes_zeros)
    moreover have "unat (of_nat pad :: byte) = pad" using Cons.prems(3) by (simp add: unat_of_nat)
    ultimately show ?thesis using Cons.prems(2) Nil by (simp add: ke)
  next
    case (Cons ke2 es2)
    then obtain k2 e2 where ke2: "ke2 = (k2, e2)" by (cases ke2)
    with Cons.prems(1) Cons have "(k2, e2) \<in> set ?m" by simp
    from element_step_written(3) [OF inv this refl] obtain c cs where
      c: "block_bytes s (k2, e2) = c # cs" "c \<noteq> 0" by (cases "block_bytes s (k2, e2)") auto
    then have "(xs @ ?b @ ?after) ! (ptr + length ?b) = c"
      using Cons.prems(2) Cons ke2 by (simp add: nth_append)
    moreover have "ptr + length ?b < length (xs @ ?b @ ?after)"
      using Cons.prems(2) Cons ke2 c by simp
    ultimately have "ParsePaddingBytes (xs @ ?b @ ?after) ?stop (ptr + length ?b) 0 = Some 0"
      using c(2) by (subst ParsePaddingBytes_step) auto
    moreover have "parse_elements ?m ((xs @ ?b) @ ?after) (length (xs @ ?b) + length (all_blocks s es) + pad)
        (ptr + length ?b) ?header =
        Some (?header\<lparr>extension := fold (apply_block s) (types_of es) (extension ?header)\<rparr>)"
      using Cons.prems Cons by (intro Cons.IH) auto
    ultimately show ?thesis by (simp add: ke add.assoc)
  qed
  finally show ?case by (simp only: buf) (simp add: ke)
qed


section \<open>Headers\<close>

text \<open>The extension members that a header built with the given marker bit carries.\<close>

definition announced :: "RTPSender \<Rightarrow> bool \<Rightarrow> RTPHeaderExtension" where
  "announced s marker_bit = (let reg = (\<lambda>ty. IsRegistered ty (rtp_header_extension_map s));
       rot = (marker_bit \<and> reg kRtpExtensionVideoRotation)
     in \<lparr>hasTransmissionTimeOffset = reg kRtpExtensionTransmissionTimeOffset,
         transmissionTimeOffset = (if reg kRtpExtensionTransmissionTimeOffset then transmission_time_offset s else 0),
         hasAbsoluteSendTime = reg kRtpExtensionAbsoluteSendTime,
         absoluteSendTime = (if reg kRtpExtensionAbsoluteSendTime then absolute_send_time s else 0),
         hasTransportSequenceNumber = reg kRtpExtensionTransportSequenceNumber,
         transportSequenceNumber = (if reg kRtpExtensionTransportSequenceNumber then transport_sequence_number s else 0),
         hasAudioLevel = reg kRtpExtensionAudioLevel,
         audioLevel = (if reg kRtpExtensionAudioLevel then 0x80 else 0),
         hasVideoRotation = rot,
         videoRotation = (if rot then ConvertVideoRotationToCVOByte (rotation s) else 0)\<rparr>)"

lemma fold_apply_block:
  "fold (apply_block s) ts x =
     \<lparr>hasTransmissionTimeOffset = (kRtpExtensionTransmissionTimeOffset \<in> set ts \<or> hasTransmissionTimeOffset x),
      transmissionTimeOffset = (if kRtpExtensionTransmissionTimeOffset \<in> set ts then transmission_time_offset s
        else transmissionTimeOffset x),
      hasAbsoluteSendTime = (kRtpExtensionAbsoluteSendTime \<in> set ts \<or> hasAbsoluteSendTime x),
      absoluteSendTime = (if kRtpExtensionAbsoluteSendTime \<in> set ts then absolute_send_time s else absoluteSendTime x),
      hasTransportSequenceNumber = (kRtpExtensionTransportSequenceNumber \<in> set ts \<or> hasTransportSequenceNumber x),
      transportSequenceNumber = (if kRtpExtensionTransportSequenceNumber \<in> set ts then transport_sequence_number s
        else transportSequenceNumber x),
      hasAudioLevel = (kRtpExtensionAudioLevel \<in> set ts \<or> hasAudioLevel x),
      audioLevel = (if kRtpExtensionAudioLevel \<in> set ts then 0x80 else audioLevel x),
      hasVideoRotation = (kRtpExtensionVideoRotation \<in> set ts \<or> hasVideoRotation x),
      videoRotation = (if kRtpExtensionVideoRotation \<in> set ts then ConvertVideoRotationToCVOByte (rotation s)
        else videoRotation x)\<rparr>"
proof (induction ts arbitrary: x)
  case (Cons t ts)
  show ?case by (cases t) (simp_all add: Cons.IH)
qed simp

lemma registered_sent:
  "ty \<in> set (types_of (sent marker_bit m)) \<longleftrightarrow>
     IsRegistered ty m \<and> (marker_bit \<or> ty \<noteq> kRtpExtensionVideoRotation)"
  by (auto simp: sent_def IsRegistered_def list_ex_iff)

lemma fold_announced:
  "fold (apply_block s) (types_of (sent marker_bit (rtp_header_extension_map s))) new_RTPHeaderExtension =
     announced s marker_bit"
  unfolding fold_apply_block registered_sent announced_def Let_def new_RTPHeaderExtension_def by simp blast

lemma first_byte:
  assumes "n \<le> 15" "x = 0 \<or> x = (0x10 :: byte)"
  shows "drop_bit 6 (0x80 OR of_nat n OR x) = 2" "(0x80 OR of_nat n OR x) AND 0x0F = of_nat n"
    "(0x80 OR of_nat n OR x) AND 0x20 = 0" "(0x80 OR of_nat n OR x) AND 0x10 = x"
    "unat (of_nat n :: byte) = n"
proof -
  from assms(1) have "n \<in> set [0..<16]" by simp
  moreover have "[0..<16] = [0, 1, 2, 3, 4, 5, 6, 7, 8, 9, 10, 11, 12, 13, 14, 15 :: nat]" by (simp add: upt_rec)
  ultimately have "n \<in> set [0, 1, 2, 3, 4, 5, 6, 7, 8, 9, 10, 11, 12, 13, 14, 15]" by (simp only:)
  then show "drop_bit 6 (0x80 OR of_nat n OR x) = 2" "(0x80 OR of_nat n OR x) AND 0x0F = of_nat n"
    "(0x80 OR of_nat n OR x) AND 0x20 = 0" "(0x80 OR of_nat n OR x) AND 0x10 = x"
    "unat (of_nat n :: byte) = n"
    using assms(2) by auto
qed

lemma second_byte_fields:
  assumes "payload_type < 0x80"
  shows "(second_byte marker_bit payload_type AND 0x80 \<noteq> 0) = marker_bit"
    "second_byte marker_bit payload_type AND 0x7F = payload_type"
proof -
  have t: "take_bit 7 payload_type = payload_type"
    using assms by (intro take_bit_word_self) (simp add: word_less_nat_alt)
  then have "\<not> bit payload_type 7" by (metis bit_take_bit_iff less_irrefl)
  then show "(second_byte marker_bit payload_type AND 0x80 \<noteq> 0) = marker_bit"
    unfolding byte_msb by (auto simp: second_byte_def bit_or_iff)
  have "(0x7F :: byte) = mask 7" by (simp add: mask_eq_exp_minus_1)
  then show "second_byte marker_bit payload_type AND 0x7F = payload_type"
    by (simp only: take_bit_eq_mask [symmetric]) (simp add: second_byte_def t)
qed


lemma padded_words:
  assumes "n \<le> 20"
  shows "unat (of_nat ((n + padding_of n) div 4) :: 16 word) * 4 = n + padding_of n"
proof -
  have "4 dvd n + padding_of n" by (simp add: Word32Align_padding [symmetric] Word32Align_alt)
  moreover have "(n + padding_of n) div 4 < 65536" using assms padding_of_less [of n] by linarith
  ultimately show ?thesis by (simp add: unat_of_nat take_bit_nat_eq_self_iff)
qed

lemma parse_extension_written:
  assumes inv: "sender_inv s" and nonempty: "extension_bytes s marker_bit \<noteq> []" and "ptr = length xs"
  shows "parse_extension (xs @ extension_bytes s marker_bit @ rest) ptr (Some (rtp_header_extension_map s)) header =
    Some (True, header\<lparr>headerLength := headerLength header + length (extension_bytes s marker_bit),
      extension := fold (apply_block s) (types_of (sent marker_bit (rtp_header_extension_map s))) (extension header)\<rparr>)"
proof -
  let ?m = "rtp_header_extension_map s"
  let ?es = "sent marker_bit ?m"
  let ?bl = "all_blocks s ?es"
  let ?n = "length ?bl"
  let ?pad = "padding_of ?n"
  let ?bede = "WriteBigEndian2 False (0xBEDE :: 16 word)"
  let ?len = "WriteBigEndian2 False (of_nat ((?n + ?pad) div 4) :: 16 word)"
  have ok: "list_all entry_ok ?m" and em: "emap_inv ?m" "distinct (types_of ?m)"
    using inv by (simp_all add: sender_inv_def emap_inv_def)
  have n: "?n \<le> 20"
    using length_all_blocks_sent [OF ok, of s marker_bit] total_block_length_le [OF em] by simp
  from nonempty have "?bl \<noteq> []" by (auto simp: extension_bytes_def)
  then have es: "?es \<noteq> []" by auto
  have eb: "extension_bytes s marker_bit = ?bede @ ?len @ ?bl @ replicate ?pad 0"
    using \<open>?bl \<noteq> []\<close> by (simp add: extension_bytes_def Let_def)
  have w2: "length (WriteBigEndian2 False w) = 2" for w :: "16 word" by (rule u16f.length_enc)
  let ?buf = "xs @ ?bede @ ?len @ ?bl @ replicate ?pad 0 @ rest"
  have l1: "load ?buf ptr 2 = Some ?bede"
    using assms(3) by (intro load_at) (simp_all add: w2)
  have l2: "load ?buf (ptr + 2) 2 = Some ?len"
    using load_at [of "ptr + 2" "xs @ ?bede" ?len 2 "?bl @ replicate ?pad 0 @ rest"] assms(3) by (simp add: w2)
  let ?header = "header\<lparr>headerLength := headerLength header + 4\<rparr>"
  have "set ?es \<subseteq> set ?m" by (auto simp: sent_def)
  then have "parse_elements ?m ((xs @ ?bede @ ?len) @ ?bl @ replicate ?pad 0 @ rest)
      (length (xs @ ?bede @ ?len) + ?n + ?pad) (length (xs @ ?bede @ ?len)) ?header =
      Some (?header\<lparr>extension := fold (apply_block s) (types_of ?es) (extension ?header)\<rparr>)"
    using es padding_of_less [of ?n] by (intro parse_elements_written [OF inv]) auto
  then have pe: "parse_elements ?m ?buf (ptr + 4 + (?n + ?pad)) (ptr + 4) ?header =
      Some (?header\<lparr>extension := fold (apply_block s) (types_of ?es) (extension ?header)\<rparr>)"
    using assms(3) by (simp add: w2 add.assoc)
  show ?thesis
    unfolding eb append_assoc
    using l1 l2 pe assms(3)
    by (simp add: parse_extension_def ParseOneByteExtensionHeader_def Let_def w2 padded_words [OF n]
        u16f.dec_enc del: load_Some)
qed

lemma length_csrcs: "length (concat (map (WriteBigEndian4 False) (cs :: 32 word list))) = 4 * length cs"
  by (induction cs) (simp_all add: u32f.length_enc)

lemma Parse_header_bytes:
  assumes inv: "sender_inv s" and cs: "length cs \<le> kRtpCsrcSize" and pt: "payload_type < 0x80"
  shows "Parse (header_bytes s payload_type ssrc0 marker_bit timestamp0 seq cs @ payload) new_RTPHeader
      (Some (rtp_header_extension_map s)) =
    Some (True, \<lparr>markerBit = marker_bit, payloadType = payload_type, sequenceNumber = seq,
      timestamp = timestamp0, ssrc = ssrc0, numCSRCs = of_nat (length cs),
      arrOfCSRCs = cs @ replicate (kRtpCsrcSize - length cs) 0, paddingLength = 0,
      headerLength = length (header_bytes s payload_type ssrc0 marker_bit timestamp0 seq cs),
      payload_type_frequency = 0, extension = announced s marker_bit\<rparr>)"
proof -
  let ?eb = "extension_bytes s marker_bit"
  let ?x = "if ?eb = [] then 0 else 0x10 :: byte"
  let ?b0 = "0x80 OR of_nat (length cs) OR ?x :: byte"
  let ?b1 = "second_byte marker_bit payload_type"
  let ?w2 = "WriteBigEndian2 False seq"
  let ?w4 = "WriteBigEndian4 False timestamp0"
  let ?w5 = "WriteBigEndian4 False ssrc0"
  let ?cs = "concat (map (WriteBigEndian4 False) cs)"
  let ?arr = "cs @ replicate (kRtpCsrcSize - length cs) 0"
  define buf where "buf = header_bytes s payload_type ssrc0 marker_bit timestamp0 seq cs @ payload"
  have l2: "length ?w2 = 2" and l4: "length ?w4 = 4" "length ?w5 = 4"
    by (simp_all add: u16f.length_enc u32f.length_enc)
  obtain x2 x3 where w2: "?w2 = [x2, x3]" by (auto simp: WriteBigEndian2_def)
  obtain y4 y5 y6 y7 where w4: "?w4 = [y4, y5, y6, y7]" by (auto simp: WriteBigEndian4_def)
  obtain z4 z5 z6 z7 where w5: "?w5 = [z4, z5, z6, z7]" by (auto simp: WriteBigEndian4_def)
  have buf: "buf = ([?b0, ?b1] @ ?w2 @ ?w4 @ ?w5) @ ?cs @ ?eb @ payload"
    by (simp add: buf_def header_bytes_def second_byte_def)
  have n15: "length cs \<le> 15" using cs by (simp add: kRtpCsrcSize_def)
  have x: "?x = 0 \<or> ?x = 0x10" by simp
  have b0: "buf ! 0 = ?b0" and b1: "buf ! 1 = ?b1" and len: "12 + 4 * length cs \<le> length buf"
    by (simp_all add: buf l2 l4 length_csrcs)
  note fb = first_byte(1-4) [OF n15 x, folded b0] first_byte(5) [OF n15 x]
  have pieces: "take 2 (drop 2 buf) = ?w2" "take 4 (drop 4 buf) = ?w4" "take 4 (drop 8 buf) = ?w5"
    unfolding buf w2 w4 w5 by simp_all
  have "read_csrcs buf 12 0 (length cs) (arrOfCSRCs new_RTPHeader) = Some (take 0 (arrOfCSRCs new_RTPHeader) @
      cs @ drop (0 + length cs) (arrOfCSRCs new_RTPHeader))"
    unfolding buf using n15 by (intro read_csrcs_written) (simp_all add: l2 l4 new_RTPHeader_def kRtpCsrcSize_def)
  then have rd: "read_csrcs buf 12 0 (unat (buf ! 0 AND 0x0F)) (arrOfCSRCs new_RTPHeader) = Some ?arr"
    by (simp add: fb new_RTPHeader_def)
  let ?h = "fixed_members buf ?arr new_RTPHeader"
  have P: "Parse buf new_RTPHeader em = (if ?eb \<noteq> [] then parse_extension buf (12 + 4 * length cs) em ?h
      else Some (True, ?h))" for em
    using Parse_unfold [OF _ fb(1) _ rd, of em] len by (simp add: fb mult.commute)
  have h: "?h = \<lparr>markerBit = marker_bit, payloadType = payload_type, sequenceNumber = seq,
      timestamp = timestamp0, ssrc = ssrc0, numCSRCs = of_nat (length cs), arrOfCSRCs = ?arr, paddingLength = 0,
      headerLength = 12 + 4 * length cs, payload_type_frequency = 0, extension = new_RTPHeaderExtension\<rparr>"
    unfolding fixed_members_def pieces b1
    using second_byte_fields [OF pt]
    by (simp add: fb new_RTPHeader_def new_RTPHeaderExtension_def u32f.dec_enc mult.commute)
  have hl: "length (header_bytes s payload_type ssrc0 marker_bit timestamp0 seq cs) = 12 + 4 * length cs + length ?eb"
    by (simp add: header_bytes_def l2 l4 length_csrcs)
  show ?thesis
  proof (cases "?eb = []")
    case True
    then have "sent marker_bit (rtp_header_extension_map s) = []"
      by (auto simp: extension_bytes_def Let_def all_blocks_def block_bytes_def split: if_splits prod.splits)
        (metis list.set_intros(1) neq_Nil_conv surj_pair)
    then have "announced s marker_bit = new_RTPHeaderExtension" using fold_announced [of s marker_bit] by simp
    with True P h hl show ?thesis unfolding buf_def [symmetric] by simp
  next
    case False
    have "parse_extension buf (12 + 4 * length cs) (Some (rtp_header_extension_map s)) ?h =
        Some (True, ?h\<lparr>headerLength := headerLength ?h + length ?eb,
          extension := fold (apply_block s) (types_of (sent marker_bit (rtp_header_extension_map s))) (extension ?h)\<rparr>)"
      using parse_extension_written [OF inv False, of "12 + 4 * length cs" "[?b0, ?b1] @ ?w2 @ ?w4 @ ?w5 @ ?cs" payload ?h]
      by (simp add: buf l2 l4 length_csrcs)
    with False P show ?thesis unfolding buf_def [symmetric] by (simp add: h hl fold_announced)
  qed
qed


section \<open>Reachable senders\<close>

text \<open>The calls that change the state a header is built from.  The caller does not register a type
  twice or \<^verbatim>\<open>kRtpExtensionNone\<close>, and sets at most 15 contributing sources (an assertion of
  \<^verbatim>\<open>SetCsrcs\<close>).\<close>

inductive sender_reach :: "RTPSender \<Rightarrow> bool" where
  "sender_reach (new_RTPSender ssrc0 ssrc1 rand0 rand1)"
| "sender_reach s \<Longrightarrow> sender_reach (snd (SetTransmissionTimeOffset off s))"
| "sender_reach s \<Longrightarrow> sender_reach (snd (SetAbsoluteSendTime t s))"
| "sender_reach s \<Longrightarrow> sender_reach (SetVideoRotation r s)"
| "sender_reach s \<Longrightarrow> sender_reach (snd (SetTransportSequenceNumber n s))"
| "sender_reach s \<Longrightarrow> ty \<noteq> kRtpExtensionNone \<Longrightarrow> \<not> IsRegistered ty (rtp_header_extension_map s) \<Longrightarrow>
     sender_reach (snd (RegisterRtpHeaderExtension ty idn s))"
| "sender_reach s \<Longrightarrow> sender_reach (snd (DeregisterRtpHeaderExtension ty s))"
| "sender_reach s \<Longrightarrow> sender_reach (snd (IncrementSequenceNumber s))"
| "sender_reach s \<Longrightarrow> sender_reach (SetStartTimestamp t force s)"
| "sender_reach s \<Longrightarrow> length cs \<le> kRtpCsrcSize \<Longrightarrow> sender_reach (SetCsrcs cs s)"
| "sender_reach s \<Longrightarrow> sender_reach (SetSequenceNumber seq s)"
| "sender_reach s \<Longrightarrow> sender_reach (SetRtpState st s)"
| "sender_reach s \<Longrightarrow> sender_reach (SetRtxRtpState st s)"
| "sender_reach s \<Longrightarrow> BuildRTPheader buf payload_type marker_bit capture_timestamp capture_time
     timestamp_provided inc_sequence_number now s = Some (len, buf', s') \<Longrightarrow> sender_reach s'"

lemma types_of_put:
  "k \<notin> set (map fst m) \<Longrightarrow> set (types_of (map_put k e m)) = insert (ext_type e) (set (types_of m)) \<and>
    (distinct (types_of m) \<and> ext_type e \<notin> set (types_of m) \<longrightarrow> distinct (types_of (map_put k e m)))"
proof (induction m)
  case (Cons x m)
  obtain k' e' where x: "x = (k', e')" by (cases x)
  from Cons x have IH: "set (types_of (map_put k e m)) = insert (ext_type e) (set (types_of m))"
    "distinct (types_of m) \<and> ext_type e \<notin> set (types_of m) \<longrightarrow> distinct (types_of (map_put k e m))" by simp_all
  show ?case
  proof (cases "k < k'")
    case False
    with Cons.prems x have "map_put k e (x # m) = x # map_put k e m" by auto
    with IH x show ?thesis by (auto simp del: set_map)
  qed (simp add: x)
qed simp

lemma distinct_types_Register:
  assumes "distinct (types_of m)" "\<not> IsRegistered ty m"
  shows "distinct (types_of (snd (Register ty idn m)))"
proof -
  have "ty \<notin> set (types_of m)" using assms(2) by (auto simp: IsRegistered_def list_ex_iff)
  with assms(1) types_of_put [of idn m "new_HeaderExtension ty"] show ?thesis
    by (auto simp: Register_def map_of_eq_None_iff split: option.splits)
qed

lemma snd_registration:
  "snd (RegisterRtpHeaderExtension ty idn s) =
     s\<lparr>rtp_header_extension_map := snd (Register ty idn (rtp_header_extension_map s))\<rparr>"
  "snd (DeregisterRtpHeaderExtension ty s) =
     s\<lparr>rtp_header_extension_map := snd (Deregister ty (rtp_header_extension_map s))\<rparr>"
  by (simp_all add: RegisterRtpHeaderExtension_def DeregisterRtpHeaderExtension_def split: prod.split)

lemma distinct_types_Deregister: "distinct (types_of m) \<Longrightarrow> distinct (types_of (snd (Deregister ty m)))"
  by (simp add: Deregister_def map_erase_def distinct_map_filter split: option.splits)

lemma sender_inv_cong:
  assumes "rtp_header_extension_map s' = rtp_header_extension_map s"
    "transmission_time_offset s' = transmission_time_offset s"
    "absolute_send_time s' = absolute_send_time s" "csrcs s' = csrcs s"
  shows "sender_inv s' = sender_inv s"
  by (simp add: sender_inv_def assms)

lemma BuildRTPheader_frame:
  assumes "BuildRTPheader buf payload_type marker_bit capture_timestamp capture_time
     timestamp_provided inc_sequence_number now s = Some (len, buf', s')"
  shows "sender_inv s' = sender_inv s"
  using assms by (intro sender_inv_cong) (auto simp: BuildRTPheader_def Let_def bind_eq_Some_conv)

lemma sender_reach_inv: "sender_reach s \<Longrightarrow> sender_inv s"
proof (induction rule: sender_reach.induct)
  case (6 s ty idn)
  then show ?case
    by (simp add: snd_registration sender_inv_def emap_inv_Register distinct_types_Register)
next
  case (7 s ty)
  have "emap_inv (snd (Deregister ty m))" if "emap_inv m" for m
    using that by (auto simp: Deregister_def emap_inv_erase split: option.splits)
  with 7 show ?case
    by (simp add: snd_registration sender_inv_def distinct_types_Deregister)
next
  case (14 s)
  then show ?case using BuildRTPheader_frame by blast
qed (auto simp: sender_inv_def new_RTPSender_def SetTransmissionTimeOffset_def SetAbsoluteSendTime_def
      SetVideoRotation_def SetTransportSequenceNumber_def IncrementSequenceNumber_def SetStartTimestamp_def
      SetCsrcs_def SetSequenceNumber_def SetRtpState_def SetRtxRtpState_def not_less)

lemma length_header_bytes_le:
  assumes "sender_inv s"
  shows "length (header_bytes s payload_type ssrc0 marker_bit timestamp0 seq cs) \<le>
    12 + 4 * length cs + RtpHeaderExtensionTotalLength s"
  using CreateRtpHeader_bytes [of "rtp_header_extension_map s" s cs
      "replicate (12 + 4 * length cs + GetTotalLengthInBytes (rtp_header_extension_map s)) 0"] assms
  by (auto simp: sender_inv_def RtpHeaderExtensionTotalLength_def) (metis le_add1)

lemma BuildRTPheader_bytes:
  assumes inv: "sender_inv s" and room: "RTPHeaderLength s \<le> length buf"
  shows "\<exists>s' junk. BuildRTPheader buf payload_type marker_bit capture_timestamp capture_time
      timestamp_provided inc_sequence_number now s =
      (let hb = header_bytes s payload_type (sender_ssrc s) marker_bit (sender_timestamp s') (sequence_number s) (csrcs s)
       in Some (length hb, hb @ junk, s')) \<and>
    length (header_bytes s payload_type (sender_ssrc s) marker_bit (sender_timestamp s') (sequence_number s) (csrcs s)) +
      length junk = length buf \<and>
    sequence_number s' = sequence_number s + 1 \<and>
    sender_timestamp s' = (if timestamp_provided then start_timestamp s + capture_timestamp else sender_timestamp s + 1) \<and>
    rtp_header_extension_map s' = rtp_header_extension_map s"
proof -
  define ts where "ts = (if timestamp_provided then start_timestamp s + capture_timestamp else sender_timestamp s + 1)"
  define s' where "s' = s\<lparr>sender_timestamp := ts, last_timestamp_time_ms := now,
    sequence_number := sequence_number s + 1, capture_time_ms := capture_time, last_packet_marker_bit := marker_bit\<rparr>"
  have "block_data s' = block_data s"
  proof
    fix ty show "block_data s' ty = block_data s ty" by (cases ty) (simp_all add: s'_def)
  qed
  then have "block_bytes s' = block_bytes s" by (simp add: block_bytes_def fun_eq_iff)
  then have "extension_bytes s' marker_bit = extension_bytes s marker_bit"
    unfolding extension_bytes_def all_blocks_def by (simp add: s'_def)
  then have hb: "header_bytes s' payload_type (sender_ssrc s) marker_bit ts (sequence_number s) (csrcs s) =
      header_bytes s payload_type (sender_ssrc s) marker_bit ts (sequence_number s) (csrcs s)"
    by (simp add: header_bytes_def)
  have "emap_inv (rtp_header_extension_map s')" "distinct (types_of (rtp_header_extension_map s'))"
    "12 + 4 * length (csrcs s) + GetTotalLengthInBytes (rtp_header_extension_map s') \<le> length buf"
    using inv room by (simp_all add: sender_inv_def s'_def RTPHeaderLength_def RtpHeaderExtensionTotalLength_def)
  from CreateRtpHeader_bytes [OF this(1,2) refl this(3), of payload_type "sender_ssrc s" marker_bit ts "sequence_number s"]
  obtain junk where "CreateRtpHeader s' buf payload_type (sender_ssrc s) marker_bit ts (sequence_number s) (csrcs s) =
      Some (length (header_bytes s payload_type (sender_ssrc s) marker_bit ts (sequence_number s) (csrcs s)),
        header_bytes s payload_type (sender_ssrc s) marker_bit ts (sequence_number s) (csrcs s) @ junk)"
    "length (header_bytes s payload_type (sender_ssrc s) marker_bit ts (sequence_number s) (csrcs s)) +
      length junk = length buf"
    unfolding hb by blast
  then show ?thesis
    by (intro exI [of _ s'] exI [of _ junk])
      (auto simp: BuildRTPheader_def Let_def ts_def [symmetric] s'_def [symmetric], simp_all add: s'_def)
qed


text \<open>C5.  For every sender that the interface can produce and every buffer of at least
  \<^verbatim>\<open>RTPHeaderLength()\<close> bytes, \<^verbatim>\<open>BuildRTPheader\<close> ends, writes at most that many bytes inside the
  buffer and advances the sequence number by one; and whatever payload follows, the parser of a receiver
  with the same extension registry accepts the packet and finds exactly the sender's values: the fixed
  members, the contributing sources, the header length and each registered extension (the video rotation
  only when the marker bit is set).\<close>

theorem rtp_header_round_trip:
  assumes "sender_reach s" "payload_type < 0x80" "RTPHeaderLength s \<le> length buf"
  shows "\<exists>len buf' s'. BuildRTPheader buf payload_type marker_bit capture_timestamp capture_time
      timestamp_provided inc_sequence_number now s = Some (len, buf', s') \<and>
    len \<le> RTPHeaderLength s \<and> length buf' = length buf \<and> sequence_number s' = sequence_number s + 1 \<and>
    (\<forall>payload. parser_Parse (rtp_header_extension_map s) (take len buf' @ payload) =
      Some (True, \<lparr>markerBit = marker_bit, payloadType = payload_type, sequenceNumber = sequence_number s,
        timestamp = (if timestamp_provided then start_timestamp s + capture_timestamp else sender_timestamp s + 1),
        ssrc = sender_ssrc s, numCSRCs = of_nat (length (csrcs s)),
        arrOfCSRCs = csrcs s @ replicate (kRtpCsrcSize - length (csrcs s)) 0, paddingLength = 0,
        headerLength = len, payload_type_frequency = 0, extension = announced s marker_bit\<rparr>))"
proof -
  have inv: "sender_inv s" by (rule sender_reach_inv [OF assms(1)])
  then have em: "emap_inv (rtp_header_extension_map s)" and cs: "length (csrcs s) \<le> kRtpCsrcSize"
    by (simp_all add: sender_inv_def)
  from BuildRTPheader_bytes [OF inv assms(3), of payload_type marker_bit capture_timestamp capture_time
      timestamp_provided inc_sequence_number now]
  obtain s' junk where b: "BuildRTPheader buf payload_type marker_bit capture_timestamp capture_time
      timestamp_provided inc_sequence_number now s =
      (let hb = header_bytes s payload_type (sender_ssrc s) marker_bit (sender_timestamp s') (sequence_number s) (csrcs s)
       in Some (length hb, hb @ junk, s'))"
    "length (header_bytes s payload_type (sender_ssrc s) marker_bit (sender_timestamp s') (sequence_number s) (csrcs s)) +
      length junk = length buf"
    "sequence_number s' = sequence_number s + 1"
    "sender_timestamp s' = (if timestamp_provided then start_timestamp s + capture_timestamp else sender_timestamp s + 1)"
    by blast
  let ?hb = "header_bytes s payload_type (sender_ssrc s) marker_bit (sender_timestamp s') (sequence_number s) (csrcs s)"
  show ?thesis
    unfolding b(1) Let_def parser_Parse_def GetCopy_same [OF em] b(4) [symmetric]
    using b(2,3) length_header_bytes_le [OF inv, of payload_type "sender_ssrc s" marker_bit _ _ "csrcs s"]
    by (intro exI [of _ "length ?hb"] exI [of _ "?hb @ junk"] exI [of _ s'])
      (simp add: Parse_header_bytes [OF inv cs assms(2)] RTPHeaderLength_def)
qed

theorem rtp_header_round_trip_witness:
  "let s = SetCsrcs [7] (snd (RegisterRtpHeaderExtension kRtpExtensionAudioLevel 3
       (snd (SetTransmissionTimeOffset (- 5)
         (snd (RegisterRtpHeaderExtension kRtpExtensionTransmissionTimeOffset 1 (new_RTPSender 10 11 0 0)))))))
   in \<exists>len buf' s' h. BuildRTPheader (replicate 100 0) 96 True 500 0 True True 0 s = Some (len, buf', s') \<and>
     parser_Parse (rtp_header_extension_map s) (take len buf' @ [1, 2]) = Some (True, h) \<and>
     transmissionTimeOffset (extension h) = - 5 \<and> audioLevel (extension h) = 0x80 \<and> ssrc h = 10 \<and> timestamp h = 500"
proof -
  let ?s1 = "snd (SetTransmissionTimeOffset (- 5)
         (snd (RegisterRtpHeaderExtension kRtpExtensionTransmissionTimeOffset 1 (new_RTPSender 10 11 0 0))))"
  let ?s = "SetCsrcs [7] (snd (RegisterRtpHeaderExtension kRtpExtensionAudioLevel 3 ?s1))"
  have sint: "sint (- 5 :: 32 word) = - 5" by simp
  have reach: "sender_reach ?s"
    by (intro sender_reach.intros)
      (simp_all add: new_RTPSender_def kRtpCsrcSize_def snd_registration SetTransmissionTimeOffset_def sint
        Register_def IsRegistered_def)
  have fields: "rtp_header_extension_map ?s = [(1, new_HeaderExtension kRtpExtensionTransmissionTimeOffset),
      (3, new_HeaderExtension kRtpExtensionAudioLevel)]" "transmission_time_offset ?s = - 5"
      "csrcs ?s = [7]" "sender_ssrc ?s = 10" "start_timestamp ?s = 0"
    by (simp_all add: new_RTPSender_def SetCsrcs_def snd_registration SetTransmissionTimeOffset_def sint Register_def)
  then have room: "RTPHeaderLength ?s \<le> length (replicate 100 (0 :: byte))"
    by (simp add: RTPHeaderLength_def RtpHeaderExtensionTotalLength_def GetTotalLengthInBytes_def
        kRtpOneByteHeaderLength_def Word32Align_def)
  have "(96 :: byte) < 0x80" by simp
  from rtp_header_round_trip [OF reach this room, of True 500 0 True True 0] fields
  show ?thesis unfolding Let_def by (fastforce simp: announced_def Let_def IsRegistered_def)
qed

end
