(* ===== verification/Rtp_Update.thy ===== *)
theory Rtp_Update
  imports Rtp_Roundtrip
begin

text \<open>
  The updates of header extensions that \<^verbatim>\<open>rtp_sender.cc\<close> makes in the finished packet just
  before it is sent.  A rejected update leaves the packet as it is; the reads and writes are guarded by
  the length checks of the code.
\<close>

section \<open>Operations\<close>

definition FindHeaderExtensionPosition ::
  "RTPSender \<Rightarrow> RTPExtensionType \<Rightarrow> byte list \<Rightarrow> RTPHeader \<Rightarrow> nat option" where
  "FindHeaderExtensionPosition s ty rtp_packet rtp_header =
     (let extension_block_pos = GetLengthUntilBlockStartInBytes ty (rtp_header_extension_map s)
      in if extension_block_pos < 0 then None
         else let block_pos = 12 + unat (numCSRCs rtp_header) + nat extension_block_pos;
                  len = ext_length (new_HeaderExtension ty)
           in if length rtp_packet < block_pos + len \<or> headerLength rtp_header < block_pos + len then None
              else if \<not> (rtp_packet ! (12 + unat (numCSRCs rtp_header)) = 0xBE \<and>
                        rtp_packet ! (12 + unat (numCSRCs rtp_header) + 1) = 0xDE) then None
              else Some block_pos)"

definition UpdateTransmissionTimeOffset :: "RTPSender \<Rightarrow> byte list \<Rightarrow> RTPHeader \<Rightarrow> int \<Rightarrow> byte list" where
  "UpdateTransmissionTimeOffset s rtp_packet rtp_header time_diff_ms =
     (case GetId kRtpExtensionTransmissionTimeOffset (rtp_header_extension_map s) of
        None \<Rightarrow> rtp_packet
      | Some idn \<Rightarrow>
          (case FindHeaderExtensionPosition s kRtpExtensionTransmissionTimeOffset rtp_packet rtp_header of
             None \<Rightarrow> rtp_packet
           | Some block_pos \<Rightarrow>
               if rtp_packet ! block_pos \<noteq> push_bit 4 idn + 2 then rtp_packet
               else memcpy rtp_packet (block_pos + 1)
                 (WriteBigEndian True 3 (word_of_int (time_diff_ms * 90) :: 32 word))))"

definition UpdateAudioLevel :: "RTPSender \<Rightarrow> byte list \<Rightarrow> RTPHeader \<Rightarrow> bool \<Rightarrow> byte \<Rightarrow> bool \<times> byte list" where
  "UpdateAudioLevel s rtp_packet rtp_header is_voiced dBov =
     (case GetId kRtpExtensionAudioLevel (rtp_header_extension_map s) of
        None \<Rightarrow> (False, rtp_packet)
      | Some idn \<Rightarrow>
          (case FindHeaderExtensionPosition s kRtpExtensionAudioLevel rtp_packet rtp_header of
             None \<Rightarrow> (False, rtp_packet)
           | Some block_pos \<Rightarrow>
               if rtp_packet ! block_pos \<noteq> push_bit 4 idn + 0 then (False, rtp_packet)
               else (True, rtp_packet[block_pos + 1 := (if is_voiced then 0x80 else 0) + (dBov AND 0x7F)])))"

definition UpdateVideoRotation :: "RTPSender \<Rightarrow> byte list \<Rightarrow> RTPHeader \<Rightarrow> VideoRotation \<Rightarrow> bool \<times> byte list" where
  "UpdateVideoRotation s rtp_packet rtp_header rot =
     (case GetId kRtpExtensionVideoRotation (rtp_header_extension_map s) of
        None \<Rightarrow> (False, rtp_packet)
      | Some idn \<Rightarrow>
          (case FindHeaderExtensionPosition s kRtpExtensionVideoRotation rtp_packet rtp_header of
             None \<Rightarrow> (False, rtp_packet)
           | Some block_pos \<Rightarrow>
               if GetLengthUntilBlockStartInBytes kRtpExtensionVideoRotation (rtp_header_extension_map s) < 0
               then (False, rtp_packet)
               else if rtp_packet ! block_pos \<noteq> push_bit 4 idn + 0 then (False, rtp_packet)
               else (True, rtp_packet[block_pos + 1 := ConvertVideoRotationToCVOByte rot])))"

text \<open>\<^verbatim>\<open>((now_ms << 18) / 1000) & 0x00ffffff\<close> on 64 bits.\<close>

definition send_time_24 :: "int \<Rightarrow> 32 word" where
  "send_time_24 now_ms = word_of_int (sint (word_of_int (now_ms * 2 ^ 18) :: 64 word) sdiv 1000) AND 0x00FFFFFF"

definition UpdateAbsoluteSendTime :: "RTPSender \<Rightarrow> byte list \<Rightarrow> RTPHeader \<Rightarrow> int \<Rightarrow> byte list" where
  "UpdateAbsoluteSendTime s rtp_packet rtp_header now_ms =
     (case GetId kRtpExtensionAbsoluteSendTime (rtp_header_extension_map s) of
        None \<Rightarrow> rtp_packet
      | Some idn \<Rightarrow>
          let extension_block_pos =
            GetLengthUntilBlockStartInBytes kRtpExtensionAbsoluteSendTime (rtp_header_extension_map s)
          in if extension_block_pos < 0 then rtp_packet
             else let block_pos = 12 + unat (numCSRCs rtp_header) + nat extension_block_pos
               in if length rtp_packet < block_pos + 4 \<or> headerLength rtp_header < block_pos + 4 then rtp_packet
                  else if \<not> (rtp_packet ! (12 + unat (numCSRCs rtp_header)) = 0xBE \<and>
                            rtp_packet ! (12 + unat (numCSRCs rtp_header) + 1) = 0xDE) then rtp_packet
                  else if rtp_packet ! block_pos \<noteq> push_bit 4 idn + 2 then rtp_packet
                  else memcpy rtp_packet (block_pos + 1) (WriteBigEndian False 3 (send_time_24 now_ms)))"

text \<open>The last update has its own copy of the search for the position.\<close>

lemma UpdateAbsoluteSendTime_alt:
  "UpdateAbsoluteSendTime s rtp_packet rtp_header now_ms =
     (case GetId kRtpExtensionAbsoluteSendTime (rtp_header_extension_map s) of
        None \<Rightarrow> rtp_packet
      | Some idn \<Rightarrow>
          (case FindHeaderExtensionPosition s kRtpExtensionAbsoluteSendTime rtp_packet rtp_header of
             None \<Rightarrow> rtp_packet
           | Some block_pos \<Rightarrow>
               if rtp_packet ! block_pos \<noteq> push_bit 4 idn + 2 then rtp_packet
               else memcpy rtp_packet (block_pos + 1) (WriteBigEndian False 3 (send_time_24 now_ms))))"
  by (auto simp: UpdateAbsoluteSendTime_def FindHeaderExtensionPosition_def Let_def split: option.splits)

section \<open>The position of a block\<close>

lemma length_until_split:
  assumes "ext_type e \<notin> set (types_of pre)" "len + (\<Sum>ke \<leftarrow> pre. ext_length (snd ke)) < 65536"
  shows "length_until (ext_type e) len (pre @ (k, e) # post) = len + (\<Sum>ke \<leftarrow> pre. ext_length (snd ke))"
  using assms
proof (induction pre arbitrary: len)
  case (Cons x pre)
  then show ?case by (cases x) (auto simp: add.assoc)
qed simp

text \<open>A sender that differs in the data of one type writes the same header but for that block.\<close>

lemma block_bytes_other:
  assumes "\<And>ty'. ty' \<noteq> ty \<Longrightarrow> block_data s' ty' = block_data s ty'" "ty \<notin> set (types_of es)"
  shows "all_blocks s' es = all_blocks s es"
  using assms(2) by (induction es) (auto simp: block_bytes_def assms(1))

lemma update_block:
  assumes inv: "sender_inv s" and map: "rtp_header_extension_map s' = rtp_header_extension_map s"
    and other: "\<And>ty'. ty' \<noteq> ty \<Longrightarrow> block_data s' ty' = block_data s ty'"
    and reg: "IsRegistered ty (rtp_header_extension_map s)"
    and sent: "marker_bit \<or> \<not> IsRegistered kRtpExtensionVideoRotation (rtp_header_extension_map s)"
    and h: "numCSRCs h = 0" "headerLength h = length (header_bytes s payload_type ssrc0 marker_bit timestamp0 seq [])"
    and p_def: "p = header_bytes s payload_type ssrc0 marker_bit timestamp0 seq [] @ payload"
  obtains pos k where "GetId ty (rtp_header_extension_map s) = Some k"
    "FindHeaderExtensionPosition s ty p h = Some pos" "p ! pos = push_bit 4 k + of_nat (extension_length ty - 2)"
    "pos + extension_length ty \<le> length p"
    "memcpy p (pos + 1) (block_data s' ty) = header_bytes s' payload_type ssrc0 marker_bit timestamp0 seq [] @ payload"
proof -
  let ?m = "rtp_header_extension_map s"
  from reg obtain x where x: "x \<in> set ?m" "(\<lambda>(k, e). ext_type e) x = ty"
    by (auto simp: IsRegistered_def list_ex_iff)
  from split_list [OF x(1)] obtain pre post where m0: "?m = pre @ x # post" by blast
  obtain k e where xk: "x = (k, e)" by (cases x)
  with x(2) have ty: "ext_type e = ty" by simp
  note m = m0 [unfolded xk]
  from inv have em: "emap_inv ?m" "distinct (types_of ?m)" and ok: "list_all entry_ok ?m"
    by (simp_all add: sender_inv_def emap_inv_def)
  from em(2) m ty have new: "ext_type e \<notin> set (types_of pre)" "ty \<notin> set (types_of pre)" "ty \<notin> set (types_of post)"
    by auto
  from ok m have okp: "list_all entry_ok pre" "entry_ok (k, e)" by simp_all
  have el: "2 \<le> extension_length ty"
    using okp(2) ty by (cases ty) (auto simp: entry_ok_def)
  have id: "GetId ty ?m = Some k" using GetId_split [OF new(1)] m ty by simp
  have all: "sent marker_bit ?m = ?m"
  proof -
    have "marker_bit \<or> ext_type e' \<noteq> kRtpExtensionVideoRotation" if "(k', e') \<in> set ?m" for k' e'
      using that sent by (auto simp: IsRegistered_def list_ex_iff)
    then show ?thesis by (auto simp: sent_def intro!: filter_True)
  qed
  let ?n = "length (all_blocks s ?m)"
  let ?fix = "\<lambda>b. [b, second_byte marker_bit payload_type] @ WriteBigEndian2 False seq @
     WriteBigEndian4 False timestamp0 @ WriteBigEndian4 False ssrc0 @
     WriteBigEndian2 False (0xBEDE :: 16 word) @ WriteBigEndian2 False (of_nat ((?n + padding_of ?n) div 4) :: 16 word)"
  have ldata: "length (block_data s' ty) = length (block_data s ty)" by (simp add: length_block_data)
  have blocks: "all_blocks s' ?m = all_blocks s pre @ (block_bytes s' (k, e)) @ all_blocks s post"
    "all_blocks s ?m = all_blocks s pre @ (block_bytes s (k, e)) @ all_blocks s post"
    using block_bytes_other [OF other new(2)] block_bytes_other [OF other new(3)]
    by (simp_all add: m all_blocks_def)
  have lens: "length (all_blocks s' ?m) = ?n" using ldata by (simp add: blocks block_bytes_def ty)
  let ?pad = "replicate (padding_of ?n) (0 :: byte)"
  have hb: "header_bytes s payload_type ssrc0 marker_bit timestamp0 seq [] = ?fix 0x90 @ all_blocks s ?m @ ?pad"
    "header_bytes s' payload_type ssrc0 marker_bit timestamp0 seq [] = ?fix 0x90 @ all_blocks s' ?m @ ?pad"
    using lens by (simp_all add: header_bytes_def extension_bytes_def all map Let_def blocks block_bytes_def second_byte_def)
  have lfix: "length (?fix 0x90) = 16" by (simp add: u16f.length_enc u32f.length_enc)
  have lpre: "length (all_blocks s pre) = (\<Sum>ke \<leftarrow> pre. ext_length (snd ke))" by (rule length_all_blocks [OF okp(1)])
  have small: "4 + (\<Sum>ke \<leftarrow> pre. ext_length (snd ke)) < 65536"
    using total_block_length_le [OF em] by (simp add: m)
  let ?pos = "16 + length (all_blocks s pre)"
  have gl: "GetLengthUntilBlockStartInBytes ty ?m = int (4 + length (all_blocks s pre))"
    using length_until_split [OF new(1) small, of k post] m ty id lpre
    by (simp add: GetLengthUntilBlockStartInBytes_def kRtpOneByteHeaderLength_def)
  have bb: "block_bytes s (k, e) = (push_bit 4 k + of_nat (extension_length ty - 2)) # block_data s ty"
    by (simp add: block_bytes_def ty length_block_data numeral_2_eq_2)
  have lb: "length (block_bytes s (k, e)) = extension_length ty" using el by (simp add: bb length_block_data)
  have hl: "?pos + extension_length ty \<le> length (header_bytes s payload_type ssrc0 marker_bit timestamp0 seq [])"
    unfolding hb blocks using lfix lb by simp
  have mem: "p = (?fix 0x90 @ all_blocks s pre @ [push_bit 4 k + of_nat (extension_length ty - 2)]) @
      block_data s ty @ (all_blocks s post @ ?pad @ payload)"
    unfolding p_def hb blocks bb by simp
  have be: "p ! 12 = 0xBE" "p ! 13 = 0xDE"
  proof -
    have "WriteBigEndian2 False (0xBEDE :: 16 word) = [0xBE, 0xDE]" by (simp add: WriteBigEndian2_def shift_right_def)
    then show "p ! 12 = 0xBE" "p ! 13 = 0xDE"
      unfolding mem by (simp_all add: WriteBigEndian2_def WriteBigEndian4_def)
  qed
  have "?pos + extension_length ty \<le> length p" using hl by (simp add: p_def)
  then have find: "FindHeaderExtensionPosition s ty p h = Some ?pos"
    unfolding FindHeaderExtensionPosition_def Let_def gl nat_int h
    using hl be by simp
  have at: "p ! ?pos = push_bit 4 k + of_nat (extension_length ty - 2)"
  proof -
    have "p = (?fix 0x90 @ all_blocks s pre) @ (push_bit 4 k + of_nat (extension_length ty - 2)) #
        block_data s ty @ all_blocks s post @ ?pad @ payload" unfolding mem by simp
    moreover have "?pos = length (?fix 0x90 @ all_blocks s pre)" using lfix by simp
    ultimately show ?thesis by (metis nth_append_length)
  qed
  have cpy: "memcpy p (?pos + 1) (block_data s' ty) =
      header_bytes s' payload_type ssrc0 marker_bit timestamp0 seq [] @ payload"
  proof -
    have "?pos + 1 = length (?fix 0x90 @ all_blocks s pre @ [push_bit 4 k + of_nat (extension_length ty - 2)])"
      using lfix by simp
    then have "memcpy p (?pos + 1) (block_data s' ty) =
        (?fix 0x90 @ all_blocks s pre @ [push_bit 4 k + of_nat (extension_length ty - 2)]) @
        block_data s' ty @ (all_blocks s post @ ?pad @ payload)"
      using ldata unfolding mem by (intro memcpy_replace) (simp_all only:)
    also have "\<dots> = header_bytes s' payload_type ssrc0 marker_bit timestamp0 seq [] @ payload"
      unfolding hb blocks by (simp add: block_bytes_def ty length_block_data numeral_2_eq_2)
    finally show ?thesis .
  qed
  show thesis using hl by (intro that [OF id find at _ cpy]) (simp add: p_def)
qed


section \<open>Updating is rebuilding\<close>

text \<open>A packet without contributing sources, built in a buffer of the size the sender uses.\<close>

definition build_packet :: "RTPSender \<Rightarrow> byte \<Rightarrow> 32 word \<Rightarrow> bool \<Rightarrow> 32 word \<Rightarrow> 16 word \<Rightarrow> byte list \<Rightarrow> byte list option" where
  "build_packet s payload_type ssrc0 marker_bit timestamp0 seq payload = do {
     (len, buf) \<leftarrow> CreateRtpHeader s (replicate 1500 0) payload_type ssrc0 marker_bit timestamp0 seq [];
     Some (take len buf @ payload) }"

lemma build_packet_bytes:
  assumes "emap_inv (rtp_header_extension_map s)" "distinct (types_of (rtp_header_extension_map s))"
  shows "build_packet s payload_type ssrc0 marker_bit timestamp0 seq payload =
    Some (header_bytes s payload_type ssrc0 marker_bit timestamp0 seq [] @ payload)"
proof -
  have "GetTotalLengthInBytes (rtp_header_extension_map s) \<le> 4 + Word32Align 20"
    using Word32Align_mono [OF total_block_length_le [OF assms]] by (simp add: GetTotalLengthInBytes_alt Let_def)
  then have "12 + 4 * length ([] :: 32 word list) + GetTotalLengthInBytes (rtp_header_extension_map s)
      \<le> length (replicate 1500 (0 :: byte))"
    by (simp add: Word32Align_alt)
  from CreateRtpHeader_bytes [OF assms refl this, of payload_type ssrc0 marker_bit timestamp0 seq] show ?thesis
    by (auto simp: build_packet_def)
qed

text \<open>With a contributing source in the packet the position is computed with the number of sources
  instead of their size in bytes, and the send time is not updated.\<close>

definition csrc_sender :: RTPSender where
  "csrc_sender = snd (RegisterRtpHeaderExtension kRtpExtensionAbsoluteSendTime 2 (new_RTPSender 10 11 0 0))"

lemma update_fails_with_csrc:
  "let p = header_bytes csrc_sender 96 10 False 500 7 [0x01020304] @ [1, 2, 3]
   in case Parse p new_RTPHeader (Some (rtp_header_extension_map csrc_sender)) of
        Some (True, h) \<Rightarrow> hasAbsoluteSendTime (extension h) \<and> UpdateAbsoluteSendTime csrc_sender p h 1000 = p
      | _ \<Rightarrow> False"
  by code_simp

text \<open>A setter of one member changes the block of its own type only.\<close>

lemma block_data_other:
  "ty \<noteq> kRtpExtensionAbsoluteSendTime \<Longrightarrow> block_data (s\<lparr>absolute_send_time := v\<rparr>) ty = block_data s ty"
  "ty \<noteq> kRtpExtensionTransmissionTimeOffset \<Longrightarrow> block_data (s\<lparr>transmission_time_offset := v'\<rparr>) ty = block_data s ty"
  "ty \<noteq> kRtpExtensionVideoRotation \<Longrightarrow> block_data (s\<lparr>rotation := r\<rparr>) ty = block_data s ty"
  by (cases ty; simp)+

lemma UpdateVideoRotation_found:
  assumes "GetId kRtpExtensionVideoRotation (rtp_header_extension_map s) = Some k"
    "FindHeaderExtensionPosition s kRtpExtensionVideoRotation p h = Some pos"
    "p ! pos = push_bit 4 k + of_nat (extension_length kRtpExtensionVideoRotation - 2)"
    "pos + extension_length kRtpExtensionVideoRotation \<le> length p"
  shows "UpdateVideoRotation s p h r =
    (True, memcpy p (pos + 1) (block_data (s\<lparr>rotation := r\<rparr>) kRtpExtensionVideoRotation))"
proof -
  have "p[pos + 1 := ConvertVideoRotationToCVOByte r] = memcpy p (pos + 1) [ConvertVideoRotationToCVOByte r]"
    using assms(4) by (simp add: memcpy_def upd_conv_take_nth_drop)
  moreover have "\<not> GetLengthUntilBlockStartInBytes kRtpExtensionVideoRotation (rtp_header_extension_map s) < 0"
    using assms(1) by (simp add: GetLengthUntilBlockStartInBytes_def)
  ultimately show ?thesis using assms by (simp add: UpdateVideoRotation_def)
qed




end
