(* ===== verification/Rtp_Rtx.thy ===== *)
theory Rtp_Rtx
  imports Rtp_Roundtrip
begin

text \<open>
  Retransmission packets (RTX): \<^verbatim>\<open>BuildRtxPacket\<close> of \<^verbatim>\<open>rtp_sender.cc\<close> wraps a packet that has been
  sent before, and the receive side of \<^verbatim>\<open>rtp_payload_registry.cc\<close> recognises and unwraps it.
\<close>

section \<open>Sender\<close>

definition SetRtxSsrc :: "32 word \<Rightarrow> RTPSender \<Rightarrow> RTPSender" where
  "SetRtxSsrc v s = s\<lparr>ssrc_rtx := v\<rparr>"

definition SetRtxPayloadType :: "int \<Rightarrow> RTPSender \<Rightarrow> RTPSender" where
  "SetRtxPayloadType payload_type s = s\<lparr>payload_type_rtx := payload_type\<rparr>"

text \<open>The result is the new length, the contents of \<^verbatim>\<open>buffer_rtx\<close> and the sender; the return value
  of \<^verbatim>\<open>Parse\<close> is ignored by the code.\<close>

definition BuildRtxPacket :: "RTPSender \<Rightarrow> byte list \<Rightarrow> byte list \<Rightarrow> (nat \<times> byte list \<times> RTPSender) option" where
  "BuildRtxPacket s buffer data_buffer_rtx = do {
     (ok, rtp_header) \<leftarrow> Parse buffer new_RTPHeader None;
     data \<leftarrow> store data_buffer_rtx 0 (take (headerLength rtp_header) buffer);
     data \<leftarrow> (if payload_type_rtx s \<noteq> - 1 then do {
         data \<leftarrow> store data 1 [word_of_int (payload_type_rtx s)];
         if markerBit rtp_header then store data 1 [data ! 1 OR 0x80] else Some data }
       else Some data);
     data \<leftarrow> store data 2 (WriteBigEndian2 False (sequence_number_rtx s));
     data \<leftarrow> store data 8 (WriteBigEndian4 False (ssrc_rtx s));
     data \<leftarrow> store data (headerLength rtp_header) (WriteBigEndian2 False (sequenceNumber rtp_header));
     data \<leftarrow> store data (headerLength rtp_header + 2) (drop (headerLength rtp_header) buffer);
     Some (length buffer + 2, data, s\<lparr>sequence_number_rtx := sequence_number_rtx s + 1\<rparr>)
   }"

section \<open>Receiver\<close>

text \<open>The members of \<^verbatim>\<open>RTPPayloadRegistry\<close> that concern retransmission.\<close>

record RTPPayloadRegistry =
  reg_rtx :: bool
  reg_payload_type_rtx :: int
  reg_ssrc_rtx :: "32 word"
  incoming_payload_type :: int

definition new_RTPPayloadRegistry :: RTPPayloadRegistry where
  "new_RTPPayloadRegistry =
     \<lparr>reg_rtx = False, reg_payload_type_rtx = - 1, reg_ssrc_rtx = 0, incoming_payload_type = - 1\<rparr>"

definition RtxEnabled :: "RTPPayloadRegistry \<Rightarrow> bool" where
  "RtxEnabled reg = reg_rtx reg"

definition IsRtx :: "RTPHeader \<Rightarrow> RTPPayloadRegistry \<Rightarrow> bool" where
  "IsRtx header reg \<longleftrightarrow> reg_rtx reg \<and> reg_ssrc_rtx reg = ssrc header"

definition registry_SetRtxSsrc :: "32 word \<Rightarrow> RTPPayloadRegistry \<Rightarrow> RTPPayloadRegistry" where
  "registry_SetRtxSsrc v reg = reg\<lparr>reg_ssrc_rtx := v, reg_rtx := True\<rparr>"

definition GetRtxSsrc :: "RTPPayloadRegistry \<Rightarrow> bool \<times> 32 word" where
  "GetRtxSsrc reg = (reg_rtx reg, reg_ssrc_rtx reg)"

definition registry_SetRtxPayloadType :: "int \<Rightarrow> RTPPayloadRegistry \<Rightarrow> RTPPayloadRegistry" where
  "registry_SetRtxPayloadType payload_type reg = reg\<lparr>reg_payload_type_rtx := payload_type, reg_rtx := True\<rparr>"

definition SetIncomingPayloadType :: "RTPHeader \<Rightarrow> RTPPayloadRegistry \<Rightarrow> RTPPayloadRegistry" where
  "SetIncomingPayloadType header reg =
     (if \<not> IsRtx header reg then reg\<lparr>incoming_payload_type := uint (payloadType header)\<rparr> else reg)"

text \<open>The result is the returned flag, \<^verbatim>\<open>*packet_length\<close> and \<^verbatim>\<open>*restored_packet\<close>.\<close>

definition RestoreOriginalPacket ::
  "RTPPayloadRegistry \<Rightarrow> byte list \<Rightarrow> byte list \<Rightarrow> nat \<Rightarrow> 32 word \<Rightarrow> RTPHeader \<Rightarrow> (bool \<times> nat \<times> byte list) option" where
  "RestoreOriginalPacket reg restored_packet packet packet_length original_ssrc header =
     (if 2 + headerLength header > packet_length then Some (False, packet_length, restored_packet) else do {
        rtx_header \<leftarrow> load packet (headerLength header) 2;
        let original_sequence_number = two_bytes rtx_header;
        head \<leftarrow> load packet 0 (headerLength header);
        restored \<leftarrow> store restored_packet 0 head;
        rest \<leftarrow> load packet (headerLength header + 2) (packet_length - headerLength header - 2);
        restored \<leftarrow> store restored (headerLength header) rest;
        let packet_length = packet_length - 2;
        restored \<leftarrow> store restored 2 (WriteBigEndian2 False original_sequence_number);
        restored \<leftarrow> store restored 8 (WriteBigEndian4 False original_ssrc);
        if reg_payload_type_rtx reg \<noteq> - 1 then
          if uint (payloadType header) = reg_payload_type_rtx reg \<and> incoming_payload_type reg \<noteq> - 1 then do {
            restored \<leftarrow> store restored 1 [word_of_int (incoming_payload_type reg)];
            restored \<leftarrow> (if markerBit header then store restored 1 [restored ! 1 OR 0x80] else Some restored);
            Some (True, packet_length, restored) }
          else Some (False, packet_length, restored)
        else Some (True, packet_length, restored)
      })"

section \<open>What the parser without a registry finds\<close>

abbreviation csrc_end :: "byte list \<Rightarrow> nat" where
  "csrc_end p \<equiv> 12 + unat (p ! 0 AND 0x0F) * 4"

definition header_end :: "byte list \<Rightarrow> nat" where
  "header_end p = (if p ! 0 AND 0x10 \<noteq> 0
     then csrc_end p + 4 + unat (ReadBigEndian2 (take 2 (drop (csrc_end p + 2) p)) :: 16 word) * 4
     else csrc_end p)"

definition accepted :: "byte list \<Rightarrow> bool" where
  "accepted p \<longleftrightarrow> 12 \<le> length p \<and> drop_bit 6 (p ! 0) = 2 \<and> csrc_end p \<le> length p \<and>
     (p ! 0 AND 0x10 \<noteq> 0 \<longrightarrow> csrc_end p + 4 \<le> length p) \<and> header_end p \<le> length p"

definition parsed_as :: "byte list \<Rightarrow> RTPHeader \<Rightarrow> bool" where
  "parsed_as p h \<longleftrightarrow> headerLength h = header_end p \<and> (markerBit h \<longleftrightarrow> p ! 1 AND 0x80 \<noteq> 0) \<and>
     payloadType h = p ! 1 AND 0x7F \<and> sequenceNumber h = two_bytes (take 2 (drop 2 p)) \<and>
     ssrc h = ReadBigEndian4 (take 4 (drop 8 p))"

lemma parse_extension_None:
  assumes "ptr \<le> length p" "headerLength h = ptr"
  shows "parse_extension p ptr None h =
    (if ptr + 4 > length p then Some (False, h)
     else let e = ptr + 4 + unat (ReadBigEndian2 (take 2 (drop (ptr + 2) p)) :: 16 word) * 4
       in if e > length p then Some (False, h\<lparr>headerLength := ptr + 4\<rparr>) else Some (True, h\<lparr>headerLength := e\<rparr>))"
  using assms by (auto simp: parse_extension_def ParseOneByteExtensionHeader_def Let_def)

lemma Parse_None_fixed:
  assumes "12 \<le> length p" "drop_bit 6 (p ! 0) = 2" "csrc_end p \<le> length p"
  obtains h where "Parse p header None = (if p ! 0 AND 0x10 \<noteq> 0 then parse_extension p (csrc_end p) None h else Some (True, h))"
    "headerLength h = csrc_end p" "\<And>n. n = header_end p \<Longrightarrow> parsed_as p (h\<lparr>headerLength := n\<rparr>)"
proof -
  from assms obtain arr where "read_csrcs p 12 0 (unat (p ! 0 AND 0x0F)) (arrOfCSRCs header) = Some arr"
    using read_csrcs_Some [of 12 "unat (p ! 0 AND 0x0F)" p] by (metis mult.commute)
  from that [OF Parse_unfold [OF assms this, of None]] show thesis
    by (simp add: fixed_members_def parsed_as_def)
qed

lemma Parse_None_accepted:
  assumes a: "accepted p"
  shows "\<exists>h. Parse p header None = Some (True, h) \<and> parsed_as p h"
proof -
  from a have len: "12 \<le> length p" "drop_bit 6 (p ! 0) = 2" "csrc_end p \<le> length p"
    by (simp_all add: accepted_def)
  obtain h where h: "Parse p header None = (if p ! 0 AND 0x10 \<noteq> 0 then parse_extension p (csrc_end p) None h else Some (True, h))"
    "headerLength h = csrc_end p" "\<And>n. n = header_end p \<Longrightarrow> parsed_as p (h\<lparr>headerLength := n\<rparr>)"
    using Parse_None_fixed [OF len] by blast
  show ?thesis
  proof (cases "p ! 0 AND 0x10 \<noteq> 0")
    case True
    then have "Parse p header None = Some (True, h\<lparr>headerLength := header_end p\<rparr>)"
      using a parse_extension_None [OF len(3) h(2)] by (simp add: h(1) accepted_def header_end_def Let_def)
    with h(3) show ?thesis by blast
  next
    case False
    then have "header_end p = headerLength h" by (simp add: header_end_def h(2))
    with False h(1) h(3) [of "headerLength h"] show ?thesis by simp
  qed
qed

lemma Parse_None_only_accepted:
  assumes "Parse p header None = Some (True, h)"
  shows "accepted p"
proof (cases "length p < 12 \<or> drop_bit 6 (p ! 0) \<noteq> 2 \<or> csrc_end p > length p")
  case True
  from Parse_rejected [OF this, of header None] assms show ?thesis by simp
next
  case False
  then have len: "12 \<le> length p" "drop_bit 6 (p ! 0) = 2" "csrc_end p \<le> length p" by simp_all
  obtain h' where h: "Parse p header None = (if p ! 0 AND 0x10 \<noteq> 0 then parse_extension p (csrc_end p) None h' else Some (True, h'))"
    "headerLength h' = csrc_end p"
    using Parse_None_fixed [OF len] by blast
  show ?thesis
  proof (cases "p ! 0 AND 0x10 \<noteq> 0")
    case True
    then have "parse_extension p (csrc_end p) None h' = Some (True, h)" using h(1) assms by simp
    then show ?thesis
      unfolding parse_extension_None [OF len(3) h(2)] Let_def
      using len True by (simp add: accepted_def header_end_def split: if_splits)
  next
    case False
    with len show ?thesis by (simp add: accepted_def header_end_def)
  qed
qed


section \<open>Bytes and fields\<close>

lemma write_four_bytes: "WriteBigEndian4 False (ReadBigEndian4 [w, x, y, z] :: 32 word) = [w, x, y, z]"
  by (auto simp: Read4_generic InternalReadBigEndian_def or_bytes_def upt_4 WriteBigEndian4_def
      shift_right_def intro!: bit_word_eqI) (auto simp: bit_simps dest: bit_imp_le_length)

lemma byte_parts: "second_byte (a AND 0x80 \<noteq> 0) (a AND 0x7F) = a"
proof (rule bit_word_eqI)
  fix k assume "k < LENGTH(8)"
  then have k: "k < 7 \<or> k = 7" by auto
  then have ks: "k = 0 \<or> k = 1 \<or> k = 2 \<or> k = 3 \<or> k = 4 \<or> k = 5 \<or> k = 6 \<or> k = 7" by linarith
  then have m: "bit (0x7F :: byte) k \<longleftrightarrow> k < 7" by auto
  from ks have h: "bit (0x80 :: byte) k \<longleftrightarrow> k = 7" by auto
  show "bit (second_byte (a AND 0x80 \<noteq> 0) (a AND 0x7F)) k = bit a k"
    using k m h by (auto simp: second_byte_def byte_msb bit_and_iff bit_or_iff)
qed

text \<open>A packet with its header cut into the bytes that a retransmission replaces.\<close>

lemma header_pieces:
  assumes "12 \<le> length p" "12 \<le> n" "n \<le> length p"
  obtains a0 a1 a2 a3 a4 a5 a6 a7 a8 a9 a10 a11 mid where
    "p = [a0, a1, a2, a3, a4, a5, a6, a7, a8, a9, a10, a11] @ mid @ drop n p" "length mid = n - 12"
proof -
  have "take 12 p = map (\<lambda>i. p ! i) [0..<12]" using assms(1) by (intro nth_equalityI) simp_all
  also have "[0..<12] = [0, 1, 2, 3, 4, 5, 6, 7, 8, 9, 10, 11 :: nat]" by (simp add: upt_rec)
  finally have "take 12 p = [p ! 0, p ! 1, p ! 2, p ! 3, p ! 4, p ! 5, p ! 6, p ! 7, p ! 8, p ! 9, p ! 10, p ! 11]"
    by simp
  moreover have "p = take 12 p @ take (n - 12) (drop 12 p) @ drop n p"
    using assms(2) by (metis append_take_drop_id drop_drop le_add_diff_inverse2)
  moreover have "length (take (n - 12) (drop 12 p)) = n - 12" using assms by simp
  ultimately show thesis using that by metis
qed

lemma header_end_same:
  assumes "p = F @ mid @ pay" "q = F' @ mid @ pay'" "length F = 12" "length F' = 12" "F ! 0 = F' ! 0"
    and "header_end p = 12 + length mid"
  shows "header_end q = header_end p" "csrc_end q = csrc_end p" "q ! 0 = p ! 0"
proof -
  have "F \<noteq> []" "F' \<noteq> []" using assms(3,4) by auto
  then show 0: "q ! 0 = p ! 0" using assms(1,2,5) by (simp add: nth_append)
  then show "csrc_end q = csrc_end p" by simp
  show "header_end q = header_end p"
  proof (cases "p ! 0 AND 0x10 \<noteq> 0")
    case True
    let ?k = "unat (p ! 0 AND 0x0F) * 4 + 2"
    from True assms(6) have "?k + 2 \<le> length mid" by (simp add: header_end_def)
    then have "take 2 (drop (12 + ?k) p) = take 2 (drop ?k mid)" "take 2 (drop (12 + ?k) q) = take 2 (drop ?k mid)"
      using assms(1-4) by simp_all
    then show ?thesis by (simp add: header_end_def 0 add.assoc)
  next
    case False
    then show ?thesis by (simp add: header_end_def 0)
  qed
qed


section \<open>The round trip\<close>

text \<open>The retransmission of a packet: \<open>F\<close> its first twelve bytes, \<open>b\<close> the new second byte.\<close>

definition rtx_bytes :: "RTPSender \<Rightarrow> byte list \<Rightarrow> byte list" where
  "rtx_bytes s p =
     (let n = header_end p;
          b = (if payload_type_rtx s \<noteq> - 1
               then second_byte (p ! 1 AND 0x80 \<noteq> 0) (word_of_int (payload_type_rtx s)) else p ! 1)
      in ([p ! 0, b] @ WriteBigEndian2 False (sequence_number_rtx s) @ take 4 (drop 4 p) @
          WriteBigEndian4 False (ssrc_rtx s)) @ take (n - 12) (drop 12 p) @
         WriteBigEndian2 False (two_bytes (take 2 (drop 2 p))) @ drop n p)"

lemma store_second:
  "do { data \<leftarrow> store (a # b # bs) 1 [x];
        data' \<leftarrow> (if c then store data 1 [data ! 1 OR 0x80] else Some data); k data' } =
   k (a # second_byte c x # bs)"
  by (simp add: store_def memcpy_def second_byte_def)

lemma accepted_bounds: "accepted p \<Longrightarrow> 12 \<le> length p \<and> 12 \<le> header_end p \<and> header_end p \<le> length p"
  by (auto simp: accepted_def header_end_def)

definition rtx_second :: "RTPSender \<Rightarrow> byte \<Rightarrow> byte" where
  "rtx_second s a = (if payload_type_rtx s \<noteq> - 1
     then second_byte (a AND 0x80 \<noteq> 0) (word_of_int (payload_type_rtx s)) else a)"

lemma rtx_pieces:
  assumes a: "accepted p"
  obtains a0 a1 a2 a3 a4 a5 a6 a7 a8 a9 a10 a11 mid pay where
    "p = a0 # a1 # a2 # a3 # a4 # a5 # a6 # a7 # a8 # a9 # a10 # a11 # mid @ pay"
    "header_end p = 12 + length mid" "drop (header_end p) p = pay"
    "take (header_end p) p = a0 # a1 # a2 # a3 # a4 # a5 # a6 # a7 # a8 # a9 # a10 # a11 # mid"
    "rtx_bytes s p = ([a0, rtx_second s a1] @ WriteBigEndian2 False (sequence_number_rtx s) @ [a4, a5, a6, a7] @
       WriteBigEndian4 False (ssrc_rtx s)) @ mid @ WriteBigEndian2 False (two_bytes [a2, a3]) @ pay"
proof -
  let ?n = "header_end p"
  from accepted_bounds [OF a] have b: "12 \<le> length p" "12 \<le> ?n" "?n \<le> length p" by simp_all
  from header_pieces [OF this] obtain a0 a1 a2 a3 a4 a5 a6 a7 a8 a9 a10 a11 mid where
    p: "p = [a0, a1, a2, a3, a4, a5, a6, a7, a8, a9, a10, a11] @ mid @ drop ?n p" and mid: "length mid = ?n - 12" .
  define pay where "pay = drop ?n p"
  have p': "p = a0 # a1 # a2 # a3 # a4 # a5 # a6 # a7 # a8 # a9 # a10 # a11 # mid @ pay"
  proof -
    have "p = [a0, a1, a2, a3, a4, a5, a6, a7, a8, a9, a10, a11] @ mid @ pay" unfolding pay_def by (rule p)
    then show ?thesis by simp
  qed
  have n: "?n = 12 + length mid" using mid b by simp
  have tk: "take ?n p = a0 # a1 # a2 # a3 # a4 # a5 # a6 # a7 # a8 # a9 # a10 # a11 # mid"
  proof -
    have "([a0, a1, a2, a3, a4, a5, a6, a7, a8, a9, a10, a11] @ mid) @ pay = p" by (simp add: p')
    then have "[a0, a1, a2, a3, a4, a5, a6, a7, a8, a9, a10, a11] @ mid =
        take (length ([a0, a1, a2, a3, a4, a5, a6, a7, a8, a9, a10, a11] @ mid)) p"
      unfolding append_eq_conv_conj by (rule conjunct1)
    moreover have "length ([a0, a1, a2, a3, a4, a5, a6, a7, a8, a9, a10, a11] @ mid) = ?n" by (simp add: n)
    ultimately show ?thesis by (simp only: append.simps)
  qed
  have "rtx_bytes s p = ([a0, rtx_second s a1] @ WriteBigEndian2 False (sequence_number_rtx s) @ [a4, a5, a6, a7] @
       WriteBigEndian4 False (ssrc_rtx s)) @ mid @ WriteBigEndian2 False (two_bytes [a2, a3]) @ pay"
    unfolding rtx_bytes_def Let_def pay_def [symmetric] rtx_second_def unfolding n by (subst (1 2 3 4 5 6) p') simp
  with p' n tk show thesis by (intro that) (simp_all add: pay_def)
qed

lemma BuildRtxPacket_bytes:
  assumes a: "accepted p" and room: "length p + 2 \<le> length buf"
  shows "BuildRtxPacket s p buf = Some (length p + 2, rtx_bytes s p @ drop (length p + 2) buf,
    s\<lparr>sequence_number_rtx := sequence_number_rtx s + 1\<rparr>)"
proof -
  let ?n = "header_end p"
  obtain a0 a1 a2 a3 a4 a5 a6 a7 a8 a9 a10 a11 mid pay where
    p': "p = a0 # a1 # a2 # a3 # a4 # a5 # a6 # a7 # a8 # a9 # a10 # a11 # mid @ pay" and
    n: "?n = 12 + length mid" and pay: "drop ?n p = pay" and
    tk: "take ?n p = a0 # a1 # a2 # a3 # a4 # a5 # a6 # a7 # a8 # a9 # a10 # a11 # mid" and
    q: "rtx_bytes s p = ([a0, rtx_second s a1] @ WriteBigEndian2 False (sequence_number_rtx s) @ [a4, a5, a6, a7] @
       WriteBigEndian4 False (ssrc_rtx s)) @ mid @ WriteBigEndian2 False (two_bytes [a2, a3]) @ pay"
    by (rule rtx_pieces [OF a])
  obtain h where h: "Parse p new_RTPHeader None = Some (True, h)" "parsed_as p h"
    using Parse_None_accepted [OF a] by blast
  have hl: "headerLength h = ?n" and mk: "markerBit h = (a1 AND 0x80 \<noteq> 0)" and
    sn: "sequenceNumber h = two_bytes [a2, a3]"
    using h(2) unfolding parsed_as_def by (simp_all add: p')
  have len: "length p = ?n + length pay" unfolding n by (subst p') simp
  let ?w = "WriteBigEndian2 False (sequence_number_rtx s)"
  let ?v = "WriteBigEndian4 False (ssrc_rtx s)"
  let ?b1 = "rtx_second s a1"
  let ?q = "[a0, ?b1] @ ?w @ [a4, a5, a6, a7] @ ?v @ mid"
  have w: "length ?w = 2" "length ?v = 4" by (simp_all add: u16f.length_enc u32f.length_enc)
  have s0: "store buf 0 (take ?n p) = Some (a0 # a1 # [a2, a3, a4, a5, a6, a7, a8, a9, a10, a11] @ mid @ drop ?n buf)"
  proof -
    have "store buf 0 (take ?n p) = Some (take ?n p @ drop ?n buf)"
      using room len store_append [of 0 "[]" "take ?n p" buf] by (simp add: min_absorb2)
    then show ?thesis unfolding tk by simp
  qed
  have s1: "(if payload_type_rtx s \<noteq> - 1 then do {
         data \<leftarrow> store (a0 # a1 # [a2, a3, a4, a5, a6, a7, a8, a9, a10, a11] @ mid @ drop ?n buf) 1 [word_of_int (payload_type_rtx s)];
         if markerBit h then store data 1 [data ! 1 OR 0x80] else Some data }
       else Some (a0 # a1 # [a2, a3, a4, a5, a6, a7, a8, a9, a10, a11] @ mid @ drop ?n buf)) =
      Some ([a0, ?b1] @ [a2, a3] @ [a4, a5, a6, a7, a8, a9, a10, a11] @ mid @ drop ?n buf)"
    by (simp add: store_def memcpy_def second_byte_def rtx_second_def mk)
  have s2: "store ([a0, ?b1] @ [a2, a3] @ [a4, a5, a6, a7, a8, a9, a10, a11] @ mid @ drop ?n buf) 2 ?w =
      Some (([a0, ?b1] @ ?w @ [a4, a5, a6, a7]) @ [a8, a9, a10, a11] @ mid @ drop ?n buf)"
    using w by (subst store_replace) simp_all
  have s3: "store (([a0, ?b1] @ ?w @ [a4, a5, a6, a7]) @ [a8, a9, a10, a11] @ mid @ drop ?n buf) 8 ?v = Some (?q @ drop ?n buf)"
    using w by (subst store_replace) simp_all
  have s4: "store (?q @ drop ?n buf) ?n (WriteBigEndian2 False (two_bytes [a2, a3])) =
      Some ((?q @ WriteBigEndian2 False (two_bytes [a2, a3])) @ drop (?n + 2) buf)"
    using w room len by (subst store_append) (simp_all add: n u16f.length_enc)
  have s5: "store ((?q @ WriteBigEndian2 False (two_bytes [a2, a3])) @ drop (?n + 2) buf) (?n + 2) pay =
      Some ((?q @ WriteBigEndian2 False (two_bytes [a2, a3]) @ pay) @ drop (length p + 2) buf)"
    using w room len by (subst store_append) (simp_all add: n u16f.length_enc ac_simps)
  show ?thesis
    unfolding BuildRtxPacket_def h(1) bind.bind_lunit prod.case hl sn s0 s1 s2 s3 s4 pay s5 q by simp
qed

lemma rtx_accepted:
  assumes a: "accepted p"
  shows "accepted (rtx_bytes s p)" "header_end (rtx_bytes s p) = header_end p"
    "length (rtx_bytes s p) = length p + 2"
proof -
  obtain a0 a1 a2 a3 a4 a5 a6 a7 a8 a9 a10 a11 mid pay where
    p': "p = a0 # a1 # a2 # a3 # a4 # a5 # a6 # a7 # a8 # a9 # a10 # a11 # mid @ pay" and
    n: "header_end p = 12 + length mid" and
    q: "rtx_bytes s p = ([a0, rtx_second s a1] @ WriteBigEndian2 False (sequence_number_rtx s) @ [a4, a5, a6, a7] @
       WriteBigEndian4 False (ssrc_rtx s)) @ mid @ WriteBigEndian2 False (two_bytes [a2, a3]) @ pay"
    by (rule rtx_pieces [OF a])
  show len: "length (rtx_bytes s p) = length p + 2"
    unfolding q by (subst p') (simp add: u16f.length_enc u32f.length_enc)
  have pf: "p = [a0, a1, a2, a3, a4, a5, a6, a7, a8, a9, a10, a11] @ mid @ pay" by (subst p') simp
  note same = header_end_same [OF pf q _ _ _ n]
  show "header_end (rtx_bytes s p) = header_end p" by (rule same) (simp_all add: u16f.length_enc u32f.length_enc)
  moreover have "csrc_end (rtx_bytes s p) = csrc_end p" by (rule same) (simp_all add: u16f.length_enc u32f.length_enc)
  moreover have "rtx_bytes s p ! 0 = p ! 0" by (rule same) (simp_all add: u16f.length_enc u32f.length_enc)
  ultimately show "accepted (rtx_bytes s p)" using a len by (auto simp: accepted_def)
qed

text \<open>The receiver is configured for the sender's retransmissions of a stream of the given payload type.\<close>

definition rtx_configured :: "RTPSender \<Rightarrow> RTPPayloadRegistry \<Rightarrow> byte \<Rightarrow> bool" where
  "rtx_configured s reg payload_type \<longleftrightarrow> reg_payload_type_rtx reg = payload_type_rtx s \<and>
     (payload_type_rtx s \<noteq> - 1 \<longrightarrow>
       0 \<le> payload_type_rtx s \<and> payload_type_rtx s \<le> 127 \<and> incoming_payload_type reg = uint payload_type)"


lemma RestoreOriginalPacket_bytes:
  assumes a: "accepted p" and h': "parsed_as (rtx_bytes s p) h'"
    and cfg: "rtx_configured s reg (p ! 1 AND 0x7F)" and room: "length p \<le> length r"
  shows "RestoreOriginalPacket reg r (rtx_bytes s p) (length p + 2) (ReadBigEndian4 (take 4 (drop 8 p))) h' =
    Some (True, length p, p @ drop (length p) r)"
proof -
  let ?n = "header_end p"
  obtain a0 a1 a2 a3 a4 a5 a6 a7 a8 a9 a10 a11 mid pay where
    p': "p = a0 # a1 # a2 # a3 # a4 # a5 # a6 # a7 # a8 # a9 # a10 # a11 # mid @ pay" and
    n: "?n = 12 + length mid" and
    q0: "rtx_bytes s p = ([a0, rtx_second s a1] @ WriteBigEndian2 False (sequence_number_rtx s) @ [a4, a5, a6, a7] @
       WriteBigEndian4 False (ssrc_rtx s)) @ mid @ WriteBigEndian2 False (two_bytes [a2, a3]) @ pay"
    by (rule rtx_pieces [OF a])
  note q = q0 [unfolded write_two_bytes]
  let ?w = "WriteBigEndian2 False (sequence_number_rtx s)"
  let ?v = "WriteBigEndian4 False (ssrc_rtx s)"
  let ?b1 = "rtx_second s a1"
  let ?F = "[a0, ?b1] @ ?w @ [a4, a5, a6, a7] @ ?v"
  let ?q = "?F @ mid @ [a2, a3] @ pay"
  have w: "length ?w = 2" "length ?v = 4" by (simp_all add: u16f.length_enc u32f.length_enc)
  obtain v0 v1 v2 v3 where v: "?v = [v0, v1, v2, v3]" by (auto simp: WriteBigEndian4_def)
  obtain w0 w1 where w01: "?w = [w0, w1]" by (auto simp: WriteBigEndian2_def)
  have len: "length p = ?n + length pay" unfolding n by (subst p') simp
  have hl: "headerLength h' = ?n" using h' rtx_accepted(2) [OF a] by (simp add: parsed_as_def)
  have q1: "rtx_bytes s p ! 1 = ?b1" unfolding q by simp
  have a1: "p ! 1 = a1" by (subst p') simp
  have ssrc: "ReadBigEndian4 (take 4 (drop 8 p)) = (ReadBigEndian4 [a8, a9, a10, a11] :: 32 word)" by (subst p') simp
  have l1: "load ?q ?n 2 = Some ([a2, a3])"
    using load_at [of ?n "?F @ mid" "[a2, a3]" 2 pay] w by (simp add: n u16f.length_enc)
  have l2: "load ?q 0 ?n = Some (?F @ mid)"
    using load_at [of 0 "[]" "?F @ mid" ?n "[a2, a3] @ pay"] w by (simp add: n)
  have l3: "load ?q (?n + 2) (length p + 2 - ?n - 2) = Some pay"
    using load_at [of "?n + 2" "?F @ mid @ [a2, a3]" pay "length pay" "[]"] w len
    by (simp add: n u16f.length_enc)
  have s1: "store r 0 (?F @ mid) = Some ((?F @ mid) @ drop ?n r)"
    using store_append [of 0 "[]" "?F @ mid" r] w room len by (simp add: n)
  have s2: "store ((?F @ mid) @ drop ?n r) ?n pay = Some ([a0, ?b1] @ [w0, w1] @ [a4, a5, a6, a7] @ ?v @ mid @ pay @ drop (length p) r)"
    using w room len w01 by (subst store_append) (simp_all add: n add.commute)
  have s3: "store ([a0, ?b1] @ [w0, w1] @ [a4, a5, a6, a7] @ ?v @ mid @ pay @ drop (length p) r) 2 [a2, a3] =
      Some ([a0, ?b1, a2, a3, a4, a5, a6, a7] @ [v0, v1, v2, v3] @ mid @ pay @ drop (length p) r)"
    by (subst store_replace) (simp_all add: v)
  have s4: "store ([a0, ?b1, a2, a3, a4, a5, a6, a7] @ [v0, v1, v2, v3] @ mid @ pay @ drop (length p) r) 8 [a8, a9, a10, a11] =
      Some ([a0, ?b1, a2, a3, a4, a5, a6, a7] @ [a8, a9, a10, a11] @ mid @ pay @ drop (length p) r)"
    by (subst store_replace) simp_all
  have "RestoreOriginalPacket reg r ?q (length p + 2) (ReadBigEndian4 [a8, a9, a10, a11]) h' =
      (if reg_payload_type_rtx reg \<noteq> - 1 then
         if uint (payloadType h') = reg_payload_type_rtx reg \<and> incoming_payload_type reg \<noteq> - 1
         then Some (True, length p, [a0, second_byte (markerBit h') (word_of_int (incoming_payload_type reg)),
           a2, a3, a4, a5, a6, a7, a8, a9, a10, a11] @ mid @ pay @ drop (length p) r)
         else Some (False, length p, [a0, ?b1, a2, a3, a4, a5, a6, a7, a8, a9, a10, a11] @ mid @ pay @ drop (length p) r)
       else Some (True, length p, [a0, ?b1, a2, a3, a4, a5, a6, a7, a8, a9, a10, a11] @ mid @ pay @ drop (length p) r))"
    unfolding RestoreOriginalPacket_def hl l1 l2 l3 bind.bind_lunit Let_def u16f.dec_enc two_bytes_written write_two_bytes
      write_four_bytes s1 s2 s3 s4
    using len by (simp add: store_def memcpy_def second_byte_def)
  also have "\<dots> = Some (True, length p, p @ drop (length p) r)"
  proof (cases "payload_type_rtx s = - 1")
    case True
    with cfg have "reg_payload_type_rtx reg = - 1" by (simp add: rtx_configured_def)
    with True show ?thesis by (simp add: rtx_second_def) (subst p', simp)
  next
    case False
    define t where "t = (word_of_int (payload_type_rtx s) :: byte)"
    from cfg False have t: "0 \<le> payload_type_rtx s" "payload_type_rtx s \<le> 127" and
      reg: "reg_payload_type_rtx reg = payload_type_rtx s" "incoming_payload_type reg = uint (a1 AND 0x7F)"
      unfolding a1 by (simp_all add: rtx_configured_def)
    have ut: "uint t = payload_type_rtx s" using t by (simp add: t_def uint_word_of_int)
    then have t80: "t < 0x80" using t by (simp add: word_less_def)
    have b1: "?b1 = second_byte (a1 AND 0x80 \<noteq> 0) t" using False by (simp add: rtx_second_def t_def)
    have "payloadType h' = t" "markerBit h' = (a1 AND 0x80 \<noteq> 0)"
      using h' second_byte_fields [OF t80, of "a1 AND 0x80 \<noteq> 0"] unfolding parsed_as_def q1 b1 by simp_all
    moreover have "uint (a1 AND 0x7F) \<noteq> - 1" using uint_ge_0 [of "a1 AND 0x7F"] by linarith
    ultimately have "(if reg_payload_type_rtx reg \<noteq> - 1 then
         if uint (payloadType h') = reg_payload_type_rtx reg \<and> incoming_payload_type reg \<noteq> - 1
         then Some (True, length p, [a0, second_byte (markerBit h') (word_of_int (incoming_payload_type reg)),
           a2, a3, a4, a5, a6, a7, a8, a9, a10, a11] @ mid @ pay @ drop (length p) r)
         else Some (False, length p, [a0, ?b1, a2, a3, a4, a5, a6, a7, a8, a9, a10, a11] @ mid @ pay @ drop (length p) r)
       else Some (True, length p, [a0, ?b1, a2, a3, a4, a5, a6, a7, a8, a9, a10, a11] @ mid @ pay @ drop (length p) r)) =
       Some (True, length p, [a0, second_byte (a1 AND 0x80 \<noteq> 0) (a1 AND 0x7F),
           a2, a3, a4, a5, a6, a7, a8, a9, a10, a11] @ mid @ pay @ drop (length p) r)"
      using False reg ut by simp
    also have "\<dots> = Some (True, length p, p @ drop (length p) r)"
    proof -
      have "[a0, a1, a2, a3, a4, a5, a6, a7, a8, a9, a10, a11] @ mid @ pay @ X = p @ X" for X
        by (subst p') simp
      then show ?thesis unfolding byte_parts by (simp only:)
    qed
    finally show ?thesis .
  qed
  finally show ?thesis unfolding q ssrc append_assoc .
qed

text \<open>C6.  Retransmission loses nothing.  A packet that the parser accepts, wrapped by
  \<^verbatim>\<open>BuildRtxPacket\<close>, is again an acceptable packet, with the retransmission stream's SSRC and next
  sequence number, so that a receiver configured for the stream recognises it; and
  \<^verbatim>\<open>RestoreOriginalPacket\<close> gives back the original packet byte for byte, whatever its payload,
  contributing sources and extensions.\<close>

theorem rtx_round_trip:
  assumes "Parse p new_RTPHeader None = Some (True, h)"
    and "length p + 2 \<le> length buf" "length p \<le> length r"
    and "rtx_configured s reg (payloadType h)" "reg_rtx reg" "reg_ssrc_rtx reg = ssrc_rtx s"
  shows "\<exists>len buf' s' h'. BuildRtxPacket s p buf = Some (len, buf', s') \<and> len = length p + 2 \<and>
    sequence_number_rtx s' = sequence_number_rtx s + 1 \<and>
    Parse (take len buf') new_RTPHeader None = Some (True, h') \<and>
    IsRtx h' reg \<and> sequenceNumber h' = sequence_number_rtx s \<and>
    RestoreOriginalPacket reg r (take len buf') len (ssrc h) h' = Some (True, length p, p @ drop (length p) r)"
proof -
  have a: "accepted p" by (rule Parse_None_only_accepted [OF assms(1)])
  from Parse_None_accepted [OF a, of new_RTPHeader] assms(1) have ph: "parsed_as p h" by simp
  let ?q = "rtx_bytes s p"
  from Parse_None_accepted [OF rtx_accepted(1) [OF a], of s new_RTPHeader] obtain h' where
    h': "Parse ?q new_RTPHeader None = Some (True, h')" "parsed_as ?q h'" by blast
  obtain a0 a1 a2 a3 a4 a5 a6 a7 a8 a9 a10 a11 mid pay where
    q: "?q = ([a0, rtx_second s a1] @ WriteBigEndian2 False (sequence_number_rtx s) @ [a4, a5, a6, a7] @
       WriteBigEndian4 False (ssrc_rtx s)) @ mid @ WriteBigEndian2 False (two_bytes [a2, a3]) @ pay"
    by (rule rtx_pieces [OF a])
  have "take 2 (drop 2 ?q) = WriteBigEndian2 False (sequence_number_rtx s)"
    "take 4 (drop 8 ?q) = WriteBigEndian4 False (ssrc_rtx s)"
    unfolding q by (simp_all add: WriteBigEndian2_def WriteBigEndian4_def)
  then have "sequenceNumber h' = sequence_number_rtx s" "ssrc h' = ssrc_rtx s"
    using h'(2) by (simp_all add: parsed_as_def u32f.dec_enc)
  moreover have "RestoreOriginalPacket reg r ?q (length p + 2) (ssrc h) h' = Some (True, length p, p @ drop (length p) r)"
    using RestoreOriginalPacket_bytes [OF a h'(2) _ assms(3)] assms(4) ph by (simp add: parsed_as_def)
  ultimately show ?thesis
    using BuildRtxPacket_bytes [OF a assms(2), of s] rtx_accepted(3) [OF a, of s] h'(1) assms(5,6)
    by (simp add: IsRtx_def)
qed


theorem rtx_round_trip_witness:
  "let p = [0x80, 0xE0, 0, 5, 0, 0, 0, 1, 0, 0, 0, 9, 42];
       s = SetRtxPayloadType 97 (SetRtxSsrc 77 (new_RTPSender 10 11 0 0))
   in \<exists>h reg len buf' s' h'. Parse p new_RTPHeader None = Some (True, h) \<and>
     reg = SetIncomingPayloadType h (registry_SetRtxPayloadType 97 (registry_SetRtxSsrc 77 new_RTPPayloadRegistry)) \<and>
     BuildRtxPacket s p (replicate 100 0) = Some (len, buf', s') \<and>
     Parse (take len buf') new_RTPHeader None = Some (True, h') \<and> IsRtx h' reg \<and>
     RestoreOriginalPacket reg (replicate 13 0) (take len buf') len (ssrc h) h' = Some (True, 13, p)"
proof -
  let ?p = "[0x80, 0xE0, 0, 5, 0, 0, 0, 1, 0, 0, 0, 9, 42] :: byte list"
  let ?s = "SetRtxPayloadType 97 (SetRtxSsrc 77 (new_RTPSender 10 11 0 0))"
  have "accepted ?p" by (simp add: accepted_def header_end_def)
  from Parse_None_accepted [OF this, of new_RTPHeader] obtain h where
    h: "Parse ?p new_RTPHeader None = Some (True, h)" "payloadType h = 0x60" "ssrc h = ReadBigEndian4 [0, 0, 0, 9]"
    by (auto simp: parsed_as_def)
  let ?reg = "SetIncomingPayloadType h (registry_SetRtxPayloadType 97 (registry_SetRtxSsrc 77 new_RTPPayloadRegistry))"
  have "ssrc h = 9"
    by (simp add: h(3) Read4_generic InternalReadBigEndian_def or_bytes_def upt_4)
  then have "rtx_configured ?s ?reg (payloadType h)" "reg_rtx ?reg" "reg_ssrc_rtx ?reg = ssrc_rtx ?s"
    by (simp_all add: rtx_configured_def SetIncomingPayloadType_def registry_SetRtxPayloadType_def
        registry_SetRtxSsrc_def new_RTPPayloadRegistry_def SetRtxPayloadType_def SetRtxSsrc_def new_RTPSender_def IsRtx_def)
  from rtx_round_trip [OF h(1) _ _ this, of "replicate 100 0" "replicate 13 0"] h(1)
  show ?thesis unfolding Let_def by auto
qed

end
