(* ===== verification/Fec_Encoder.thy ===== *)
theory Fec_Encoder
  imports Rtp_Bytes "HOL-Library.Monad_Syntax"
begin

text \<open>
  Forward error correction, the sender's side: \<^verbatim>\<open>forward_error_correction.cc\<close> from
  \<^verbatim>\<open>GetNumberOfFecPackets\<close> to \<^verbatim>\<open>GenerateFecUlpHeaders\<close>.  A \<^verbatim>\<open>Packet\<close> is its length with an
  array of \<^verbatim>\<open>IP_PACKET_SIZE\<close> bytes.  The result \<open>None\<close> of an operation stands for an access outside
  an array, or a shift by more than the width, both undefined in C++; the theorems show when it does
  not occur.  The packet mask is the matrix of the bits that say which media packets (columns) a FEC
  packet (row) protects, each row a number of bytes, first column first.
\<close>

section \<open>Data\<close>

definition IP_PACKET_SIZE :: nat where "IP_PACKET_SIZE = 1500"

definition kRtpHeaderSize :: nat where "kRtpHeaderSize = 12"

definition kMaxMediaPackets :: nat where "kMaxMediaPackets = 48"

definition kMaskSizeLBitSet :: nat where "kMaskSizeLBitSet = 6"

definition kMaskSizeLBitClear :: nat where "kMaskSizeLBitClear = 2"

definition kFecHeaderSize :: nat where "kFecHeaderSize = 10"

definition kUlpHeaderSizeLBitSet :: nat where "kUlpHeaderSizeLBitSet = 2 + kMaskSizeLBitSet"

definition kUlpHeaderSizeLBitClear :: nat where "kUlpHeaderSizeLBitClear = 2 + kMaskSizeLBitClear"

definition PacketOverhead :: nat where "PacketOverhead = kFecHeaderSize + kUlpHeaderSizeLBitSet"

record Packet =
  pkt_length :: nat
  pkt_data :: "byte list"

definition ParseSequenceNumber :: "byte list \<Rightarrow> 16 word" where
  "ParseSequenceNumber packet = two_bytes (drop 2 packet)"

definition mask_bytes :: "bool \<Rightarrow> nat" where
  "mask_bytes l_bit = (if l_bit then kMaskSizeLBitSet else kMaskSizeLBitClear)"

definition ulp_header_size :: "bool \<Rightarrow> nat" where
  "ulp_header_size l_bit = (if l_bit then kUlpHeaderSizeLBitSet else kUlpHeaderSizeLBitClear)"

lemmas fec_sizes = IP_PACKET_SIZE_def kRtpHeaderSize_def kMaxMediaPackets_def kMaskSizeLBitSet_def
  kMaskSizeLBitClear_def kFecHeaderSize_def kUlpHeaderSizeLBitSet_def kUlpHeaderSizeLBitClear_def
  mask_bytes_def ulp_header_size_def

text \<open>\<open>n\<close> turns of a loop with the body \<^verbatim>\<open>dst[j++] ^= src[k++]\<close>.\<close>

primrec xor_bytes :: "byte list \<Rightarrow> byte list \<Rightarrow> nat \<Rightarrow> nat \<Rightarrow> nat \<Rightarrow> byte list option" where
  "xor_bytes dst src j k 0 = Some dst"
| "xor_bytes dst src j k (Suc n) =
     (if j < length dst \<and> k < length src
      then xor_bytes (dst[j := dst ! j XOR src ! k]) src (Suc j) (Suc k) n else None)"

section \<open>Number of packets\<close>

definition GetNumberOfFecPackets :: "nat \<Rightarrow> nat \<Rightarrow> nat" where
  "GetNumberOfFecPackets num_media_packets protection_factor =
     (let num_fec_packets = (num_media_packets * protection_factor + 128) div 256
      in if protection_factor > 0 \<and> num_fec_packets = 0 then 1 else num_fec_packets)"

section \<open>Payload of the FEC packets\<close>

text \<open>\<open>payload_length_bytes\<close> is \<^verbatim>\<open>media_payload_length\<close>: the network ordered payload length.\<close>

definition payload_length_bytes :: "Packet \<Rightarrow> byte list" where
  "payload_length_bytes p = WriteBigEndian2 False (of_nat (pkt_length p) - of_nat kRtpHeaderSize :: 16 word)"

definition first_media :: "bool \<Rightarrow> Packet \<Rightarrow> byte list \<Rightarrow> byte list option" where
  "first_media l_bit media d = do {
     h \<leftarrow> load (pkt_data media) 0 2;
     d \<leftarrow> store d 0 h;
     ts \<leftarrow> load (pkt_data media) 4 4;
     d \<leftarrow> store d 4 ts;
     d \<leftarrow> store d 8 (payload_length_bytes media);
     payload \<leftarrow> load (pkt_data media) kRtpHeaderSize (pkt_length media - kRtpHeaderSize);
     store d (kFecHeaderSize + ulp_header_size l_bit) payload }"

definition next_media :: "bool \<Rightarrow> nat \<Rightarrow> Packet \<Rightarrow> byte list \<Rightarrow> byte list option" where
  "next_media l_bit fec_packet_length media d = do {
     d \<leftarrow> xor_bytes d (pkt_data media) 0 0 2;
     d \<leftarrow> xor_bytes d (pkt_data media) 4 4 4;
     d \<leftarrow> xor_bytes d (payload_length_bytes media) 8 0 2;
     xor_bytes d (pkt_data media) (kFecHeaderSize + ulp_header_size l_bit) kRtpHeaderSize
       (fec_packet_length - (kFecHeaderSize + ulp_header_size l_bit)) }"

definition add_media :: "bool \<Rightarrow> Packet \<Rightarrow> Packet \<Rightarrow> Packet option" where
  "add_media l_bit media fec =
     (let fec_rtp_offset = kFecHeaderSize + ulp_header_size l_bit - kRtpHeaderSize;
          fec_packet_length = (pkt_length media + fec_rtp_offset) mod 65536
      in do {
        d \<leftarrow> (if pkt_length fec = 0 then first_media l_bit media (pkt_data fec)
             else next_media l_bit fec_packet_length media (pkt_data fec));
        Some (fec\<lparr>pkt_data := d,
          pkt_length := if fec_packet_length > pkt_length fec then fec_packet_length else pkt_length fec\<rparr>) })"

text \<open>The inner loop of \<^verbatim>\<open>GenerateFecBitStrings\<close>, over the media packets.\<close>

fun protect_row :: "bool \<Rightarrow> byte list \<Rightarrow> nat \<Rightarrow> nat \<Rightarrow> 16 word \<Rightarrow> Packet list \<Rightarrow> Packet \<Rightarrow> Packet option" where
  "protect_row l_bit packet_mask pkt_mask_idx media_pkt_idx prev_seq_num [] fec = Some fec"
| "protect_row l_bit packet_mask pkt_mask_idx media_pkt_idx prev_seq_num (p # ps) fec =
     (if media_pkt_idx \<le> 7 \<and> pkt_mask_idx < length packet_mask then do {
        fec \<leftarrow> (if packet_mask ! pkt_mask_idx AND push_bit (7 - media_pkt_idx) 1 \<noteq> 0
                then add_media l_bit p fec else Some fec);
        let (media_pkt_idx, prev_seq_num) =
          (case ps of [] \<Rightarrow> (media_pkt_idx, prev_seq_num)
           | q # _ \<Rightarrow> let seq_num = ParseSequenceNumber (pkt_data q)
                      in (media_pkt_idx + unat (seq_num - prev_seq_num), seq_num));
        if media_pkt_idx = 8 then protect_row l_bit packet_mask (pkt_mask_idx + 1) 0 prev_seq_num ps fec
        else protect_row l_bit packet_mask pkt_mask_idx media_pkt_idx prev_seq_num ps fec }
      else None)"

text \<open>A loop over the FEC packets that treats each alone.\<close>

primrec each_fec :: "(nat \<Rightarrow> Packet \<Rightarrow> Packet option) \<Rightarrow> nat list \<Rightarrow> Packet list \<Rightarrow> Packet list option" where
  "each_fec f [] g = Some g"
| "each_fec f (i # is) g =
     (if i < length g then do { p \<leftarrow> f i (g ! i); each_fec f is (g[i := p]) } else None)"

definition GenerateFecBitStrings ::
  "Packet list \<Rightarrow> byte list \<Rightarrow> nat \<Rightarrow> bool \<Rightarrow> Packet list \<Rightarrow> Packet list option" where
  "GenerateFecBitStrings media_packet_list packet_mask num_fec_packets l_bit g =
     (if media_packet_list = [] then Some g
      else each_fec (\<lambda>i. protect_row l_bit packet_mask (i * mask_bytes l_bit) 0
             (ParseSequenceNumber (pkt_data (hd media_packet_list))) media_packet_list)
           [0..<num_fec_packets] g)"

section \<open>Headers of the FEC packets\<close>

definition fec_ulp_header :: "Packet \<Rightarrow> byte list \<Rightarrow> bool \<Rightarrow> nat \<Rightarrow> Packet \<Rightarrow> Packet option" where
  "fec_ulp_header media_packet packet_mask l_bit i fec =
     (let d = pkt_data fec;
          d = d[0 := d ! 0 AND 0x7F];
          d = d[0 := if l_bit then d ! 0 OR 0x40 else d ! 0 AND 0xBF]
      in do {
        sn \<leftarrow> load (pkt_data media_packet) 2 2;
        d \<leftarrow> store d 2 sn;
        d \<leftarrow> store d 10 (WriteBigEndian2 False
          (of_nat (pkt_length fec) - of_nat kFecHeaderSize - of_nat (ulp_header_size l_bit) :: 16 word));
        m \<leftarrow> load packet_mask (i * mask_bytes l_bit) (mask_bytes l_bit);
        d \<leftarrow> store d 12 m;
        Some (fec\<lparr>pkt_data := d\<rparr>) })"

definition GenerateFecUlpHeaders ::
  "Packet list \<Rightarrow> byte list \<Rightarrow> bool \<Rightarrow> nat \<Rightarrow> Packet list \<Rightarrow> Packet list option" where
  "GenerateFecUlpHeaders media_packet_list packet_mask l_bit num_fec_packets g =
     (case media_packet_list of [] \<Rightarrow> None
      | media_packet # _ \<Rightarrow>
          each_fec (fec_ulp_header media_packet packet_mask l_bit) [0..<num_fec_packets] g)"

section \<open>Holes in the sequence numbers\<close>

text \<open>\<^verbatim>\<open>InsertZeroColumns\<close> and \<^verbatim>\<open>CopyColumn\<close> with their loops over the rows.\<close>

primrec each_row :: "(nat \<Rightarrow> 's \<Rightarrow> 's option) \<Rightarrow> nat list \<Rightarrow> 's \<Rightarrow> 's option" where
  "each_row f [] s = Some s"
| "each_row f (row # rows) s = do { s \<leftarrow> f row s; each_row f rows s }"

definition shift_byte :: "nat \<Rightarrow> nat \<Rightarrow> byte list \<Rightarrow> byte list option" where
  "shift_byte idx n m = (if idx < length m then Some (m[idx := push_bit n (m ! idx)]) else None)"

definition InsertZeroColumns :: "nat \<Rightarrow> byte list \<Rightarrow> nat \<Rightarrow> nat \<Rightarrow> nat \<Rightarrow> byte list option" where
  "InsertZeroColumns num_zeros new_mask new_mask_bytes num_fec_packets new_bit_index =
     each_row (\<lambda>row. shift_byte (row * new_mask_bytes + new_bit_index div 8)
         (min num_zeros (7 - new_bit_index mod 8)))
       [0..<num_fec_packets] new_mask"

definition copy_bit :: "nat \<Rightarrow> nat \<Rightarrow> nat \<Rightarrow> nat \<Rightarrow> nat \<Rightarrow> byte list \<times> byte list \<Rightarrow> (byte list \<times> byte list) option" where
  "copy_bit new_mask_bytes old_mask_bytes new_bit_index old_bit_index row = (\<lambda>(new_mask, old_mask).
     let new_byte_index = row * new_mask_bytes + new_bit_index div 8;
         old_byte_index = row * old_mask_bytes + old_bit_index div 8
     in if new_byte_index < length new_mask \<and> old_byte_index < length old_mask
        then let b = new_mask ! new_byte_index OR drop_bit 7 (old_mask ! old_byte_index AND 0x80);
                 b = (if new_bit_index mod 8 \<noteq> 7 then push_bit 1 b else b)
             in Some (new_mask[new_byte_index := b],
                      old_mask[old_byte_index := push_bit 1 (old_mask ! old_byte_index)])
        else None)"

definition CopyColumn :: "byte list \<Rightarrow> nat \<Rightarrow> byte list \<Rightarrow> nat \<Rightarrow> nat \<Rightarrow> nat \<Rightarrow> nat \<Rightarrow> (byte list \<times> byte list) option" where
  "CopyColumn new_mask new_mask_bytes old_mask old_mask_bytes num_fec_packets new_bit_index old_bit_index =
     each_row (copy_bit new_mask_bytes old_mask_bytes new_bit_index old_bit_index)
       [0..<num_fec_packets] (new_mask, old_mask)"

text \<open>The loop over the media packets after the first.\<close>

fun insert_zeros :: "nat \<Rightarrow> nat \<Rightarrow> nat \<Rightarrow> Packet list \<Rightarrow> 16 word \<Rightarrow> nat \<Rightarrow> nat \<Rightarrow> byte list \<Rightarrow> byte list \<Rightarrow>
    (nat \<times> byte list) option" where
  "insert_zeros new_mask_bytes num_mask_bytes num_fec_packets [] prev_seq_num new_bit_index old_bit_index
     new_mask packet_mask = Some (new_bit_index, new_mask)"
| "insert_zeros new_mask_bytes num_mask_bytes num_fec_packets (p # ps) prev_seq_num new_bit_index old_bit_index
     new_mask packet_mask =
     (if new_bit_index = 8 * kMaskSizeLBitSet then Some (new_bit_index, new_mask)
      else let seq_num = ParseSequenceNumber (pkt_data p);
               zeros_to_insert = unat (seq_num - prev_seq_num - 1)
           in do {
             new_mask \<leftarrow> (if zeros_to_insert > 0
               then InsertZeroColumns zeros_to_insert new_mask new_mask_bytes num_fec_packets new_bit_index
               else Some new_mask);
             (new_mask, packet_mask) \<leftarrow> CopyColumn new_mask new_mask_bytes packet_mask num_mask_bytes
               num_fec_packets (new_bit_index + zeros_to_insert) old_bit_index;
             insert_zeros new_mask_bytes num_mask_bytes num_fec_packets ps seq_num
               (new_bit_index + zeros_to_insert + 1) (old_bit_index + 1) new_mask packet_mask })"

definition InsertZerosInBitMasks :: "Packet list \<Rightarrow> byte list \<Rightarrow> nat \<Rightarrow> nat \<Rightarrow> (nat \<times> byte list) option" where
  "InsertZerosInBitMasks media_packets packet_mask num_mask_bytes num_fec_packets =
     (if length media_packets \<le> 1 then Some (length media_packets, packet_mask)
      else let last_seq_num = ParseSequenceNumber (pkt_data (last media_packets));
               first_seq_num = ParseSequenceNumber (pkt_data (hd media_packets));
               total_missing_seq_nums = int (unat (last_seq_num - first_seq_num)) - int (length media_packets) + 1
           in if total_missing_seq_nums = 0 then Some (length media_packets, packet_mask)
              else let new_mask_bytes =
                         (if int (length media_packets) + total_missing_seq_nums > 8 * int kMaskSizeLBitClear
                          then kMaskSizeLBitSet else kMaskSizeLBitClear);
                       new_mask = replicate (num_fec_packets * kMaskSizeLBitSet) 0
                   in do {
                     (new_mask, old_mask) \<leftarrow> CopyColumn new_mask new_mask_bytes packet_mask num_mask_bytes
                       num_fec_packets 0 0;
                     (new_bit_index, new_mask) \<leftarrow> insert_zeros new_mask_bytes num_mask_bytes num_fec_packets
                       (tl media_packets) first_seq_num 1 1 new_mask old_mask;
                     new_mask \<leftarrow> (if new_bit_index mod 8 \<noteq> 0
                       then each_row (\<lambda>row. shift_byte (row * new_mask_bytes + new_bit_index div 8)
                              (7 - new_bit_index mod 8)) [0..<num_fec_packets] new_mask
                       else Some new_mask);
                     m \<leftarrow> store packet_mask 0 new_mask;
                     Some (new_bit_index, m) })"

end
