(* ===== verification/Fec_Masks.thy ===== *)
theory Fec_Masks
  imports Fec_Encoder
begin

text \<open>
  Forward error correction, the choice of the packet masks: \<^verbatim>\<open>forward_error_correction_internal.cc\<close>, the
  masks against bursts of losses of \<^verbatim>\<open>fec_private_tables_bursty.h\<close>, and \<^verbatim>\<open>GenerateFEC\<close>, which puts
  the parts of the encoder together.  The masks of \<^verbatim>\<open>fec_private_tables_random.h\<close>, 1176 arrays of data,
  are an argument (\<open>random_tbl\<close>): a table of the same shape whose values nothing below depends on.
\<close>

section \<open>Tables\<close>

type_synonym mask_table = "byte list list list"

datatype FecMaskType = kFecMaskRandom | kFecMaskBursty

definition kPacketMaskBursty1 :: "byte list list" where
  "kPacketMaskBursty1 =
     [[0x80, 0]]"

definition kPacketMaskBursty2 :: "byte list list" where
  "kPacketMaskBursty2 =
     [[0xC0, 0],
      [0x80, 0, 0xC0, 0]]"

definition kPacketMaskBursty3 :: "byte list list" where
  "kPacketMaskBursty3 =
     [[0xE0, 0],
      [0xC0, 0, 0xA0, 0],
      [0x80, 0, 0xC0, 0, 0x60, 0]]"

definition kPacketMaskBursty4 :: "byte list list" where
  "kPacketMaskBursty4 =
     [[0xF0, 0],
      [0xA0, 0, 0xD0, 0],
      [0xC0, 0, 0x60, 0, 0x90, 0],
      [0x80, 0, 0xC0, 0, 0x60, 0, 0x30, 0]]"

definition kPacketMaskBursty5 :: "byte list list" where
  "kPacketMaskBursty5 =
     [[0xF8, 0],
      [0xD0, 0, 0xA8, 0],
      [0x70, 0, 0x90, 0, 0xC8, 0],
      [0xC0, 0, 0x60, 0, 0x30, 0, 0x88, 0],
      [0x80, 0, 0xC0, 0, 0x60, 0, 0x30, 0, 0x18, 0]]"

definition kPacketMaskBursty6 :: "byte list list" where
  "kPacketMaskBursty6 =
     [[0xFC, 0],
      [0xA8, 0, 0xD4, 0],
      [0x94, 0, 0xC8, 0, 0x64, 0],
      [0x60, 0, 0x38, 0, 0x88, 0, 0xC4, 0],
      [0xC0, 0, 0x60, 0, 0x30, 0, 0x18, 0, 0x84, 0],
      [0x80, 0, 0xC0, 0, 0x60, 0, 0x30, 0, 0x18, 0, 0x0C, 0]]"

definition kPacketMaskBursty7 :: "byte list list" where
  "kPacketMaskBursty7 =
     [[0xFE, 0],
      [0xD4, 0, 0xAA, 0],
      [0xC8, 0, 0x74, 0, 0x92, 0],
      [0x38, 0, 0x8A, 0, 0xC4, 0, 0x62, 0],
      [0x60, 0, 0x30, 0, 0x1C, 0, 0x84, 0, 0xC2, 0],
      [0xC0, 0, 0x60, 0, 0x30, 0, 0x18, 0, 0x0C, 0, 0x82, 0],
      [0x80, 0, 0xC0, 0, 0x60, 0, 0x30, 0, 0x18, 0, 0x0C, 0, 0x06, 0]]"

definition kPacketMaskBursty8 :: "byte list list" where
  "kPacketMaskBursty8 =
     [[0xFF, 0],
      [0xAA, 0, 0xD5, 0],
      [0x74, 0, 0x92, 0, 0xC9, 0],
      [0x8A, 0, 0xC5, 0, 0x62, 0, 0x31, 0],
      [0x30, 0, 0x1C, 0, 0x85, 0, 0xC2, 0, 0x61, 0],
      [0x60, 0, 0x30, 0, 0x18, 0, 0x0E, 0, 0x82, 0, 0xC1, 0],
      [0xC0, 0, 0x60, 0, 0x30, 0, 0x18, 0, 0x0C, 0, 0x06, 0, 0x81, 0],
      [0x80, 0, 0xC0, 0, 0x60, 0, 0x30, 0, 0x18, 0, 0x0C, 0, 0x06, 0, 0x03,
       0]]"

definition kPacketMaskBursty9 :: "byte list list" where
  "kPacketMaskBursty9 =
     [[0xFF, 0x80],
      [0xD5, 0, 0xAA, 0x80],
      [0x92, 0, 0xC9, 0, 0x74, 0x80],
      [0xC5, 0, 0x62, 0, 0x39, 0, 0x8A, 0x80],
      [0x1C, 0, 0x85, 0, 0xC2, 0x80, 0x61, 0, 0x30, 0x80],
      [0x30, 0, 0x18, 0, 0x0E, 0, 0x82, 0x80, 0xC1, 0, 0x60, 0x80],
      [0x60, 0, 0x30, 0, 0x18, 0, 0x0C, 0, 0x07, 0, 0x81, 0, 0xC0, 0x80],
      [0xC0, 0, 0x60, 0, 0x30, 0, 0x18, 0, 0x0C, 0, 0x06, 0, 0x03, 0, 0x80,
       0x80],
      [0x80, 0, 0xC0, 0, 0x60, 0, 0x30, 0, 0x18, 0, 0x0C, 0, 0x06, 0, 0x03,
       0, 0x01, 0x80]]"

definition kPacketMaskBursty10 :: "byte list list" where
  "kPacketMaskBursty10 =
     [[0xFF, 0xC0],
      [0xAA, 0x80, 0xD5, 0x40],
      [0xC9, 0, 0x74, 0x80, 0x92, 0x40],
      [0x62, 0, 0x39, 0, 0x8A, 0x80, 0xC5, 0x40],
      [0x85, 0, 0xC2, 0x80, 0x61, 0x40, 0x30, 0x80, 0x18, 0x40],
      [0x18, 0, 0x0E, 0, 0x82, 0x80, 0xC1, 0x40, 0x60, 0x80, 0x30, 0x40],
      [0x30, 0, 0x18, 0, 0x0C, 0, 0x07, 0, 0x81, 0x40, 0xC0, 0x80, 0x60, 0x40],
      [0x60, 0, 0x30, 0, 0x18, 0, 0x0C, 0, 0x06, 0, 0x03, 0, 0x80, 0x80, 0xC0,
       0x40],
      [0xC0, 0, 0x60, 0, 0x30, 0, 0x18, 0, 0x0C, 0, 0x06, 0, 0x03, 0, 0x01,
       0x80, 0x80, 0x40],
      [0x80, 0, 0xC0, 0, 0x60, 0, 0x30, 0, 0x18, 0, 0x0C, 0, 0x06, 0, 0x03,
       0, 0x01, 0x80, 0, 0xC0]]"

definition kPacketMaskBursty11 :: "byte list list" where
  "kPacketMaskBursty11 =
     [[0xFF, 0xE0],
      [0xD5, 0x40, 0xAA, 0xA0],
      [0x74, 0x80, 0x92, 0x40, 0xC9, 0x20],
      [0x39, 0, 0x8A, 0x80, 0xC5, 0x40, 0x62, 0x20],
      [0xC2, 0xC0, 0x61, 0, 0x30, 0xA0, 0x1C, 0x40, 0x85, 0x20],
      [0x0E, 0, 0x82, 0x80, 0xC1, 0x40, 0x60, 0xA0, 0x30, 0x40, 0x18, 0x20],
      [0x18, 0, 0x0C, 0, 0x07, 0, 0x81, 0x40, 0xC0, 0xA0, 0x60, 0x40, 0x30, 0x20],
      [0x30, 0, 0x18, 0, 0x0C, 0, 0x06, 0, 0x03, 0x40, 0x80, 0xA0, 0xC0, 0x40, 0x60,
       0x20],
      [0x60, 0, 0x30, 0, 0x18, 0, 0x0C, 0, 0x06, 0, 0x03, 0, 0x01, 0x80, 0x80,
       0x40, 0xC0, 0x20],
      [0xC0, 0, 0x60, 0, 0x30, 0, 0x18, 0, 0x0C, 0, 0x06, 0, 0x03, 0, 0x01,
       0x80, 0, 0xC0, 0x80, 0x20],
      [0x80, 0, 0xC0, 0, 0x60, 0, 0x30, 0, 0x18, 0, 0x0C, 0, 0x06, 0, 0x03,
       0, 0x01, 0x80, 0, 0xC0, 0, 0x60]]"

definition kPacketMaskBursty12 :: "byte list list" where
  "kPacketMaskBursty12 =
     [[0xFF, 0xF0],
      [0xAA, 0xA0, 0xD5, 0x50],
      [0x92, 0x40, 0xC9, 0x20, 0x74, 0x90],
      [0x8A, 0x80, 0xC5, 0x40, 0x62, 0x20, 0x39, 0x10],
      [0x61, 0, 0x30, 0xA0, 0x1C, 0x50, 0x85, 0x20, 0xC2, 0x90],
      [0x82, 0x90, 0xC1, 0x40, 0x60, 0xA0, 0x30, 0x50, 0x18, 0x20, 0x0C, 0x10],
      [0x0C, 0, 0x07, 0, 0x81, 0x40, 0xC0, 0xA0, 0x60, 0x50, 0x30, 0x20, 0x18, 0x10],
      [0x18, 0, 0x0C, 0, 0x06, 0, 0x03, 0, 0x80, 0xA0, 0xC0, 0x50, 0x60, 0x20, 0x30,
       0x10],
      [0x30, 0, 0x18, 0, 0x0C, 0, 0x06, 0, 0x03, 0, 0x01, 0x80, 0x80, 0x50, 0xC0,
       0x20, 0x60, 0x10],
      [0x60, 0, 0x30, 0, 0x18, 0, 0x0C, 0, 0x06, 0, 0x03, 0, 0x01, 0x80, 0,
       0xC0, 0x80, 0x20, 0xC0, 0x10],
      [0xC0, 0, 0x60, 0, 0x30, 0, 0x18, 0, 0x0C, 0, 0x06, 0, 0x03, 0, 0x01,
       0x80, 0, 0xC0, 0, 0x60, 0x80, 0x10],
      [0x80, 0, 0xC0, 0, 0x60, 0, 0x30, 0, 0x18, 0, 0x0C, 0, 0x06, 0, 0x03,
       0, 0x01, 0x80, 0, 0xC0, 0, 0x60, 0, 0x30]]"

definition kPacketMaskBurstyTbl :: mask_table where
  "kPacketMaskBurstyTbl =
     [kPacketMaskBursty1, kPacketMaskBursty2, kPacketMaskBursty3, kPacketMaskBursty4, kPacketMaskBursty5,
      kPacketMaskBursty6, kPacketMaskBursty7, kPacketMaskBursty8, kPacketMaskBursty9, kPacketMaskBursty10,
      kPacketMaskBursty11, kPacketMaskBursty12]"

lemmas bursty_table_defs = kPacketMaskBurstyTbl_def kPacketMaskBursty1_def kPacketMaskBursty2_def
  kPacketMaskBursty3_def kPacketMaskBursty4_def kPacketMaskBursty5_def kPacketMaskBursty6_def
  kPacketMaskBursty7_def kPacketMaskBursty8_def kPacketMaskBursty9_def kPacketMaskBursty10_def
  kPacketMaskBursty11_def kPacketMaskBursty12_def

definition InitMaskType :: "FecMaskType \<Rightarrow> nat \<Rightarrow> FecMaskType" where
  "InitMaskType fec_mask_type num_media_packets =
     (case fec_mask_type of kFecMaskRandom \<Rightarrow> kFecMaskRandom
      | kFecMaskBursty \<Rightarrow> let max_media_packets = length kPacketMaskBurstyTbl
          in if num_media_packets > max_media_packets then kFecMaskRandom else kFecMaskBursty)"

definition InitMaskTable :: "mask_table \<Rightarrow> FecMaskType \<Rightarrow> mask_table" where
  "InitMaskTable random_tbl fec_mask_type =
     (case fec_mask_type of kFecMaskRandom \<Rightarrow> random_tbl | kFecMaskBursty \<Rightarrow> kPacketMaskBurstyTbl)"

definition PacketMaskTable :: "mask_table \<Rightarrow> FecMaskType \<Rightarrow> nat \<Rightarrow> mask_table" where
  "PacketMaskTable random_tbl fec_mask_type num_media_packets =
     InitMaskTable random_tbl (InitMaskType fec_mask_type num_media_packets)"

text \<open>\<^verbatim>\<open>table[media - 1][fec - 1]\<close>.\<close>

definition mask_of :: "mask_table \<Rightarrow> nat \<Rightarrow> nat \<Rightarrow> byte list option" where
  "mask_of table num_media num_fec =
     (if 0 < num_media \<and> num_media \<le> length table \<and> 0 < num_fec \<and> num_fec \<le> length (table ! (num_media - 1))
      then Some (table ! (num_media - 1) ! (num_fec - 1)) else None)"

section \<open>Fitting a mask into another\<close>

text \<open>The mask that is written starts at the offset \<open>base\<close>.\<close>

definition FitSubMask :: "nat \<Rightarrow> nat \<Rightarrow> nat \<Rightarrow> byte list \<Rightarrow> nat \<Rightarrow> byte list \<Rightarrow> byte list option" where
  "FitSubMask num_mask_bytes num_sub_mask_bytes num_rows sub_mask base packet_mask =
     (if num_mask_bytes = num_sub_mask_bytes
      then do { s \<leftarrow> load sub_mask 0 (num_rows * num_sub_mask_bytes); store packet_mask base s }
      else each_row (\<lambda>i packet_mask. do {
               s \<leftarrow> load sub_mask (i * num_sub_mask_bytes) num_sub_mask_bytes;
               store packet_mask (base + i * num_mask_bytes) s }) [0..<num_rows] packet_mask)"

primrec shift_row :: "nat \<Rightarrow> nat \<Rightarrow> nat \<Rightarrow> nat \<Rightarrow> byte list \<Rightarrow> byte list \<Rightarrow> byte list option" where
  "shift_row num_bit_shifts 0 pkt_mask_idx pkt_mask_idx2 sub_mask packet_mask = do {
     b \<leftarrow> load1 sub_mask pkt_mask_idx2;
     store packet_mask pkt_mask_idx [drop_bit num_bit_shifts b] }"
| "shift_row num_bit_shifts (Suc j) pkt_mask_idx pkt_mask_idx2 sub_mask packet_mask = do {
     b \<leftarrow> load1 sub_mask pkt_mask_idx2;
     a \<leftarrow> load1 sub_mask (pkt_mask_idx2 - 1);
     packet_mask \<leftarrow> store packet_mask pkt_mask_idx
       [drop_bit num_bit_shifts b OR push_bit (8 - num_bit_shifts) a];
     shift_row num_bit_shifts j (pkt_mask_idx - 1) (pkt_mask_idx2 - 1) sub_mask packet_mask }"

definition ShiftFitSubMask :: "nat \<Rightarrow> nat \<Rightarrow> nat \<Rightarrow> nat \<Rightarrow> byte list \<Rightarrow> byte list \<Rightarrow> byte list option" where
  "ShiftFitSubMask num_mask_bytes res_mask_bytes num_column_shift end_row sub_mask packet_mask =
     (let num_bit_shifts = num_column_shift mod 8; num_byte_shifts = num_column_shift div 8
      in each_row (\<lambda>i packet_mask.
           let pkt_mask_idx = i * num_mask_bytes + res_mask_bytes - 1 + num_byte_shifts;
               pkt_mask_idx2 = (i - num_column_shift) * res_mask_bytes + res_mask_bytes - 1
           in do {
             packet_mask \<leftarrow> (if num_mask_bytes > res_mask_bytes
               then do { b \<leftarrow> load1 sub_mask pkt_mask_idx2;
                         store packet_mask (pkt_mask_idx + 1) [push_bit (8 - num_bit_shifts) b] }
               else Some packet_mask);
             shift_row num_bit_shifts (res_mask_bytes - 1) pkt_mask_idx pkt_mask_idx2 sub_mask packet_mask })
         [num_column_shift..<end_row] packet_mask)"

section \<open>Unequal protection\<close>

datatype ProtectionMode = kModeNoOverlap | kModeOverlap | kModeBiasFirstPacket

definition RemainingPacketProtection ::
  "nat \<Rightarrow> nat \<Rightarrow> nat \<Rightarrow> nat \<Rightarrow> ProtectionMode \<Rightarrow> mask_table \<Rightarrow> byte list \<Rightarrow> byte list option" where
  "RemainingPacketProtection num_media_packets num_fec_remaining num_fec_for_imp_packets num_mask_bytes
     mode table packet_mask =
     (if mode = kModeNoOverlap
      then let l_bit = num_media_packets - num_fec_for_imp_packets > 16; res_mask_bytes = mask_bytes l_bit
           in do {
             sub \<leftarrow> mask_of table (num_media_packets - num_fec_for_imp_packets) num_fec_remaining;
             ShiftFitSubMask num_mask_bytes res_mask_bytes num_fec_for_imp_packets
               (num_fec_for_imp_packets + num_fec_remaining) sub packet_mask }
      else do {
        sub \<leftarrow> mask_of table num_media_packets num_fec_remaining;
        packet_mask \<leftarrow> FitSubMask num_mask_bytes num_mask_bytes num_fec_remaining sub
          (num_fec_for_imp_packets * num_mask_bytes) packet_mask;
        if mode = kModeBiasFirstPacket
        then each_row (\<lambda>i packet_mask. do {
               b \<leftarrow> load1 packet_mask (i * num_mask_bytes);
               store packet_mask (i * num_mask_bytes) [b OR 0x80] }) [0..<num_fec_remaining] packet_mask
        else Some packet_mask })"

definition ImportantPacketProtection :: "nat \<Rightarrow> nat \<Rightarrow> nat \<Rightarrow> mask_table \<Rightarrow> byte list \<Rightarrow> byte list option" where
  "ImportantPacketProtection num_fec_for_imp_packets num_imp_packets num_mask_bytes table packet_mask =
     (let num_imp_mask_bytes = mask_bytes (num_imp_packets > 16)
      in do {
        sub \<leftarrow> mask_of table num_imp_packets num_fec_for_imp_packets;
        FitSubMask num_mask_bytes num_imp_mask_bytes num_fec_for_imp_packets sub 0 packet_mask })"

text \<open>Half of the FEC packets, rounded down by the conversion of the \<^verbatim>\<open>float\<close>.\<close>

definition SetProtectionAllocation :: "nat \<Rightarrow> nat \<Rightarrow> nat \<Rightarrow> nat" where
  "SetProtectionAllocation num_media_packets num_fec_packets num_imp_packets =
     (let max_num_fec_for_imp = num_fec_packets div 2;
          num_fec_for_imp_packets =
            (if num_imp_packets < max_num_fec_for_imp then num_imp_packets else max_num_fec_for_imp)
      in if num_fec_packets = 1 \<and> num_media_packets > 2 * num_imp_packets then 0 else num_fec_for_imp_packets)"

definition UnequalProtectionMask :: "nat \<Rightarrow> nat \<Rightarrow> nat \<Rightarrow> nat \<Rightarrow> mask_table \<Rightarrow> byte list \<Rightarrow> byte list option" where
  "UnequalProtectionMask num_media_packets num_fec_packets num_imp_packets num_mask_bytes table packet_mask =
     (let mode = kModeOverlap;
          num_fec_for_imp_packets =
            (if mode \<noteq> kModeBiasFirstPacket
             then SetProtectionAllocation num_media_packets num_fec_packets num_imp_packets else 0);
          num_fec_remaining = num_fec_packets - num_fec_for_imp_packets
      in do {
        packet_mask \<leftarrow> (if num_fec_for_imp_packets > 0
          then ImportantPacketProtection num_fec_for_imp_packets num_imp_packets num_mask_bytes table packet_mask
          else Some packet_mask);
        if num_fec_remaining > 0
        then RemainingPacketProtection num_media_packets num_fec_remaining num_fec_for_imp_packets
               num_mask_bytes mode table packet_mask
        else Some packet_mask })"

definition GeneratePacketMasks :: "nat \<Rightarrow> nat \<Rightarrow> nat \<Rightarrow> bool \<Rightarrow> mask_table \<Rightarrow> byte list \<Rightarrow> byte list option" where
  "GeneratePacketMasks num_media_packets num_fec_packets num_imp_packets use_unequal_protection table packet_mask =
     (let num_mask_bytes = mask_bytes (num_media_packets > 16)
      in if \<not> use_unequal_protection \<or> num_imp_packets = 0
         then do {
           m \<leftarrow> mask_of table num_media_packets num_fec_packets;
           m \<leftarrow> load m 0 (num_fec_packets * num_mask_bytes);
           store packet_mask 0 m }
         else UnequalProtectionMask num_media_packets num_fec_packets num_imp_packets num_mask_bytes
                table packet_mask)"

section \<open>Generating FEC packets\<close>

text \<open>The result is the return value, the list of FEC packets and the storage \<^verbatim>\<open>generated_fec_packets_\<close>
  they live in.  The mask is allocated with six bytes per row; the bytes that are not set to zero
  are never read before they are written, and are zero here.\<close>

definition GenerateFEC :: "mask_table \<Rightarrow> Packet list \<Rightarrow> byte \<Rightarrow> nat \<Rightarrow> bool \<Rightarrow> FecMaskType \<Rightarrow> Packet list \<Rightarrow>
    (int \<times> Packet list \<times> Packet list) option" where
  "GenerateFEC random_tbl media_packet_list protection_factor num_important_packets use_unequal_protection
     fec_mask_type generated =
     (let num_media_packets = length media_packet_list mod 2 ^ 16
      in if num_media_packets > kMaxMediaPackets then Some (- 1, [], generated)
         else let l_bit = num_media_packets > 8 * kMaskSizeLBitClear; num_maskBytes = mask_bytes l_bit
         in if list_ex (\<lambda>p. pkt_length p < kRtpHeaderSize) media_packet_list then Some (- 1, [], generated)
         else let num_fec_packets = GetNumberOfFecPackets num_media_packets (unat protection_factor)
         in if num_fec_packets = 0 then Some (0, [], generated)
         else do {
           g \<leftarrow> each_fec (\<lambda>i p. Some \<lparr>pkt_length = 0, pkt_data = replicate IP_PACKET_SIZE 0\<rparr>)
                  [0..<num_fec_packets] generated;
           let mask_table = PacketMaskTable random_tbl fec_mask_type num_media_packets;
           packet_mask \<leftarrow> GeneratePacketMasks num_media_packets num_fec_packets num_important_packets
             use_unequal_protection mask_table (replicate (num_fec_packets * kMaskSizeLBitSet) 0);
           (num_maskBits, packet_mask) \<leftarrow> InsertZerosInBitMasks media_packet_list packet_mask num_maskBytes
             num_fec_packets;
           let l_bit = num_maskBits > 8 * kMaskSizeLBitClear;
           g \<leftarrow> GenerateFecBitStrings media_packet_list packet_mask num_fec_packets l_bit g;
           g \<leftarrow> GenerateFecUlpHeaders media_packet_list packet_mask l_bit num_fec_packets g;
           Some (0, take num_fec_packets g, g) })"

end
