(* ===== verification/Fec_Decoder.thy ===== *)
theory Fec_Decoder
  imports Fec_Encoder
begin

text \<open>
  Forward error correction, the receiver's side: \<^verbatim>\<open>forward_error_correction.cc\<close> from \<^verbatim>\<open>ResetState\<close> to
  \<^verbatim>\<open>DecodeFEC\<close>.  The decoder keeps the FEC packets that may still be of use, each with the list of
  the media packets it protects; the caller keeps the list of media packets that arrived or were
  recovered.  Packets are reference counted and never written once they are in a list, so that a
  pointer to one is modelled by its value and \<^verbatim>\<open>NULL\<close> by \<open>None\<close>.  As in the encoder a result
  \<open>None\<close> is an access outside an array or past the end of a list.
\<close>

section \<open>Data\<close>

record ReceivedPacket =
  rx_seq_num :: "16 word"
  rx_ssrc :: "32 word"
  is_fec :: bool
  rx_pkt :: Packet

record RecoveredPacket =
  rec_seq_num :: "16 word"
  was_recovered :: bool
  returned :: bool
  length_recovery :: "byte list"
  rec_pkt :: Packet

record ProtectedPacket =
  prot_seq_num :: "16 word"
  prot_pkt :: "Packet option"

record FecPacket =
  fec_seq_num :: "16 word"
  protected_pkt_list :: "ProtectedPacket list"
  fec_ssrc :: "32 word"
  fec_pkt :: Packet

record ForwardErrorCorrection =
  generated_fec_packets :: "Packet list"
  fec_packet_list :: "FecPacket list"
  fec_packet_received :: bool

definition new_ForwardErrorCorrection :: ForwardErrorCorrection where
  "new_ForwardErrorCorrection =
     \<lparr>generated_fec_packets = replicate kMaxMediaPackets \<lparr>pkt_length = 0, pkt_data = replicate IP_PACKET_SIZE 0\<rparr>,
      fec_packet_list = [], fec_packet_received = False\<rparr>"

definition kMaxFecPackets :: nat where "kMaxFecPackets = kMaxMediaPackets"

definition LessThan :: "16 word \<Rightarrow> 16 word \<Rightarrow> bool" where
  "LessThan first second = IsNewerSequenceNumber second first"

text \<open>The absolute difference of two sequence numbers as integers.\<close>

definition seq_num_diff :: "16 word \<Rightarrow> 16 word \<Rightarrow> nat" where
  "seq_num_diff a b = nat \<bar>int (unat a) - int (unat b)\<bar>"

section \<open>Algorithms of the standard library\<close>

text \<open>\<^verbatim>\<open>std::list::sort\<close> is stable; for a comparison that is a strict weak order on the elements
  there is only one result, that of inserting the elements one after the other.\<close>

fun insert_by :: "('a \<Rightarrow> 'a \<Rightarrow> bool) \<Rightarrow> 'a \<Rightarrow> 'a list \<Rightarrow> 'a list" where
  "insert_by lt x [] = [x]"
| "insert_by lt x (y # ys) = (if lt x y then x # y # ys else y # insert_by lt x ys)"

definition list_sort :: "('a \<Rightarrow> 'a \<Rightarrow> bool) \<Rightarrow> 'a list \<Rightarrow> 'a list" where
  "list_sort lt xs = foldl (\<lambda>ys x. insert_by lt x ys) [] xs"

text \<open>\<^verbatim>\<open>std::lower_bound\<close> bisects the range of \<open>n\<close> elements from \<open>first\<close>.\<close>

fun lower_bound :: "('a \<Rightarrow> bool) \<Rightarrow> 'a list \<Rightarrow> nat \<Rightarrow> nat \<Rightarrow> nat" where
  "lower_bound below xs first n =
     (if n = 0 then first
      else let half = n div 2; middle = first + half
           in if below (xs ! middle) then lower_bound below xs (middle + 1) (n - half - 1)
              else lower_bound below xs first half)"

declare lower_bound.simps [simp del]

text \<open>\<^verbatim>\<open>std::set_intersection\<close>, which copies from the first range.\<close>

fun set_intersection :: "('a \<Rightarrow> 'b \<Rightarrow> bool) \<Rightarrow> ('b \<Rightarrow> 'a \<Rightarrow> bool) \<Rightarrow> 'a list \<Rightarrow> 'b list \<Rightarrow> 'a list" where
  "set_intersection lt gt (x # xs) (y # ys) =
     (if lt x y then set_intersection lt gt xs (y # ys)
      else if gt y x then set_intersection lt gt (x # xs) ys
      else x # set_intersection lt gt xs ys)"
| "set_intersection lt gt xs ys = []"

section \<open>Inserting packets\<close>

definition ResetState :: "ForwardErrorCorrection \<Rightarrow> ForwardErrorCorrection \<times> RecoveredPacket list" where
  "ResetState s = (s\<lparr>fec_packet_received := False, fec_packet_list := []\<rparr>, [])"

definition sort_recovered :: "RecoveredPacket list \<Rightarrow> RecoveredPacket list" where
  "sort_recovered = list_sort (\<lambda>a b. LessThan (rec_seq_num a) (rec_seq_num b))"

definition update_covering :: "RecoveredPacket \<Rightarrow> FecPacket \<Rightarrow> FecPacket" where
  "update_covering packet f =
     (let ps = protected_pkt_list f;
          i = lower_bound (\<lambda>p. LessThan (prot_seq_num p) (rec_seq_num packet)) ps 0 (length ps)
      in if i < length ps \<and> prot_seq_num (ps ! i) = rec_seq_num packet
         then f\<lparr>protected_pkt_list := ps[i := (ps ! i)\<lparr>prot_pkt := Some (rec_pkt packet)\<rparr>]\<rparr>
         else f)"

definition UpdateCoveringFECPackets :: "RecoveredPacket \<Rightarrow> FecPacket list \<Rightarrow> FecPacket list" where
  "UpdateCoveringFECPackets packet fecs = map (update_covering packet) fecs"

text \<open>The bytes \<^verbatim>\<open>length_recovery\<close> of a packet that was not recovered are never set or read.\<close>

definition InsertMediaPacket ::
  "ReceivedPacket \<Rightarrow> RecoveredPacket list \<Rightarrow> ForwardErrorCorrection \<Rightarrow> RecoveredPacket list \<times> ForwardErrorCorrection" where
  "InsertMediaPacket rx_packet recovered s =
     (if list_ex (\<lambda>r. rx_seq_num rx_packet = rec_seq_num r) recovered then (recovered, s)
      else let r = \<lparr>rec_seq_num = rx_seq_num rx_packet, was_recovered = False, returned = True,
                    length_recovery = [], rec_pkt = rx_pkt rx_packet\<rparr>
           in (sort_recovered (recovered @ [r]),
               s\<lparr>fec_packet_list := UpdateCoveringFECPackets r (fec_packet_list s)\<rparr>))"

text \<open>The loop of \<^verbatim>\<open>AssignRecoveredPackets\<close>.\<close>

fun assign_recovered :: "RecoveredPacket list \<Rightarrow> ProtectedPacket list \<Rightarrow> ProtectedPacket list option" where
  "assign_recovered [] not_recovered = Some not_recovered"
| "assign_recovered (r # rs) [] = None"
| "assign_recovered (r # rs) (p # ps) =
     (if prot_seq_num p \<noteq> rec_seq_num r then map_option (Cons p) (assign_recovered (r # rs) ps)
      else assign_recovered rs (p\<lparr>prot_pkt := Some (rec_pkt r)\<rparr> # ps))"

definition AssignRecoveredPackets :: "RecoveredPacket list \<Rightarrow> FecPacket \<Rightarrow> FecPacket option" where
  "AssignRecoveredPackets recovered f =
     (let already_recovered = set_intersection (\<lambda>r p. LessThan (rec_seq_num r) (prot_seq_num p))
            (\<lambda>p r. LessThan (prot_seq_num p) (rec_seq_num r)) recovered (protected_pkt_list f)
      in map_option (\<lambda>ps. f\<lparr>protected_pkt_list := ps\<rparr>) (assign_recovered already_recovered (protected_pkt_list f)))"

text \<open>The sequence numbers a FEC packet covers, by its mask.\<close>

definition covered_seqs :: "byte list \<Rightarrow> 16 word list" where
  "covered_seqs d =
     (let seq_num_base = (ReadBigEndian2 (take 2 (drop 2 d)) :: 16 word);
          maskSizeBytes = (if d ! 0 AND 0x40 \<noteq> 0 then kMaskSizeLBitSet else kMaskSizeLBitClear)
      in concat (map (\<lambda>byte_idx. concat (map (\<lambda>bit_idx.
           if d ! (12 + byte_idx) AND push_bit (7 - bit_idx) 1 \<noteq> 0
           then [seq_num_base + of_nat (8 * byte_idx) + of_nat bit_idx] else []) [0..<8])) [0..<maskSizeBytes]))"

definition InsertFECPacket ::
  "ReceivedPacket \<Rightarrow> RecoveredPacket list \<Rightarrow> ForwardErrorCorrection \<Rightarrow> ForwardErrorCorrection option" where
  "InsertFECPacket rx_packet recovered s =
     (let s = s\<lparr>fec_packet_received := True\<rparr>
      in if list_ex (\<lambda>f. rx_seq_num rx_packet = fec_seq_num f) (fec_packet_list s) then Some s
         else let f = \<lparr>fec_seq_num = rx_seq_num rx_packet,
                       protected_pkt_list = map (\<lambda>n. \<lparr>prot_seq_num = n, prot_pkt = None\<rparr>)
                         (covered_seqs (pkt_data (rx_pkt rx_packet))),
                       fec_ssrc = rx_ssrc rx_packet, fec_pkt = rx_pkt rx_packet\<rparr>
              in if protected_pkt_list f = [] then Some s
                 else do {
                   f \<leftarrow> AssignRecoveredPackets recovered f;
                   let fecs = list_sort (\<lambda>a b. LessThan (fec_seq_num a) (fec_seq_num b)) (fec_packet_list s @ [f]);
                   let fecs = (if length fecs > kMaxFecPackets then tl fecs else fecs);
                   Some (s\<lparr>fec_packet_list := fecs\<rparr>) })"

definition DiscardOldPackets :: "RecoveredPacket list \<Rightarrow> RecoveredPacket list" where
  "DiscardOldPackets recovered = drop (length recovered - kMaxMediaPackets) recovered"

definition discard_old_fec :: "16 word \<Rightarrow> FecPacket list \<Rightarrow> FecPacket list" where
  "discard_old_fec seq fecs =
     (case fecs of [] \<Rightarrow> []
      | f # fs \<Rightarrow> if seq_num_diff seq (fec_seq_num f) > 0x3FFF then fs else f # fs)"

definition insert_packet :: "ReceivedPacket \<Rightarrow> RecoveredPacket list \<times> ForwardErrorCorrection \<Rightarrow>
    (RecoveredPacket list \<times> ForwardErrorCorrection) option" where
  "insert_packet rx_packet = (\<lambda>(recovered, s).
     let s = s\<lparr>fec_packet_list := discard_old_fec (rx_seq_num rx_packet) (fec_packet_list s)\<rparr>
     in if is_fec rx_packet then map_option (Pair recovered) (InsertFECPacket rx_packet recovered s)
        else Some (InsertMediaPacket rx_packet recovered s))"

primrec insert_all :: "ReceivedPacket list \<Rightarrow> RecoveredPacket list \<times> ForwardErrorCorrection \<Rightarrow>
    (RecoveredPacket list \<times> ForwardErrorCorrection) option" where
  "insert_all [] st = Some st"
| "insert_all (rx # rxs) st = do { st \<leftarrow> insert_packet rx st; insert_all rxs st }"

definition InsertPackets :: "ReceivedPacket list \<Rightarrow> RecoveredPacket list \<times> ForwardErrorCorrection \<Rightarrow>
    (RecoveredPacket list \<times> ForwardErrorCorrection) option" where
  "InsertPackets received st = do { (recovered, s) \<leftarrow> insert_all received st; Some (DiscardOldPackets recovered, s) }"

section \<open>Recovering a packet\<close>

definition InitRecovery :: "FecPacket \<Rightarrow> RecoveredPacket option" where
  "InitRecovery f =
     (let d = pkt_data (fec_pkt f);
          ulp_header_size = (if d ! 0 AND 0x40 \<noteq> 0 then kUlpHeaderSizeLBitSet else kUlpHeaderSizeLBitClear)
      in do {
        protection_length \<leftarrow> load d 10 2;
        payload \<leftarrow> load d (kFecHeaderSize + ulp_header_size) (unat (ReadBigEndian2 protection_length :: 16 word));
        r \<leftarrow> store (replicate IP_PACKET_SIZE 0) kRtpHeaderSize payload;
        len \<leftarrow> load d 8 2;
        h \<leftarrow> load d 0 2;
        r \<leftarrow> store r 0 h;
        ts \<leftarrow> load d 4 4;
        r \<leftarrow> store r 4 ts;
        r \<leftarrow> store r 8 (WriteBigEndian4 False (fec_ssrc f));
        Some \<lparr>rec_seq_num = 0, was_recovered = True, returned = False, length_recovery = len,
              rec_pkt = \<lparr>pkt_length = 0, pkt_data = r\<rparr>\<rparr> })"

definition FinishRecovery :: "RecoveredPacket \<Rightarrow> RecoveredPacket option" where
  "FinishRecovery r =
     (let d = pkt_data (rec_pkt r);
          d = d[0 := d ! 0 OR 0x80];
          d = d[0 := d ! 0 AND 0xBF]
      in do {
        d \<leftarrow> store d 2 (WriteBigEndian2 False (rec_seq_num r));
        Some (r\<lparr>rec_pkt := \<lparr>pkt_length = unat (ReadBigEndian2 (length_recovery r) :: 16 word) + kRtpHeaderSize,
                            pkt_data = d\<rparr>\<rparr>) })"

definition XorPackets :: "Packet \<Rightarrow> RecoveredPacket \<Rightarrow> RecoveredPacket option" where
  "XorPackets src dst = do {
     d \<leftarrow> xor_bytes (pkt_data (rec_pkt dst)) (pkt_data src) 0 0 2;
     d \<leftarrow> xor_bytes d (pkt_data src) 4 4 4;
     len \<leftarrow> xor_bytes (length_recovery dst) (payload_length_bytes src) 0 0 2;
     d \<leftarrow> xor_bytes d (pkt_data src) kRtpHeaderSize kRtpHeaderSize (pkt_length src - kRtpHeaderSize);
     Some (dst\<lparr>length_recovery := len, rec_pkt := (rec_pkt dst)\<lparr>pkt_data := d\<rparr>\<rparr>) }"

primrec recover_loop :: "ProtectedPacket list \<Rightarrow> RecoveredPacket \<Rightarrow> RecoveredPacket option" where
  "recover_loop [] r = Some r"
| "recover_loop (p # ps) r =
     (case prot_pkt p of None \<Rightarrow> recover_loop ps (r\<lparr>rec_seq_num := prot_seq_num p\<rparr>)
      | Some q \<Rightarrow> do { r \<leftarrow> XorPackets q r; recover_loop ps r })"

definition RecoverPacket :: "FecPacket \<Rightarrow> RecoveredPacket option" where
  "RecoverPacket f = do {
     r \<leftarrow> InitRecovery f;
     r \<leftarrow> recover_loop (protected_pkt_list f) r;
     FinishRecovery r }"

text \<open>The loop stops at the second missing packet.\<close>

fun count_missing :: "nat \<Rightarrow> ProtectedPacket list \<Rightarrow> nat" where
  "count_missing n [] = n"
| "count_missing n (p # ps) =
     (if prot_pkt p = None then if n + 1 > 1 then n + 1 else count_missing (n + 1) ps else count_missing n ps)"

definition NumCoveredPacketsMissing :: "FecPacket \<Rightarrow> nat" where
  "NumCoveredPacketsMissing f = count_missing 0 (protected_pkt_list f)"

section \<open>Decoding\<close>

definition remove_at :: "nat \<Rightarrow> 'a list \<Rightarrow> 'a list" where
  "remove_at i xs = take i xs @ drop (Suc i) xs"

lemma length_remove_at [simp]: "i < length xs \<Longrightarrow> length (remove_at i xs) = length xs - 1"
  by (simp add: remove_at_def)

text \<open>\<^verbatim>\<open>AttemptRecover\<close>; \<open>i\<close> is the position of the iterator.  After a packet has been recovered the
  search starts again.\<close>

function attempt_recover :: "nat \<Rightarrow> FecPacket list \<Rightarrow> RecoveredPacket list \<Rightarrow>
    (RecoveredPacket list \<times> FecPacket list) option" where
  "attempt_recover i fecs recovered =
     (if i < length fecs
      then let packets_missing = NumCoveredPacketsMissing (fecs ! i)
           in if packets_missing = 1
              then (case RecoverPacket (fecs ! i) of None \<Rightarrow> None
                    | Some r \<Rightarrow> attempt_recover 0 (remove_at i (UpdateCoveringFECPackets r fecs))
                                  (DiscardOldPackets (sort_recovered (recovered @ [r]))))
              else if packets_missing = 0 then attempt_recover i (remove_at i fecs) recovered
              else attempt_recover (i + 1) fecs recovered
      else Some (recovered, fecs))"
  by pat_completeness auto
termination
  by (relation "measures [\<lambda>(i, fecs, recovered). length fecs, \<lambda>(i, fecs, recovered). length fecs - i]")
    (auto simp: UpdateCoveringFECPackets_def)

declare attempt_recover.simps [simp del]

definition AttemptRecover :: "RecoveredPacket list \<times> ForwardErrorCorrection \<Rightarrow>
    (RecoveredPacket list \<times> ForwardErrorCorrection) option" where
  "AttemptRecover = (\<lambda>(recovered, s). do {
     (recovered, fecs) \<leftarrow> attempt_recover 0 (fec_packet_list s) recovered;
     Some (recovered, s\<lparr>fec_packet_list := fecs\<rparr>) })"

definition DecodeFEC :: "ReceivedPacket list \<Rightarrow> RecoveredPacket list \<times> ForwardErrorCorrection \<Rightarrow>
    (int \<times> RecoveredPacket list \<times> ForwardErrorCorrection) option" where
  "DecodeFEC received = (\<lambda>(recovered, s).
     if length recovered = kMaxMediaPackets \<and> received = [] then None
     else let (s, recovered) =
                (if length recovered = kMaxMediaPackets \<and>
                    seq_num_diff (rx_seq_num (hd received)) (rec_seq_num (last recovered)) > kMaxMediaPackets
                 then ResetState s else (s, recovered))
          in do {
            st \<leftarrow> InsertPackets received (recovered, s);
            st \<leftarrow> AttemptRecover st;
            Some (0, st) })"

end
