(* ===== verification/Fec_Producer.thy ===== *)
theory Fec_Producer
  imports Fec_Masks Fec_Decoder
begin

text \<open>
  The sender of protected packets: \<^verbatim>\<open>producer_fec.cc\<close>, which wraps media and FEC packets into RED
  packets (RFC 2198, with the header of one byte) and decides when enough frames are there to generate
  FEC packets, and the protected part of \<^verbatim>\<open>RTPSenderVideo::SendVideoPacket\<close>, which puts a media packet
  and the FEC packets that have become available on the network.  A result \<open>None\<close> is an
  access outside an array or of the last element of an empty list, or a failed assertion.
\<close>

section \<open>Constants\<close>

definition kREDForFECHeaderLength :: nat where "kREDForFECHeaderLength = 1"

definition kMaxExcessOverhead :: int where "kMaxExcessOverhead = 50"

definition kMinimumMediaPackets :: nat where "kMinimumMediaPackets = 4"

definition kHighProtectionThreshold :: int where "kHighProtectionThreshold = 80"

definition kRtpMarkerBitMask :: byte where "kRtpMarkerBitMask = 0x80"

section \<open>RED packets\<close>

text \<open>The array \<^verbatim>\<open>data_\<close> has \<^verbatim>\<open>length_\<close> bytes.  A new one is not initialised; every byte is written
  before the packet is sent, and zero stands for the bytes until then.\<close>

record RedPacket =
  red_data :: "byte list"
  header_length :: nat

definition new_RedPacket :: "nat \<Rightarrow> RedPacket" where
  "new_RedPacket n = \<lparr>red_data = replicate n 0, header_length = 0\<rparr>"

text \<open>The second byte of an RTP header with another payload type: the marker bit is kept.\<close>

definition replace_payload_type :: "byte \<Rightarrow> byte list \<Rightarrow> byte list option" where
  "replace_payload_type pl_type d = do {
     b \<leftarrow> load1 d 1;
     d \<leftarrow> store d 1 [b AND 0x80];
     b \<leftarrow> load1 d 1;
     store d 1 [b + pl_type] }"

definition CreateHeader :: "byte list \<Rightarrow> nat \<Rightarrow> int \<Rightarrow> int \<Rightarrow> RedPacket \<Rightarrow> RedPacket option" where
  "CreateHeader rtp_header hdr_length red_pl_type pl_type p = do {
     h \<leftarrow> load rtp_header 0 hdr_length;
     d \<leftarrow> store (red_data p) 0 h;
     d \<leftarrow> replace_payload_type (word_of_int red_pl_type) d;
     d \<leftarrow> store d hdr_length [word_of_int pl_type];
     Some (p\<lparr>red_data := d, header_length := hdr_length + kREDForFECHeaderLength\<rparr>) }"

definition SetSeqNum :: "int \<Rightarrow> RedPacket \<Rightarrow> RedPacket option" where
  "SetSeqNum seq_num p =
     (if 0 \<le> seq_num \<and> seq_num < 2 ^ 16 then do {
        d \<leftarrow> store (red_data p) 2 (WriteBigEndian2 False (word_of_int seq_num :: 16 word));
        Some (p\<lparr>red_data := d\<rparr>) }
      else None)"

definition AssignPayload :: "byte list \<Rightarrow> nat \<Rightarrow> RedPacket \<Rightarrow> RedPacket option" where
  "AssignPayload payload n p = do {
     x \<leftarrow> load payload 0 n;
     d \<leftarrow> store (red_data p) (header_length p) x;
     Some (p\<lparr>red_data := d\<rparr>) }"

definition ClearMarkerBit :: "RedPacket \<Rightarrow> RedPacket option" where
  "ClearMarkerBit p = do {
     b \<leftarrow> load1 (red_data p) 1;
     d \<leftarrow> store (red_data p) 1 [b AND 0x7F];
     Some (p\<lparr>red_data := d\<rparr>) }"

section \<open>The producer\<close>

record FecProtectionParams =
  fec_rate :: int
  use_uep_protection :: bool
  max_fec_frames :: int
  fec_mask_type :: FecMaskType

record ProducerFec =
  fec :: ForwardErrorCorrection
  media_packets_fec :: "Packet list"
  fec_packets :: "Packet list"
  num_frames :: int
  incomplete_frame :: bool
  num_first_partition :: nat
  minimum_media_packets_fec :: nat
  params :: FecProtectionParams
  new_params :: FecProtectionParams

definition zero_params :: FecProtectionParams where
  "zero_params = \<lparr>fec_rate = 0, use_uep_protection = False, max_fec_frames = 0, fec_mask_type = kFecMaskRandom\<rparr>"

definition new_ProducerFec :: "ForwardErrorCorrection \<Rightarrow> ProducerFec" where
  "new_ProducerFec f =
     \<lparr>fec = f, media_packets_fec = [], fec_packets = [], num_frames = 0, incomplete_frame = False,
      num_first_partition = 0, minimum_media_packets_fec = 1, params = zero_params, new_params = zero_params\<rparr>"

definition SetFecParameters :: "FecProtectionParams \<Rightarrow> nat \<Rightarrow> ProducerFec \<Rightarrow> ProducerFec option" where
  "SetFecParameters ps first_partition p =
     (if 0 \<le> fec_rate ps \<and> fec_rate ps < 256
      then Some (p\<lparr>new_params := ps,
             num_first_partition := (if first_partition > kMaxMediaPackets then kMaxMediaPackets else first_partition),
             minimum_media_packets_fec := (if fec_rate ps > kHighProtectionThreshold then kMinimumMediaPackets else 1)\<rparr>)
      else None)"

definition BuildRedPacket :: "byte list \<Rightarrow> nat \<Rightarrow> nat \<Rightarrow> int \<Rightarrow> RedPacket option" where
  "BuildRedPacket data_buffer payload_length rtp_header_length red_pl_type = do {
     b \<leftarrow> load1 data_buffer 1;
     red \<leftarrow> CreateHeader data_buffer rtp_header_length red_pl_type (uint (b AND 0x7F))
       (new_RedPacket (payload_length + kREDForFECHeaderLength + rtp_header_length));
     AssignPayload (drop rtp_header_length data_buffer) payload_length red }"

text \<open>The overhead in Q8.\<close>

definition Overhead :: "ProducerFec \<Rightarrow> int" where
  "Overhead p =
     (let num_fec_packets = GetNumberOfFecPackets (length (media_packets_fec p)) (nat (fec_rate (params p)))
      in int (num_fec_packets * 256 div length (media_packets_fec p)))"

definition ExcessOverheadBelowMax :: "ProducerFec \<Rightarrow> bool" where
  "ExcessOverheadBelowMax p \<longleftrightarrow> Overhead p - fec_rate (params p) < kMaxExcessOverhead"

text \<open>The average number of packets of a frame is compared as a \<^verbatim>\<open>float\<close> with \<open>2\<close>; for the at most 48 packets of
  the list the quotient is below 2 exactly when the numbers say so.\<close>

definition MinimumMediaPacketsReached :: "ProducerFec \<Rightarrow> bool" where
  "MinimumMediaPacketsReached p \<longleftrightarrow>
     (if int (length (media_packets_fec p)) < 2 * num_frames p
      then length (media_packets_fec p) \<ge> minimum_media_packets_fec p
      else length (media_packets_fec p) \<ge> minimum_media_packets_fec p + 1)"

definition DeletePackets :: "ProducerFec \<Rightarrow> ProducerFec" where
  "DeletePackets p = p\<lparr>media_packets_fec := []\<rparr>"

text \<open>The result is the return value with the new state.  A new \<^verbatim>\<open>Packet\<close> is zero.\<close>

definition AddRtpPacketAndGenerateFec :: "mask_table \<Rightarrow> byte list \<Rightarrow> nat \<Rightarrow> nat \<Rightarrow> ProducerFec \<Rightarrow>
    (int \<times> ProducerFec) option" where
  "AddRtpPacketAndGenerateFec random_tbl data_buffer payload_length rtp_header_length p =
     (if fec_packets p \<noteq> [] then None
      else let p = (if media_packets_fec p = [] then p\<lparr>params := new_params p\<rparr> else p);
               p = p\<lparr>incomplete_frame := True\<rparr>
      in do {
        b \<leftarrow> load1 data_buffer 1;
        let marker_bit = b AND kRtpMarkerBitMask \<noteq> 0;
        p \<leftarrow> (if length (media_packets_fec p) < kMaxMediaPackets
          then do {
            x \<leftarrow> load data_buffer 0 (payload_length + rtp_header_length);
            d \<leftarrow> store (replicate IP_PACKET_SIZE 0) 0 x;
            Some (p\<lparr>media_packets_fec := media_packets_fec p @
              [\<lparr>pkt_length = payload_length + rtp_header_length, pkt_data = d\<rparr>]\<rparr>) }
          else Some p);
        let p = (if marker_bit then p\<lparr>num_frames := num_frames p + 1, incomplete_frame := False\<rparr> else p);
        if \<not> incomplete_frame p \<and>
           (num_frames p = max_fec_frames (params p) \<or> ExcessOverheadBelowMax p \<and> MinimumMediaPacketsReached p)
        then do {
          (ret, fecs, g) \<leftarrow> GenerateFEC random_tbl (media_packets_fec p) (word_of_int (fec_rate (params p)))
            (num_first_partition p) (use_uep_protection (params p)) (fec_mask_type (params p))
            (generated_fec_packets (fec p));
          let p = p\<lparr>fec := (fec p)\<lparr>generated_fec_packets := g\<rparr>, fec_packets := fecs\<rparr>;
          let p = (if fecs = [] then DeletePackets (p\<lparr>num_frames := 0\<rparr>) else p);
          Some (ret, p) }
        else Some (0, p) })"

definition FecAvailable :: "ProducerFec \<Rightarrow> bool" where
  "FecAvailable p \<longleftrightarrow> length (fec_packets p) > 0"

definition GetFecPacket :: "int \<Rightarrow> int \<Rightarrow> 16 word \<Rightarrow> nat \<Rightarrow> ProducerFec \<Rightarrow> (RedPacket option \<times> ProducerFec) option" where
  "GetFecPacket red_pl_type fec_pl_type seq_num rtp_header_length p =
     (case fec_packets p of [] \<Rightarrow> Some (None, p)
      | packet_to_send # rest \<Rightarrow>
          if media_packets_fec p = [] then None
          else do {
            red \<leftarrow> CreateHeader (pkt_data (last (media_packets_fec p))) rtp_header_length red_pl_type fec_pl_type
              (new_RedPacket (pkt_length packet_to_send + kREDForFECHeaderLength + rtp_header_length));
            red \<leftarrow> SetSeqNum (uint seq_num) red;
            red \<leftarrow> ClearMarkerBit red;
            red \<leftarrow> AssignPayload (pkt_data packet_to_send) (pkt_length packet_to_send) red;
            let p = p\<lparr>fec_packets := rest\<rparr>;
            Some (Some red, if rest = [] then (DeletePackets p)\<lparr>num_frames := 0\<rparr> else p) })"

section \<open>Sending\<close>

text \<open>The network is the parameter \<^verbatim>\<open>SendToNetwork\<close>, which gets the bytes of a packet, and returns 0 for
  success.  The state has the producer, the next sequence number of the sender and the network.  The return value
  is the disjunction of what the calls return, as in the code.\<close>

type_synonym 'n send_state = "ProducerFec \<times> 16 word \<times> 'n"

lemma GetFecPacket_shorter:
  assumes "GetFecPacket r f n h p = Some (red, p')" "FecAvailable p"
  shows "length (fec_packets p') < length (fec_packets p)"
  using assms by (auto simp: GetFecPacket_def FecAvailable_def DeletePackets_def bind_eq_Some_conv Let_def
      split: list.splits if_splits)

function send_fec :: "(byte list \<Rightarrow> 'n \<Rightarrow> int \<times> 'n) \<Rightarrow> int \<Rightarrow> int \<Rightarrow> nat \<Rightarrow> int \<Rightarrow> 'n send_state \<Rightarrow>
    (int \<times> 'n send_state) option" where
  "send_fec SendToNetwork red_pl_type fec_pl_type rtp_header_length ret (p, seq, net) =
     (if FecAvailable p then
        (case GetFecPacket red_pl_type fec_pl_type seq rtp_header_length p of
           Some (Some red, p) \<Rightarrow>
             let (packet_success, net) = SendToNetwork (red_data red) net
             in send_fec SendToNetwork red_pl_type fec_pl_type rtp_header_length (ret OR packet_success) (p, seq + 1, net)
         | _ \<Rightarrow> None)
      else Some (ret, p, seq, net))"
  by pat_completeness auto
termination
  by (relation "measure (\<lambda>(_, _, _, _, _, p, _, _). length (fec_packets p))") (auto dest: GetFecPacket_shorter)

declare send_fec.simps [simp del]

definition SendVideoPacket :: "(byte list \<Rightarrow> 'n \<Rightarrow> int \<times> 'n) \<Rightarrow> mask_table \<Rightarrow> int \<Rightarrow> int \<Rightarrow>
    byte list \<Rightarrow> nat \<Rightarrow> nat \<Rightarrow> bool \<Rightarrow> 'n send_state \<Rightarrow> (int \<times> 'n send_state) option" where
  "SendVideoPacket SendToNetwork random_tbl red_pl_type fec_pl_type data_buffer payload_length rtp_header_length protect =
     (\<lambda>(p, seq, net). do {
        red \<leftarrow> BuildRedPacket data_buffer payload_length rtp_header_length red_pl_type;
        let (packet_success, net) = SendToNetwork (red_data red) net;
        if protect
        then do {
          (ret, p) \<leftarrow> AddRtpPacketAndGenerateFec random_tbl data_buffer payload_length rtp_header_length p;
          if ret \<noteq> 0 then Some (ret, p, seq, net)
          else send_fec SendToNetwork red_pl_type fec_pl_type rtp_header_length ret (p, seq, net) }
        else send_fec SendToNetwork red_pl_type fec_pl_type rtp_header_length packet_success (p, seq, net) })"

end
