(* ===== verification/Fec_Receiver.thy ===== *)
theory Fec_Receiver
  imports Fec_Producer Rtp_Parser
begin

text \<open>
  The receiver of protected packets: \<^verbatim>\<open>fec_receiver_impl.cc\<close>, which unwraps RED packets, hands media packets
  and what the decoder recovers to a callback, and counts, and the two calls that
  \<^verbatim>\<open>ViEReceiver::ParseAndHandleEncapsulatingHeader\<close> makes for a RED packet.  The lock, which is given up
  during the callback, is not modelled.  As in the decoder \<open>None\<close> is an access outside an array;
  sizes are \<open>nat\<close>s below \<open>2 ^ 64\<close>, and a subtraction wraps around.
\<close>

section \<open>Data\<close>

record FecPacketCounter =
  num_packets :: nat
  num_fec_packets :: nat
  num_recovered_packets :: nat

record FecReceiverImpl =
  recv_fec :: ForwardErrorCorrection
  received_packet_list :: "ReceivedPacket list"
  recovered_packet_list :: "RecoveredPacket list"
  packet_counter :: FecPacketCounter

definition new_FecReceiverImpl :: FecReceiverImpl where
  "new_FecReceiverImpl =
     \<lparr>recv_fec = new_ForwardErrorCorrection, received_packet_list = [], recovered_packet_list = [],
      packet_counter = \<lparr>num_packets = 0, num_fec_packets = 0, num_recovered_packets = 0\<rparr>\<rparr>"

definition GetPacketCounter :: "FecReceiverImpl \<Rightarrow> FecPacketCounter" where
  "GetPacketCounter s = packet_counter s"

definition size_minus :: "nat \<Rightarrow> nat \<Rightarrow> nat" where
  "size_minus a b = nat ((int a - int b) mod 2 ^ 64)"

section \<open>Unwrapping RED packets\<close>

text \<open>The RED header at offset \<open>hl\<close>: \<open>Some None\<close> when the packet is refused, otherwise the length of the header
  and the length of the first block, which is 0 when there is only one.\<close>

definition red_header :: "byte list \<Rightarrow> nat \<Rightarrow> nat \<Rightarrow> (nat \<times> nat) option option" where
  "red_header packet hl payload_data_length = do {
     b0 \<leftarrow> load1 packet hl;
     if b0 AND 0x80 = 0 then Some (Some (1, 0))
     else do {
       b1 \<leftarrow> load1 packet (hl + 1);
       b2 \<leftarrow> load1 packet (hl + 2);
       let timestamp_offset = drop_bit 2 (two_bytes [b1, b2]);
       if timestamp_offset \<noteq> 0 then Some None
       else do {
         b3 \<leftarrow> load1 packet (hl + 3);
         let blockLength = unat (two_bytes [b2 AND 3, b3]);
         b4 \<leftarrow> load1 packet (hl + 4);
         if b4 AND 0x80 \<noteq> 0 then Some None
         else if blockLength > size_minus payload_data_length 4 then Some None
         else Some (Some (4, blockLength)) } } }"

text \<open>A media packet: the header with its payload type, then \<open>n\<close> bytes of payload.\<close>

definition unwrap_media :: "byte list \<Rightarrow> nat \<Rightarrow> nat \<Rightarrow> byte \<Rightarrow> nat \<Rightarrow> byte list option" where
  "unwrap_media packet hl red_length payload_type n = do {
     h \<leftarrow> load packet 0 hl;
     d \<leftarrow> store (replicate IP_PACKET_SIZE 0) 0 h;
     d \<leftarrow> replace_payload_type payload_type d;
     x \<leftarrow> load packet (hl + red_length) n;
     store d hl x }"

definition unwrap_fec :: "byte list \<Rightarrow> nat \<Rightarrow> nat \<Rightarrow> byte list option" where
  "unwrap_fec packet start n = do {
     x \<leftarrow> load packet start n;
     store (replicate IP_PACKET_SIZE 0) 0 x }"

text \<open>The source of a received packet is set for a packet with one block of FEC only; \<open>ssrc1\<close> and
  \<open>ssrc2\<close> are what the memory of the two new objects holds.\<close>

definition AddReceivedRedPacket :: "32 word \<Rightarrow> 32 word \<Rightarrow> RTPHeader \<Rightarrow> byte list \<Rightarrow> nat \<Rightarrow> byte \<Rightarrow> FecReceiverImpl \<Rightarrow>
    (int \<times> FecReceiverImpl) option" where
  "AddReceivedRedPacket ssrc1 ssrc2 header packet packet_length ulpfec_payload_type s =
     (let hl = headerLength header; payload_data_length = size_minus packet_length hl
      in do {
        b \<leftarrow> load1 packet hl;
        let payload_type = b AND 0x7F;
        let is_fec_packet = (payload_type = ulpfec_payload_type);
        red \<leftarrow> red_header packet hl payload_data_length;
        case red of None \<Rightarrow> Some (- 1, s)
        | Some (REDHeaderLength, blockLength) \<Rightarrow>
            let c = packet_counter s; c = c\<lparr>num_packets := num_packets c + 1\<rparr>;
                new_rx = \<lparr>rx_seq_num = sequenceNumber header, rx_ssrc = ssrc1, is_fec = is_fec_packet,
                  rx_pkt = \<lparr>pkt_length = 0, pkt_data = replicate IP_PACKET_SIZE 0\<rparr>\<rparr>
            in if blockLength > 0 then
                 let fec_length = size_minus (size_minus payload_data_length 5) blockLength
                 in do {
                   d \<leftarrow> unwrap_media packet hl 5 payload_type blockLength;
                   d2 \<leftarrow> unwrap_fec packet (hl + 5 + blockLength) fec_length;
                   Some (0, s\<lparr>packet_counter := c\<lparr>num_fec_packets := num_fec_packets c + 1\<rparr>,
                     received_packet_list := received_packet_list s @
                       [new_rx\<lparr>rx_pkt := \<lparr>pkt_length = blockLength, pkt_data = d\<rparr>\<rparr>,
                        new_rx\<lparr>rx_ssrc := ssrc2, is_fec := True, rx_pkt := \<lparr>pkt_length = fec_length, pkt_data = d2\<rparr>\<rparr>]\<rparr>) }
               else if is_fec_packet then
                 let n = size_minus payload_data_length REDHeaderLength; c = c\<lparr>num_fec_packets := num_fec_packets c + 1\<rparr>
                 in do {
                   d \<leftarrow> unwrap_fec packet (hl + REDHeaderLength) n;
                   src \<leftarrow> load packet 8 4;
                   Some (0, if n = 0 then s\<lparr>packet_counter := c\<rparr>
                     else s\<lparr>packet_counter := c, received_packet_list := received_packet_list s @
                       [new_rx\<lparr>rx_ssrc := ReadBigEndian4 src, rx_pkt := \<lparr>pkt_length = n, pkt_data = d\<rparr>\<rparr>]\<rparr>) }
               else
                 let n = size_minus payload_data_length REDHeaderLength; len = size_minus (hl + payload_data_length) REDHeaderLength
                 in do {
                   d \<leftarrow> unwrap_media packet hl REDHeaderLength payload_type n;
                   Some (0, if len = 0 then s\<lparr>packet_counter := c\<rparr>
                     else s\<lparr>packet_counter := c, received_packet_list := received_packet_list s @
                       [new_rx\<lparr>rx_pkt := \<lparr>pkt_length = len, pkt_data = d\<rparr>\<rparr>]\<rparr>) } })"

section \<open>Delivering packets\<close>

text \<open>The callback \<^verbatim>\<open>OnRecoveredPacket\<close> is a parameter with a state of its own.  The loop over the recovered
  packets gives whether it came to the end, the packets with their flags, the number of packets counted,
  and the state of the callback.\<close>

fun deliver :: "(byte list \<Rightarrow> nat \<Rightarrow> 'c \<Rightarrow> bool \<times> 'c) \<Rightarrow> RecoveredPacket list \<Rightarrow> nat \<Rightarrow> 'c \<Rightarrow>
    bool \<times> RecoveredPacket list \<times> nat \<times> 'c" where
  "deliver cb [] n c = (True, [], n, c)"
| "deliver cb (r # rs) n c =
     (if returned r then let (ok, rs', n, c) = deliver cb rs n c in (ok, r # rs', n, c)
      else let (ok, c) = cb (pkt_data (rec_pkt r)) (pkt_length (rec_pkt r)) c
           in if \<not> ok then (False, r # rs, n + 1, c)
              else let (ok, rs', n, c) = deliver cb rs (n + 1) c in (ok, r\<lparr>returned := True\<rparr> # rs', n, c))"

definition deliver_recovered :: "(byte list \<Rightarrow> nat \<Rightarrow> 'c \<Rightarrow> bool \<times> 'c) \<Rightarrow> FecReceiverImpl \<Rightarrow> 'c \<Rightarrow> int \<times> FecReceiverImpl \<times> 'c" where
  "deliver_recovered cb s c =
     (let (ok, recs, n, c) = deliver cb (recovered_packet_list s) (num_recovered_packets (packet_counter s)) c
      in (if ok then 0 else - 1,
          s\<lparr>recovered_packet_list := recs, packet_counter := (packet_counter s)\<lparr>num_recovered_packets := n\<rparr>\<rparr>, c))"

definition ProcessReceivedFec :: "(byte list \<Rightarrow> nat \<Rightarrow> 'c \<Rightarrow> bool \<times> 'c) \<Rightarrow> FecReceiverImpl \<Rightarrow> 'c \<Rightarrow>
    (int \<times> FecReceiverImpl \<times> 'c) option" where
  "ProcessReceivedFec cb s c =
     (case received_packet_list s of [] \<Rightarrow> Some (deliver_recovered cb s c)
      | rx # _ \<Rightarrow>
          let (ok, c) = (if is_fec rx then (True, c) else cb (pkt_data (rx_pkt rx)) (pkt_length (rx_pkt rx)) c)
          in if \<not> ok then Some (- 1, s, c)
             else do {
               (ret, recs, f) \<leftarrow> DecodeFEC (received_packet_list s) (recovered_packet_list s, recv_fec s);
               let s = s\<lparr>received_packet_list := [], recovered_packet_list := recs, recv_fec := f\<rparr>;
               Some (if ret \<noteq> 0 then (- 1, s, c) else deliver_recovered cb s c) })"

text \<open>What the receiver does with a RED packet, and with a sequence of them as long as it succeeds.\<close>

definition receive_red :: "(byte list \<Rightarrow> nat \<Rightarrow> 'c \<Rightarrow> bool \<times> 'c) \<Rightarrow> byte \<Rightarrow> 32 word \<times> 32 word \<times> RTPHeader \<times> byte list \<Rightarrow>
    FecReceiverImpl \<times> 'c \<Rightarrow> (bool \<times> FecReceiverImpl \<times> 'c) option" where
  "receive_red cb ulpfec_pt = (\<lambda>(ssrc1, ssrc2, header, packet) (s, c). do {
     (ret, s) \<leftarrow> AddReceivedRedPacket ssrc1 ssrc2 header packet (length packet) ulpfec_pt s;
     if ret \<noteq> 0 then Some (False, s, c)
     else do { (ret, s, c) \<leftarrow> ProcessReceivedFec cb s c; Some (ret = 0, s, c) } })"

fun receive_reds :: "(byte list \<Rightarrow> nat \<Rightarrow> 'c \<Rightarrow> bool \<times> 'c) \<Rightarrow> byte \<Rightarrow> (32 word \<times> 32 word \<times> RTPHeader \<times> byte list) list \<Rightarrow>
    FecReceiverImpl \<times> 'c \<Rightarrow> (FecReceiverImpl \<times> 'c) option" where
  "receive_reds cb ulpfec_pt [] st = Some st"
| "receive_reds cb ulpfec_pt (a # as) st = (case receive_red cb ulpfec_pt a st of
     Some (True, st) \<Rightarrow> receive_reds cb ulpfec_pt as st | _ \<Rightarrow> None)"

end
