(* ===== verification/Fec_Parity.thy ===== *)
theory Fec_Parity
  imports Fec_Masks Fec_Decoder
begin

text \<open>
  What a FEC packet says about the media packets it protects.  A packet has an \<open>image\<close>, the bytes that
  take part in the exclusive or, and the image of a FEC packet is the sum of the images of its media
  packets.  The theory shows this for every packet that \<^verbatim>\<open>GenerateFEC\<close> makes, and that
  \<^verbatim>\<open>RecoverPacket\<close> gets a missing packet back from a FEC packet with that property.
\<close>

section \<open>Parity\<close>

text \<open>The contract of exclusive or: a commutative group in which every element is its own inverse.\<close>

locale parity =
  fixes add :: "'v \<Rightarrow> 'v \<Rightarrow> 'v" and zero :: 'v
  assumes assoc: "add (add x y) z = add x (add y z)"
    and comm: "add x y = add y x"
    and zero_left: "add zero x = x"
    and self: "add x x = zero"
begin

lemma zero_right: "add x zero = x"
  using comm [of x zero] by (simp add: zero_left)

lemma left_comm: "add x (add y z) = add y (add x z)"
  using assoc [of x y z] assoc [of y x z] comm [of x y] by simp

lemma foldr_start: "foldr add xs y = add (foldr add xs zero) y"
  by (induction xs) (simp_all add: zero_left assoc)

lemma foldr_both: "foldr add (xs @ ys) zero = add (foldr add xs zero) (foldr add ys zero)"
  unfolding foldr_append by (rule foldr_start)

lemma foldl_start: "foldl add y xs = add y (foldr add xs zero)"
  by (induction xs arbitrary: y) (simp_all add: zero_right assoc)

text \<open>The other summands take the one that is missing out of the sum.\<close>

lemma sum_missing: "foldl add (foldr add (xs @ m # ys) zero) (xs @ ys) = m"
proof -
  have "foldl add (foldr add (xs @ m # ys) zero) (xs @ ys) =
      add (add (foldr add xs zero) (add m (foldr add ys zero))) (add (foldr add xs zero) (foldr add ys zero))"
    by (simp only: foldl_start foldr_both foldr_Cons o_apply)
  also have "\<dots> = add m (add (add (foldr add xs zero) (foldr add xs zero)) (add (foldr add ys zero) (foldr add ys zero)))"
    by (simp only: assoc comm left_comm)
  also have "\<dots> = m" by (simp add: self zero_right)
  finally show ?thesis .
qed

lemma pointwise: "parity (\<lambda>f g i. add (f i) (g i)) (\<lambda>_. zero)"
  by unfold_locales (simp_all add: assoc zero_left self fun_eq_iff, simp add: comm)

end

interpretation byte_xor: parity "(XOR) :: byte \<Rightarrow> byte \<Rightarrow> byte" 0
  by unfold_locales (simp_all add: xor.assoc, simp add: xor.commute)

definition xor_image :: "(nat \<Rightarrow> byte) \<Rightarrow> (nat \<Rightarrow> byte) \<Rightarrow> nat \<Rightarrow> byte" where
  "xor_image f g = (\<lambda>i. f i XOR g i)"

interpretation image_xor: parity xor_image "\<lambda>_. 0"
  using byte_xor.pointwise by (simp add: xor_image_def [abs_def])

definition sum_images :: "(nat \<Rightarrow> byte) list \<Rightarrow> nat \<Rightarrow> byte" where
  "sum_images fs = foldr xor_image fs (\<lambda>_. 0)"

section \<open>Images\<close>

text \<open>The image of a packet from its header bytes, the bytes of its length and its payload.  The
  version bits of the first byte, the sequence number and the source are not part of it; the two bytes
  of the length stand in the place of the sequence number.\<close>

definition bytes_image :: "(nat \<Rightarrow> byte) \<Rightarrow> (nat \<Rightarrow> byte) \<Rightarrow> (nat \<Rightarrow> byte) \<Rightarrow> nat \<Rightarrow> byte" where
  "bytes_image h l b i =
     (if i = 0 then h 0 AND 0x3F else if i = 1 then h 1 else if i < 4 then l (i - 2)
      else if i < 8 then h i else if i < 12 then 0 else b i)"

definition packet_image :: "Packet \<Rightarrow> nat \<Rightarrow> byte" where
  "packet_image p = bytes_image (\<lambda>i. pkt_data p ! i) (\<lambda>i. payload_length_bytes p ! i)
     (\<lambda>i. if i < pkt_length p then pkt_data p ! i else 0)"

definition recovered_image :: "RecoveredPacket \<Rightarrow> nat \<Rightarrow> byte" where
  "recovered_image r = bytes_image (\<lambda>i. pkt_data (rec_pkt r) ! i) (\<lambda>i. length_recovery r ! i)
     (\<lambda>i. if i < 1500 then pkt_data (rec_pkt r) ! i else 0)"

text \<open>The bytes of the payload from \<open>n\<close> on are not protected.\<close>

definition fec_image :: "bool \<Rightarrow> byte list \<Rightarrow> nat \<Rightarrow> nat \<Rightarrow> byte" where
  "fec_image l_bit d n = bytes_image (\<lambda>i. d ! i) (\<lambda>i. d ! (8 + i))
     (\<lambda>i. if i < n then d ! (i + (ulp_header_size l_bit - 2)) else 0)"

lemma bytes_image_cong:
  assumes "h 0 AND 0x3F = h' 0 AND 0x3F" "\<And>i. i = 1 \<or> 4 \<le> i \<and> i < 8 \<Longrightarrow> h i = h' i"
    "\<And>i. i < 2 \<Longrightarrow> l i = l' i" "\<And>i. 12 \<le> i \<Longrightarrow> b i = b' i"
  shows "bytes_image h l b = bytes_image h' l' b'"
  using assms by (auto simp: bytes_image_def fun_eq_iff)

lemma bytes_image_xor:
  "xor_image (bytes_image h l b) (bytes_image h' l' b') =
   bytes_image (\<lambda>i. h i XOR h' i) (\<lambda>i. l i XOR l' i) (\<lambda>i. b i XOR b' i)"
proof
  have a: "(x AND 0x3F) XOR (y AND 0x3F) = (x XOR y) AND (0x3F :: byte)" for x y
    by (rule bit_word_eqI) (auto simp: bit_simps)
  show "xor_image (bytes_image h l b) (bytes_image h' l' b') i =
      bytes_image (\<lambda>i. h i XOR h' i) (\<lambda>i. l i XOR l' i) (\<lambda>i. b i XOR b' i) i" for i
    by (simp add: xor_image_def bytes_image_def a)
qed

lemma bytes_image_0 [simp]: "bytes_image (\<lambda>_. 0) (\<lambda>_. 0) (\<lambda>_. 0) = (\<lambda>_. 0)"
  by (simp add: bytes_image_def fun_eq_iff)

section \<open>Loops over bytes\<close>

definition xor_at :: "byte list \<Rightarrow> byte list \<Rightarrow> nat \<Rightarrow> nat \<Rightarrow> nat \<Rightarrow> byte list" where
  "xor_at dst src j k n =
     map (\<lambda>i. if j \<le> i \<and> i < j + n then dst ! i XOR src ! (k + (i - j)) else dst ! i) [0..<length dst]"

lemma length_xor_at [simp]: "length (xor_at dst src j k n) = length dst"
  by (simp add: xor_at_def)

lemma nth_xor_at [simp]: "i < length dst \<Longrightarrow>
    xor_at dst src j k n ! i = (if j \<le> i \<and> i < j + n then dst ! i XOR src ! (k + (i - j)) else dst ! i)"
  by (simp add: xor_at_def)

lemma xor_bytes_at:
  "j + n \<le> length dst \<Longrightarrow> k + n \<le> length src \<Longrightarrow> xor_bytes dst src j k n = Some (xor_at dst src j k n)"
proof (induction n arbitrary: dst j k)
  case 0
  have "xor_at dst src j k 0 = dst" by (rule nth_equalityI) auto
  then show ?case by simp
next
  case (Suc n)
  have "xor_at (dst[j := dst ! j XOR src ! k]) src (Suc j) (Suc k) n = xor_at dst src j k (Suc n)"
    using Suc.prems by (intro nth_equalityI) (auto simp: nth_list_update Suc_diff_le le_Suc_eq not_less_eq_eq Suc_diff_Suc)
  then show ?case using Suc by simp
qed

lemma store_at: "j + length src \<le> length d \<Longrightarrow> store d j src = Some (memcpy d j src)"
  by (simp add: store_def)

lemma length_payload_length_bytes [simp]: "length (payload_length_bytes p) = 2"
  by (simp add: payload_length_bytes_def u16f.length_enc)

section \<open>Encoding\<close>

definition media_fits :: "bool \<Rightarrow> Packet \<Rightarrow> bool" where
  "media_fits l_bit p \<longleftrightarrow> length (pkt_data p) = 1500 \<and> 12 \<le> pkt_length p \<and>
     pkt_length p + (ulp_header_size l_bit - 2) \<le> 1500"

text \<open>A FEC packet in the making: what lies behind its end is zero.\<close>

definition fec_partial :: "bool \<Rightarrow> Packet \<Rightarrow> bool" where
  "fec_partial l_bit fec \<longleftrightarrow> length (pkt_data fec) = 1500 \<and> pkt_length fec \<le> 1500 \<and>
     (pkt_length fec = 0 \<or> 10 + ulp_header_size l_bit \<le> pkt_length fec) \<and>
     (\<forall>i<1500. pkt_length fec \<le> i \<longrightarrow> pkt_data fec ! i = 0)"

abbreviation partial_image :: "bool \<Rightarrow> byte list \<Rightarrow> nat \<Rightarrow> byte" where
  "partial_image l_bit d \<equiv> fec_image l_bit d (1500 - (ulp_header_size l_bit - 2))"

lemma ulp_header_size_offset:
  obtains w where "ulp_header_size l_bit = w + 2" "2 \<le> w" "w \<le> 6"
  by (cases l_bit) (auto simp: fec_sizes)

lemma first_media_image:
  assumes "length d = 1500" "\<forall>i<1500. d ! i = 0" "media_fits l_bit p"
  shows "\<exists>d'. first_media l_bit p d = Some d' \<and> length d' = 1500 \<and> partial_image l_bit d' = packet_image p \<and>
    (\<forall>i<1500. pkt_length p + (ulp_header_size l_bit - 2) \<le> i \<longrightarrow> d' ! i = 0)"
proof -
  obtain w where u: "ulp_header_size l_bit = w + 2" "2 \<le> w" "w \<le> 6" by (rule ulp_header_size_offset)
  let ?m = "pkt_data p"
  define h ts pl where "h = take 2 ?m" "ts = take 4 (drop 4 ?m)" "pl = take (pkt_length p - 12) (drop 12 ?m)"
  let ?d = "memcpy (memcpy (memcpy (memcpy d 0 h) 4 ts) 8 (payload_length_bytes p)) (12 + w) pl"
  have m: "length ?m = 1500" "12 \<le> pkt_length p" "pkt_length p + w \<le> 1500"
    using assms(3) by (simp_all add: media_fits_def u)
  have l: "length h = 2" "length ts = 4" "length pl = pkt_length p - 12" using m u by (simp_all add: h_ts_pl_def)
  have n: "j < 2 \<Longrightarrow> h ! j = ?m ! j" "j < 4 \<Longrightarrow> ts ! j = ?m ! (4 + j)"
    "j < pkt_length p - 12 \<Longrightarrow> pl ! j = ?m ! (12 + j)" for j
    using m u by (simp_all add: h_ts_pl_def)
  have "first_media l_bit p d = Some ?d"
    using assms(1) m u l
    by (simp add: first_media_def store_def kRtpHeaderSize_def kFecHeaderSize_def h_ts_pl_def [symmetric])
  moreover have "length ?d = 1500" using assms(1) m u l by simp
  moreover have nth: "?d ! i = (if i < 2 \<or> 4 \<le> i \<and> i < 8 then ?m ! i else if 8 \<le> i \<and> i < 10 then payload_length_bytes p ! (i - 8)
      else if 12 + w \<le> i \<and> i < pkt_length p + w then ?m ! (i - w) else 0)" if "i < 1500" for i
  proof -
    have e: "12 + (i - (12 + w)) = i - w" if "12 + w \<le> i" using that u by simp
    show ?thesis using that assms(1,2) l n e m u by (auto simp: nth_memcpy)
  qed
  moreover have "partial_image l_bit ?d = packet_image p"
    unfolding fec_image_def packet_image_def u using nth m u by (intro bytes_image_cong) auto
  ultimately show ?thesis unfolding u using u m by auto
qed

lemma next_media_image:
  assumes "fec_partial l_bit fec" "media_fits l_bit p"
  shows "\<exists>d'. next_media l_bit (pkt_length p + (ulp_header_size l_bit - 2)) p (pkt_data fec) = Some d' \<and>
    length d' = 1500 \<and> partial_image l_bit d' = xor_image (partial_image l_bit (pkt_data fec)) (packet_image p) \<and>
    (\<forall>i<1500. max 12 (max (pkt_length fec) (pkt_length p + (ulp_header_size l_bit - 2))) \<le> i \<longrightarrow> d' ! i = 0)"
proof -
  obtain w where u: "ulp_header_size l_bit = w + 2" "2 \<le> w" "w \<le> 6" by (rule ulp_header_size_offset)
  let ?m = "pkt_data p"
  let ?d = "xor_at (xor_at (xor_at (xor_at (pkt_data fec) ?m 0 0 2) ?m 4 4 4) (payload_length_bytes p) 8 0 2)
    ?m (12 + w) 12 (pkt_length p - 12)"
  have m: "length ?m = 1500" "12 \<le> pkt_length p" "pkt_length p + w \<le> 1500"
    using assms(2) by (simp_all add: media_fits_def u)
  have d: "length (pkt_data fec) = 1500" using assms(1) by (simp add: fec_partial_def)
  have "next_media l_bit (pkt_length p + (ulp_header_size l_bit - 2)) p (pkt_data fec) = Some ?d"
    using m u d by (simp add: next_media_def xor_bytes_at kRtpHeaderSize_def kFecHeaderSize_def)
  moreover have "length ?d = 1500" using d by simp
  moreover have nth: "?d ! i = pkt_data fec ! i XOR (if i < 2 \<or> 4 \<le> i \<and> i < 8 then ?m ! i
      else if 8 \<le> i \<and> i < 10 then payload_length_bytes p ! (i - 8)
      else if 12 + w \<le> i \<and> i < pkt_length p + w then ?m ! (i - w) else 0)" if "i < 1500" for i
  proof -
    have e: "12 + (i - (12 + w)) = i - w" if "12 + w \<le> i" using that u by simp
    show ?thesis using that d e m u by auto
  qed
  moreover have "partial_image l_bit ?d = xor_image (partial_image l_bit (pkt_data fec)) (packet_image p)"
    unfolding fec_image_def packet_image_def bytes_image_xor u using nth m u d by (intro bytes_image_cong) auto
  moreover have "\<forall>i<1500. pkt_length fec \<le> i \<longrightarrow> pkt_data fec ! i = 0" using assms(1) by (simp add: fec_partial_def)
  ultimately show ?thesis unfolding u using u m by auto
qed

lemma add_media_image:
  assumes "fec_partial l_bit fec" "media_fits l_bit p"
  shows "\<exists>fec'. add_media l_bit p fec = Some fec' \<and> fec_partial l_bit fec' \<and> pkt_length fec' \<noteq> 0 \<and>
    partial_image l_bit (pkt_data fec') = xor_image (partial_image l_bit (pkt_data fec)) (packet_image p)"
proof -
  obtain w where u: "ulp_header_size l_bit = w + 2" "2 \<le> w" "w \<le> 6" by (rule ulp_header_size_offset)
  have m: "12 \<le> pkt_length p" "pkt_length p + w \<le> 1500" using assms(2) by (simp_all add: media_fits_def u)
  have len: "(pkt_length p + (10 + ulp_header_size l_bit - 12)) mod 65536 = pkt_length p + (ulp_header_size l_bit - 2)"
    using u m by simp
  show ?thesis
  proof (cases "pkt_length fec = 0")
    case True
    with assms have z: "length (pkt_data fec) = 1500" "\<forall>i<1500. pkt_data fec ! i = 0" by (simp_all add: fec_partial_def)
    have "partial_image l_bit (pkt_data fec) = bytes_image (\<lambda>_. 0) (\<lambda>_. 0) (\<lambda>_. 0)"
      unfolding fec_image_def using z u by (intro bytes_image_cong) auto
    then have "xor_image (partial_image l_bit (pkt_data fec)) (packet_image p) = packet_image p"
      by (simp add: image_xor.zero_left)
    with first_media_image [OF z assms(2)] True m u show ?thesis
      by (auto simp: add_media_def kFecHeaderSize_def kRtpHeaderSize_def Let_def len fec_partial_def)
  next
    case False
    with assms(1) u have "10 + ulp_header_size l_bit \<le> pkt_length fec" "pkt_length fec \<le> 1500"
      by (auto simp: fec_partial_def)
    with next_media_image [OF assms] False m u show ?thesis
      by (auto simp: add_media_def kFecHeaderSize_def kRtpHeaderSize_def Let_def len fec_partial_def)
  qed
qed

text \<open>Bit \<open>t\<close> of the row that starts at byte \<open>b\<close> of a mask, and the packets a row selects.\<close>

definition row_bit :: "byte list \<Rightarrow> nat \<Rightarrow> nat \<Rightarrow> bool" where
  "row_bit m b t \<longleftrightarrow> m ! (b + t div 8) AND push_bit (7 - t mod 8) 1 \<noteq> 0"

primrec selected :: "byte list \<Rightarrow> nat \<Rightarrow> nat \<Rightarrow> 'a list \<Rightarrow> 'a list" where
  "selected m b t [] = []"
| "selected m b t (p # ps) = (if row_bit m b t then p # selected m b (Suc t) ps else selected m b (Suc t) ps)"

lemma selected_filter: "selected m b t ps = map (\<lambda>i. ps ! i) (filter (\<lambda>i. row_bit m b (t + i)) [0..<length ps])"
proof (induction ps arbitrary: t)
  case (Cons p ps)
  have "[0..<length (p # ps)] = 0 # map Suc [0..<length ps]" by (simp add: upt_conv_Cons map_Suc_upt del: upt_Suc)
  with Cons show ?case by (simp add: filter_map o_def)
qed simp

definition numbered :: "16 word \<Rightarrow> Packet list \<Rightarrow> bool" where
  "numbered base ps \<longleftrightarrow> (\<forall>t<length ps. ParseSequenceNumber (pkt_data (ps ! t)) = base + of_nat t)"

lemma numbered_Cons: "numbered base (p # ps) \<longleftrightarrow>
    ParseSequenceNumber (pkt_data p) = base \<and> numbered (base + 1) ps"
proof -
  have "(\<forall>t<Suc (length ps). ParseSequenceNumber (pkt_data ((p # ps) ! t)) = base + of_nat t) \<longleftrightarrow>
      ParseSequenceNumber (pkt_data p) = base \<and>
      (\<forall>t<length ps. ParseSequenceNumber (pkt_data (ps ! t)) = base + of_nat (Suc t))"
    by (simp only: All_less_Suc2) simp
  then show ?thesis by (simp add: numbered_def add.assoc)
qed

lemma protect_row_image:
  assumes "numbered prev ps" "\<forall>p \<in> set ps. media_fits l_bit p" "fec_partial l_bit fec"
    and "\<forall>t. j \<le> t \<and> t < j + length ps \<longrightarrow> b + t div 8 < length m"
  shows "\<exists>fec'. protect_row l_bit m (b + j div 8) (j mod 8) prev ps fec = Some fec' \<and> fec_partial l_bit fec' \<and>
    (pkt_length fec' = 0 \<longleftrightarrow> pkt_length fec = 0 \<and> selected m b j ps = []) \<and>
    partial_image l_bit (pkt_data fec') =
      xor_image (partial_image l_bit (pkt_data fec)) (sum_images (map packet_image (selected m b j ps)))"
  using assms
proof (induction ps arbitrary: j prev fec)
  case Nil
  then show ?case by (simp add: sum_images_def image_xor.zero_right)
next
  case (Cons p ps)
  obtain fec1 where f1: "(if row_bit m b j then add_media l_bit p fec else Some fec) = Some fec1"
    "fec_partial l_bit fec1" "pkt_length fec1 = 0 \<longleftrightarrow> pkt_length fec = 0 \<and> \<not> row_bit m b j"
    "partial_image l_bit (pkt_data fec1) =
       (if row_bit m b j then xor_image (partial_image l_bit (pkt_data fec)) (packet_image p)
        else partial_image l_bit (pkt_data fec))"
  proof (cases "row_bit m b j")
    case True
    with add_media_image [OF Cons.prems(3), of p] Cons.prems(2) show thesis by (auto intro: that)
  qed (use Cons.prems(3) that in auto)
  have i: "b + j div 8 < length m" using Cons.prems(4) by simp
  let ?prev = "case ps of [] \<Rightarrow> prev | q # _ \<Rightarrow> prev + 1"
  have step: "protect_row l_bit m (b + j div 8) (j mod 8) prev (p # ps) fec =
      protect_row l_bit m (b + Suc j div 8) (Suc j mod 8) ?prev ps fec1"
  proof (cases ps)
    case Nil
    then show ?thesis using i f1(1) by (simp add: row_bit_def)
  next
    case (Cons q qs)
    with Cons.prems(1) have q: "ParseSequenceNumber (pkt_data q) = prev + 1" by (simp add: numbered_Cons)
    have b: "j mod 8 \<le> 7" using mod_less_divisor [of 8 j] by linarith
    show ?thesis using i f1(1) b
      by (subst protect_row.simps(2)) (simp add: Cons q row_bit_def mod_Suc div_Suc del: protect_row.simps)
  qed
  have num: "numbered ?prev ps"
    using Cons.prems(1) by (cases ps) (simp_all add: numbered_Cons, simp add: numbered_def)
  have "\<forall>p \<in> set ps. media_fits l_bit p" "\<forall>t. Suc j \<le> t \<and> t < Suc j + length ps \<longrightarrow> b + t div 8 < length m"
    using Cons.prems(2,4) by simp_all
  from Cons.IH [OF num this(1) f1(2) this(2)] obtain fec' where f2:
    "protect_row l_bit m (b + Suc j div 8) (Suc j mod 8) ?prev ps fec1 = Some fec'" "fec_partial l_bit fec'"
    "pkt_length fec' = 0 \<longleftrightarrow> pkt_length fec1 = 0 \<and> selected m b (Suc j) ps = []"
    "partial_image l_bit (pkt_data fec') =
      xor_image (partial_image l_bit (pkt_data fec1)) (sum_images (map packet_image (selected m b (Suc j) ps)))"
    by (elim exE conjE) (rule that)
  have "sum_images (map packet_image (selected m b j (p # ps))) =
      (if row_bit m b j then xor_image (packet_image p) (sum_images (map packet_image (selected m b (Suc j) ps)))
       else sum_images (map packet_image (selected m b (Suc j) ps)))"
    by (simp add: sum_images_def)
  then have "partial_image l_bit (pkt_data fec') =
      xor_image (partial_image l_bit (pkt_data fec)) (sum_images (map packet_image (selected m b j (p # ps))))"
    using f2(4) f1(4) by (cases "row_bit m b j") (simp_all only: if_True if_False image_xor.assoc)
  with f2(1-3) f1(3) show ?case unfolding step by (intro exI [of _ fec']) simp
qed

section \<open>FEC packets\<close>

abbreviation long_mask :: "byte list \<Rightarrow> bool" where
  "long_mask d \<equiv> d ! 0 AND 0x40 \<noteq> 0"

abbreviation protection_length :: "byte list \<Rightarrow> nat" where
  "protection_length d \<equiv> unat (ReadBigEndian2 (take 2 (drop 10 d)) :: 16 word)"

lemma bits_of_bytes:
  "concat (map (\<lambda>b. concat (map (\<lambda>t. if P (8 * b + t) then [f (8 * b + t)] else []) [0..<8])) [0..<n]) =
   map f (filter P [0..<8 * n])"
proof (induction n)
  case (Suc n)
  have "[0..<8 * Suc n] = [0..<8 * n] @ map (\<lambda>t. 8 * n + t) [0..<8]"
    using upt_add_eq_append [of 0 "8 * n" 8] map_add_upt [of "8 * n" 8] by (simp add: add.commute)
  moreover have "concat (map (\<lambda>t. if P (g t) then [f (g t)] else []) xs) = map f (filter P (map g xs))"
    for g :: "nat \<Rightarrow> nat" and xs by (induction xs) auto
  ultimately show ?case using Suc by (simp del: upt_Suc add: upt_Suc_append)
qed simp

lemma covered_seqs_bits:
  "covered_seqs d = map (\<lambda>t. ReadBigEndian2 (take 2 (drop 2 d)) + of_nat t)
     (filter (row_bit d 12) [0..<8 * mask_bytes (long_mask d)])"
proof -
  have "row_bit d 12 (8 * b + t) \<longleftrightarrow> d ! (12 + b) AND push_bit (7 - t) 1 \<noteq> 0" if "t < 8" for b t
    using that by (simp add: row_bit_def)
  then have "(if d ! (12 + b) AND push_bit (7 - t) 1 \<noteq> 0 then [base + of_nat (8 * b) + of_nat t] else []) =
      (if row_bit d 12 (8 * b + t) then [base + of_nat (8 * b + t)] else [])" if "t \<in> set [0..<8]"
    for b t and base :: "16 word"
    using that by (simp add: add.assoc)
  then have "map (\<lambda>t. if d ! (12 + b) AND push_bit (7 - t) 1 \<noteq> 0 then [base + of_nat (8 * b) + of_nat t] else []) [0..<8] =
      map (\<lambda>t. if row_bit d 12 (8 * b + t) then [base + of_nat (8 * b + t)] else []) [0..<8]"
    for b and base :: "16 word" by (intro map_cong refl) blast
  then show ?thesis
    unfolding covered_seqs_def Let_def bits_of_bytes [symmetric] mask_bytes_def by (simp only:)
qed

lemma fec_ulp_header_image:
  assumes "fec_partial l_bit fec" "pkt_length fec \<noteq> 0" "length (pkt_data p) = 1500"
    "(i + 1) * mask_bytes l_bit \<le> length m"
  shows "\<exists>fec'. fec_ulp_header p m l_bit i fec = Some fec' \<and> pkt_length fec' = pkt_length fec \<and> fec_partial l_bit fec' \<and>
    length (pkt_data fec') = 1500 \<and> long_mask (pkt_data fec') = l_bit \<and>
    take 2 (drop 2 (pkt_data fec')) = take 2 (drop 2 (pkt_data p)) \<and>
    protection_length (pkt_data fec') + 10 + ulp_header_size l_bit = pkt_length fec \<and>
    (\<forall>t<8 * mask_bytes l_bit. row_bit (pkt_data fec') 12 t = row_bit m (i * mask_bytes l_bit) t) \<and>
    fec_image l_bit (pkt_data fec') (protection_length (pkt_data fec') + 12) = partial_image l_bit (pkt_data fec)"
proof -
  obtain w where u: "ulp_header_size l_bit = w + 2" "2 \<le> w" "w \<le> 6" by (rule ulp_header_size_offset)
  have w: "mask_bytes l_bit = w" using u(1) by (simp add: fec_sizes split: if_splits)
  have f: "length (pkt_data fec) = 1500" "12 + w \<le> pkt_length fec" "pkt_length fec \<le> 1500"
    "\<forall>i<1500. pkt_length fec \<le> i \<longrightarrow> pkt_data fec ! i = 0"
    using assms(1,2) u by (auto simp: fec_partial_def)
  define n :: "16 word" where "n = of_nat (pkt_length fec - 12 - w)"
  have n: "of_nat (pkt_length fec) - of_nat kFecHeaderSize - of_nat (ulp_header_size l_bit) = n"
    using f(2) by (simp add: n_def u kFecHeaderSize_def of_nat_diff)
  have un: "unat n = pkt_length fec - 12 - w" using f(3) by (simp add: n_def unat_of_nat)
  define b0 where "b0 = (let x = pkt_data fec ! 0 AND 0x7F in if l_bit then x OR 0x40 else x AND 0xBF)"
  define sn row where "sn = take 2 (drop 2 (pkt_data p))" "row = take w (drop (i * w) m)"
  have l: "length sn = 2" "length row = w" using assms(3,4) u by (simp_all add: sn_row_def w)
  let ?d = "memcpy (memcpy (memcpy ((pkt_data fec)[0 := b0]) 2 sn) 10 (WriteBigEndian2 False n)) 12 row"
  have h: "fec_ulp_header p m l_bit i fec = Some (fec\<lparr>pkt_data := ?d\<rparr>)"
    using f assms(3,4) u l n unfolding fec_ulp_header_def
    by (simp add: Let_def store_def u16f.length_enc w b0_def sn_row_def [symmetric])
  have nth: "?d ! j = (if j = 0 then b0 else if 2 \<le> j \<and> j < 4 then sn ! (j - 2)
      else if 10 \<le> j \<and> j < 12 then WriteBigEndian2 False n ! (j - 10)
      else if 12 \<le> j \<and> j < 12 + w then row ! (j - 12) else pkt_data fec ! j)" if "j < 1500" for j
    using that f(1) u l by (auto simp: nth_memcpy u16f.length_enc)
  have len: "length ?d = 1500" using f(1) u l by (simp add: u16f.length_enc)
  have b0: "b0 AND 0x40 \<noteq> 0 \<longleftrightarrow> l_bit" "b0 AND 0x3F = pkt_data fec ! 0 AND 0x3F"
    by (cases l_bit; simp add: b0_def Let_def bit.conj_disj_distrib2 and.assoc)+
  have seg: "take k (drop j ?d) = xs" if "length xs = k" "j + k \<le> 1500" "\<forall>t<k. ?d ! (j + t) = xs ! t" for j k xs
    using that len by (intro nth_equalityI) simp_all
  have "take 2 (drop 2 ?d) = sn" using l nth by (intro seg) auto
  moreover have "take 2 (drop 10 ?d) = WriteBigEndian2 False n" using nth by (intro seg) (auto simp: u16f.length_enc)
  moreover have "row_bit ?d 12 t = row_bit m (i * w) t" if "t < 8 * w" for t
  proof -
    have "t div 8 < w" using that by (simp add: less_mult_imp_div_less mult.commute)
    then show ?thesis using nth [of "12 + t div 8"] u assms(4) by (simp add: row_bit_def sn_row_def w)
  qed
  moreover have "fec_image l_bit ?d (pkt_length fec - w) = partial_image l_bit (pkt_data fec)"
    unfolding fec_image_def u using nth f u b0(2) by (intro bytes_image_cong) auto
  moreover have "fec_partial l_bit (fec\<lparr>pkt_data := ?d\<rparr>)" using f u len nth by (auto simp: fec_partial_def)
  ultimately show ?thesis
    using h len b0(1) nth [of 0] un f(2) by (simp add: u16f.dec_enc w u sn_row_def)
qed

end
