(* ===== verification/Fec_Generate.thy ===== *)
theory Fec_Generate
  imports Fec_Parity
begin

text \<open>
  The encoder as a whole: every mask that \<^verbatim>\<open>GeneratePacketMasks\<close> makes has a packet in each row and
  only packets of the group, with equal and unequal protection, and every packet that \<^verbatim>\<open>GenerateFEC\<close>
  makes from packets numbered without a gap protects just the packets its mask names.
\<close>

section \<open>Masks\<close>

text \<open>A mask for \<open>k\<close> media packets and \<open>m\<close> FEC packets, in rows of \<open>nb\<close> bytes.\<close>

definition mask_ok :: "nat \<Rightarrow> nat \<Rightarrow> nat \<Rightarrow> byte list \<Rightarrow> bool" where
  "mask_ok nb k m M \<longleftrightarrow> m * nb \<le> length M \<and>
     list_all (\<lambda>i. list_ex (row_bit M (i * nb)) [0..<k] \<and>
                   list_all (\<lambda>t. \<not> row_bit M (i * nb) t) [k..<8 * nb]) [0..<m]"

definition table_ok :: "nat \<Rightarrow> mask_table \<Rightarrow> bool" where
  "table_ok n table \<longleftrightarrow> list_all (\<lambda>k. list_all (\<lambda>m. case mask_of table k m of None \<Rightarrow> False
     | Some M \<Rightarrow> mask_ok (mask_bytes (k > 16)) k m M) [1..<Suc k]) [1..<Suc n]"

lemma table_okD:
  assumes "table_ok n table" "1 \<le> m" "m \<le> k" "k \<le> n"
  obtains M where "mask_of table k m = Some M" "mask_ok (mask_bytes (k > 16)) k m M"
proof -
  have "k \<in> set [1..<Suc n]" "m \<in> set [1..<Suc k]" using assms(2-4) by auto
  with assms(1) have "case mask_of table k m of None \<Rightarrow> False | Some M \<Rightarrow> mask_ok (mask_bytes (k > 16)) k m M"
    unfolding table_ok_def list_all_iff by blast
  with that show thesis by (cases "mask_of table k m") simp_all
qed

lemma table_ok_mono:
  assumes "table_ok n table" "k \<le> n"
  shows "table_ok k table"
proof -
  have "set [1..<Suc k] \<subseteq> set [1..<Suc n]" using assms(2) by auto
  with assms(1) show ?thesis unfolding table_ok_def list_all_iff by blast
qed

lemma mask_ok_iff: "mask_ok nb k m M \<longleftrightarrow> m * nb \<le> length M \<and>
    (\<forall>i<m. (\<exists>t<k. row_bit M (i * nb) t) \<and> (\<forall>t<8 * nb. row_bit M (i * nb) t \<longrightarrow> t < k))"
proof -
  have "list_all (\<lambda>t. \<not> row_bit M b t) [k..<8 * nb] \<longleftrightarrow> (\<forall>t<8 * nb. row_bit M b t \<longrightarrow> t < k)" for b
    by (auto simp: list_all_iff not_less [symmetric])
  moreover have "list_ex (row_bit M b) [0..<k] \<longleftrightarrow> (\<exists>t<k. row_bit M b t)" for b
    by (auto simp: list_ex_iff)
  ultimately show ?thesis by (auto simp: mask_ok_def list_all_iff)
qed

text \<open>Rows of one mask copied into rows of another.\<close>

lemma row_bit_copy:
  assumes "\<And>j. j < ns \<Longrightarrow> M' ! (b' + j) = M ! (b + j)" "t < 8 * ns"
  shows "row_bit M' b' t = row_bit M b t"
proof -
  have "t div 8 < ns" using assms(2) by (simp add: less_mult_imp_div_less mult.commute)
  then show ?thesis by (simp add: row_bit_def assms(1))
qed

lemma each_row_append: "each_row f (xs @ ys) s = each_row f xs s \<bind> each_row f ys"
  by (induction xs arbitrary: s) (simp_all add: bind_assoc)

lemma fit_rows:
  assumes "r * nb \<le> length M" "r * ns \<le> length sub" "ns \<le> nb"
  shows "\<exists>M'. each_row (\<lambda>i M. load sub (i * ns) ns \<bind> (\<lambda>s. store M (i * nb) s)) [0..<r] M = Some M' \<and>
    length M' = length M \<and> (\<forall>i<r. \<forall>j<ns. M' ! (i * nb + j) = sub ! (i * ns + j)) \<and>
    (\<forall>i<r. \<forall>j. ns \<le> j \<and> j < nb \<longrightarrow> M' ! (i * nb + j) = M ! (i * nb + j)) \<and>
    (\<forall>j<length M. r * nb \<le> j \<longrightarrow> M' ! j = M ! j)"
  using assms
proof (induction r)
  case (Suc r)
  then obtain M1 where M1: "each_row (\<lambda>i M. load sub (i * ns) ns \<bind> (\<lambda>s. store M (i * nb) s)) [0..<r] M = Some M1"
    "length M1 = length M" "\<forall>i<r. \<forall>j<ns. M1 ! (i * nb + j) = sub ! (i * ns + j)"
    "\<forall>i<r. \<forall>j. ns \<le> j \<and> j < nb \<longrightarrow> M1 ! (i * nb + j) = M ! (i * nb + j)"
    "\<forall>j<length M. r * nb \<le> j \<longrightarrow> M1 ! j = M ! j" by auto
  define s where "s = take ns (drop (r * ns) sub)"
  have s: "length s = ns" "j < ns \<Longrightarrow> s ! j = sub ! (r * ns + j)" for j
    using Suc.prems(2) by (simp_all add: s_def)
  let ?M = "memcpy M1 (r * nb) s"
  have room: "r * nb + ns \<le> length M1" using Suc.prems(1,3) M1(2) by simp
  have below: "i * nb + j < r * nb" if "i < r" "j < nb" for i j
  proof -
    have "i * nb + j < Suc i * nb" using that(2) by simp
    also have "\<dots> \<le> r * nb" using that(1) by (intro mult_le_mono1) simp
    finally show ?thesis .
  qed
  have "load sub (r * ns) ns = Some s" using Suc.prems(2) by (simp add: s_def)
  then have run: "each_row (\<lambda>i M. load sub (i * ns) ns \<bind> (\<lambda>s. store M (i * nb) s)) [0..<Suc r] M = Some ?M"
    using M1(1) room s(1) by (simp add: each_row_append store_def)
  have nth: "?M ! j = (if r * nb \<le> j \<and> j < r * nb + ns then s ! (j - r * nb) else M1 ! j)" if "j < length M" for j
    using room s(1) M1(2) that by (simp add: nth_memcpy)
  have lt: "r * nb + ns \<le> length M" "Suc r * nb \<le> length M" using room M1(2) Suc.prems(1) by simp_all
  show ?case
  proof (intro exI [of _ ?M] conjI allI impI run)
    show "length ?M = length M" using room s(1) M1(2) by simp
    show "?M ! (i * nb + j) = sub ! (i * ns + j)" if "i < Suc r" "j < ns" for i j
    proof (cases "i = r")
      case True
      then show ?thesis using nth [of "i * nb + j"] lt that s by simp
    next
      case False
      with that have "i < r" by simp
      then show ?thesis using nth [of "i * nb + j"] lt that M1(3) below [of i j] Suc.prems(3) by simp
    qed
    show "?M ! (i * nb + j) = M ! (i * nb + j)" if "i < Suc r" "ns \<le> j \<and> j < nb" for i j
    proof (cases "i = r")
      case True
      then show ?thesis using nth [of "i * nb + j"] lt that M1(5) by simp
    next
      case False
      with that have "i < r" by simp
      then show ?thesis using nth [of "i * nb + j"] lt that M1(4) below [of i j] by simp
    qed
    show "?M ! j = M ! j" if "j < length M" "Suc r * nb \<le> j" for j
      using nth [of j] that M1(5) Suc.prems(3) by simp
  qed
qed simp

lemma row_index:
  fixes nb :: nat
  assumes "i < r" "j < nb"
  shows "i * nb + j < r * nb"
proof -
  have "i * nb + j < Suc i * nb" using assms(2) by simp
  also have "\<dots> \<le> r * nb" using assms(1) by (intro mult_le_mono1) simp
  finally show ?thesis .
qed

lemma store_rows:
  assumes "base + r * nb \<le> length M" "r * nb \<le> length sub"
  shows "\<exists>M'. (load sub 0 (r * nb) \<bind> (\<lambda>s. store M base s)) = Some M' \<and> length M' = length M \<and>
    (\<forall>i<r. \<forall>j<nb. M' ! (base + i * nb + j) = sub ! (i * nb + j)) \<and> (\<forall>j<base. M' ! j = M ! j)"
proof -
  define s where "s = take (r * nb) sub"
  have s: "length s = r * nb" "j < r * nb \<Longrightarrow> s ! j = sub ! j" for j using assms(2) by (simp_all add: s_def)
  have "(load sub 0 (r * nb) \<bind> (\<lambda>s. store M base s)) = Some (memcpy M base s)"
    using assms s(1) by (simp add: store_def s_def)
  moreover have "memcpy M base s ! (base + i * nb + j) = sub ! (i * nb + j)" if "i < r" "j < nb" for i j
    using row_index [OF that] assms(1) s by (simp add: nth_memcpy add.assoc)
  moreover have "memcpy M base s ! j = M ! j" if "j < base" for j
    using that assms(1) s(1) by (simp add: nth_memcpy)
  ultimately show ?thesis using assms(1) s(1) by auto
qed

text \<open>A mask for the first \<open>imp\<close> packets as the first rows of a mask for all of them.\<close>

lemma FitSubMask_rows:
  assumes "r * nb \<le> length M" "ns \<le> nb" "mask_ok ns imp r sub" "\<forall>j<length M. M ! j = 0" "imp \<le> 8 * ns"
  shows "\<exists>M'. FitSubMask nb ns r sub 0 M = Some M' \<and> length M' = length M \<and> mask_ok nb imp r M'"
proof -
  have sub: "r * ns \<le> length sub" using assms(3) by (simp add: mask_ok_iff)
  obtain M' where M': "FitSubMask nb ns r sub 0 M = Some M'" "length M' = length M"
    "\<forall>i<r. \<forall>j<ns. M' ! (i * nb + j) = sub ! (i * ns + j)"
    "\<forall>i<r. \<forall>j. ns \<le> j \<and> j < nb \<longrightarrow> M' ! (i * nb + j) = M ! (i * nb + j)"
  proof (cases "nb = ns")
    case True
    obtain M' where "FitSubMask nb ns r sub 0 M = Some M'" "length M' = length M"
      "\<forall>i<r. \<forall>j<ns. M' ! (i * nb + j) = sub ! (i * ns + j)"
      using store_rows [of 0 r nb M sub] assms(1) sub True by (auto simp: FitSubMask_def)
    with True show thesis by (intro that) auto
  next
    case False
    with fit_rows [OF assms(1) sub assms(2)] that show thesis by (auto simp: FitSubMask_def)
  qed
  have row: "row_bit M' (i * nb) t = row_bit sub (i * ns) t" if "i < r" "t < 8 * ns" for i t
    using that M'(3) by (intro row_bit_copy) auto
  have "\<not> row_bit M' (i * nb) t" if "i < r" "t < 8 * nb" "\<not> t < 8 * ns" for i t
  proof -
    have j: "ns \<le> t div 8" "t div 8 < nb" using that by (simp_all add: less_mult_imp_div_less mult.commute div_le_mono)
    then have "M' ! (i * nb + t div 8) = 0"
      using M'(4) that(1) assms(4) row_index [OF that(1) j(2)] assms(1) by simp
    then show ?thesis by (simp add: row_bit_def)
  qed
  with row assms(3,5) have "(\<exists>t<imp. row_bit M' (i * nb) t) \<and> (\<forall>t<8 * nb. row_bit M' (i * nb) t \<longrightarrow> t < imp)"
    if "i < r" for i
    using that unfolding mask_ok_iff by (metis less_le_trans)
  with M'(1,2) assms(1) show ?thesis by (auto simp: mask_ok_iff)
qed

lemma mask_ok_append_rows:
  assumes "mask_ok nb imp F M" "imp \<le> k" "mask_ok nb k r sub" "(F + r) * nb \<le> length M" "k \<le> 8 * nb"
  shows "\<exists>M'. FitSubMask nb nb r sub (F * nb) M = Some M' \<and> length M' = length M \<and> mask_ok nb k (F + r) M'"
proof -
  have sub: "r * nb \<le> length sub" using assms(3) by (simp add: mask_ok_iff)
  obtain M' where M': "FitSubMask nb nb r sub (F * nb) M = Some M'" "length M' = length M"
    "\<forall>i<r. \<forall>j<nb. M' ! (F * nb + i * nb + j) = sub ! (i * nb + j)" "\<forall>j<F * nb. M' ! j = M ! j"
    using store_rows [of "F * nb" r nb M sub] assms(4) sub by (auto simp: FitSubMask_def algebra_simps)
  have old: "row_bit M' (i * nb) t = row_bit M (i * nb) t" if "i < F" "t < 8 * nb" for i t
    using that M'(4) row_index [OF that(1)] by (intro row_bit_copy) auto
  have new: "row_bit M' ((F + i) * nb) t = row_bit sub (i * nb) t" if "i < r" "t < 8 * nb" for i t
    using that M'(3) by (intro row_bit_copy) (auto simp: algebra_simps)
  have "(\<exists>t<k. row_bit M' (i * nb) t) \<and> (\<forall>t<8 * nb. row_bit M' (i * nb) t \<longrightarrow> t < k)" if "i < F + r" for i
  proof (cases "i < F")
    case True
    with assms(1) obtain t where "t < imp" "row_bit M (i * nb) t" by (auto simp: mask_ok_iff)
    moreover have "t < imp" if "t < 8 * nb" "row_bit M' (i * nb) t" for t
      using assms(1) old [OF True that(1)] that True by (auto simp: mask_ok_iff)
    ultimately show ?thesis using assms(2,5) old [OF True] by (meson less_le_trans)
  next
    case False
    define i' where "i' = i - F"
    with False that have "i = F + i'" "i' < r" by simp_all
    moreover from this assms(3) obtain t where "t < k" "row_bit sub (i' * nb) t" by (auto simp: mask_ok_iff)
    moreover have "t < k" if "t < 8 * nb" "row_bit M' ((F + i') * nb) t" for t
      using assms(3) new [OF \<open>i' < r\<close> that(1)] that \<open>i' < r\<close> by (auto simp: mask_ok_iff)
    ultimately show ?thesis using assms(5) new [OF \<open>i' < r\<close>] by (meson less_le_trans)
  qed
  with M'(1,2) assms(4) show ?thesis by (auto simp: mask_ok_iff)
qed

lemma mask_bytes_cover: "k \<le> 48 \<Longrightarrow> k \<le> 8 * mask_bytes (k > 16)"
  by (simp add: fec_sizes)

lemma mask_bytes_le: "mask_bytes l_bit \<le> 6"
  by (simp add: fec_sizes)

lemma SetProtectionAllocation_le:
  "SetProtectionAllocation k m imp \<le> imp" "1 \<le> m \<Longrightarrow> SetProtectionAllocation k m imp < m"
  by (auto simp: SetProtectionAllocation_def Let_def)

lemma GeneratePacketMasks_ok:
  assumes "table_ok k table" "1 \<le> m" "m \<le> k" "k \<le> 48" "imp \<le> k"
  shows "\<exists>M. GeneratePacketMasks k m imp uep table (replicate (m * kMaskSizeLBitSet) 0) = Some M \<and>
    length M = m * kMaskSizeLBitSet \<and> mask_ok (mask_bytes (k > 16)) k m M"
proof -
  let ?nb = "mask_bytes (k > 16)"
  let ?M = "replicate (m * kMaskSizeLBitSet) 0"
  have room: "r * ?nb \<le> length ?M" if "r \<le> m" for r
    using mult_le_mono [OF that mask_bytes_le [of "k > 16"]] by (simp add: kMaskSizeLBitSet_def)
  show ?thesis
  proof (cases "\<not> uep \<or> imp = 0")
    case True
    from table_okD [OF assms(1-3) order_refl] obtain T where T: "mask_of table k m = Some T" "mask_ok ?nb k m T" .
    have "mask_ok ?nb 0 0 ?M" by (simp add: mask_ok_iff)
    moreover have "(0 + m) * ?nb \<le> length ?M" using room [of m] by simp
    ultimately show ?thesis
      using mask_ok_append_rows [OF _ _ T(2) _ mask_bytes_cover [OF assms(4)], of 0 0 ?M] True T(1)
      by (simp add: GeneratePacketMasks_def FitSubMask_def)
  next
    case False
    define F where "F = SetProtectionAllocation k m imp"
    have F: "F \<le> imp" "F < m" using SetProtectionAllocation_le(1) SetProtectionAllocation_le(2) [OF assms(2)] by (simp_all add: F_def)
    obtain M1 where M1: "(if F > 0 then ImportantPacketProtection F imp ?nb table ?M else Some ?M) = Some M1"
      "length M1 = m * kMaskSizeLBitSet" "mask_ok ?nb imp F M1"
    proof (cases "F > 0")
      case True
      then have "1 \<le> F" by simp
      with table_okD [OF assms(1) _ F(1) assms(5)] obtain T where
        T: "mask_of table imp F = Some T" "mask_ok (mask_bytes (imp > 16)) imp F T" by metis
      have "mask_bytes (imp > 16) \<le> ?nb" "imp \<le> 8 * mask_bytes (imp > 16)"
        using assms(4,5) by (simp_all add: fec_sizes)
      from FitSubMask_rows [OF room this(1) T(2) _ this(2)] F(2) T(1) True that show thesis
        by (auto simp: ImportantPacketProtection_def)
    qed (use that in \<open>auto simp: mask_ok_iff\<close>)
    have r: "1 \<le> m - F" "m - F \<le> k" using F(2) assms(3) by simp_all
    from table_okD [OF assms(1) r order_refl] obtain T where
      T: "mask_of table k (m - F) = Some T" "mask_ok ?nb k (m - F) T" .
    have "(F + (m - F)) * ?nb \<le> length M1" using room [of m] F(2) M1(2) by simp
    from mask_ok_append_rows [OF M1(3) assms(5) T(2) this mask_bytes_cover [OF assms(4)]] F(2) obtain M' where
      "FitSubMask ?nb ?nb (m - F) T (F * ?nb) M1 = Some M'" "length M' = length M1" "mask_ok ?nb k m M'" by auto
    with False M1(1,2) T(1) F(2) show ?thesis
      by (cases "F = 0") (simp_all add: GeneratePacketMasks_def UnequalProtectionMask_def Let_def F_def [symmetric]
          RemainingPacketProtection_def)
  qed
qed

section \<open>FEC packets\<close>

lemma each_fec_map:
  assumes "\<And>i. i < n \<Longrightarrow> f i (g ! i) = Some (h i)" "n \<le> length g"
  shows "each_fec f [0..<n] g = Some (map h [0..<n] @ drop n g)"
proof -
  have append: "each_fec f (xs @ ys) s = each_fec f xs s \<bind> each_fec f ys" for xs ys s
    by (induction xs arbitrary: s) (simp_all add: bind_assoc)
  show ?thesis using assms
  proof (induction n)
    case (Suc n)
    have "each_fec f [0..<Suc n] g = each_fec f [n] (map h [0..<n] @ drop n g)"
      using Suc by (simp add: append)
    also have "\<dots> = Some ((map h [0..<n] @ drop n g)[n := h n])"
      using Suc.prems by (simp add: nth_append)
    also have "(map h [0..<n] @ drop n g)[n := h n] = map h [0..<Suc n] @ drop (Suc n) g"
      using Suc.prems(2) by (simp add: list_update_append Cons_nth_drop_Suc [symmetric])
    finally show ?case .
  qed simp
qed

text \<open>A group of media packets: numbered from \<open>base\<close> without a gap, of one source, RTP version 2, and
  short enough for the FEC packets.\<close>

definition media_group :: "16 word \<Rightarrow> 32 word \<Rightarrow> Packet list \<Rightarrow> bool" where
  "media_group base ssrc ms \<longleftrightarrow> ms \<noteq> [] \<and> length ms \<le> 48 \<and> numbered base ms \<and>
     (\<forall>p \<in> set ms. media_fits (length ms > 16) p \<and> pkt_data p ! 0 AND 0xC0 = 0x80 \<and>
        take 4 (drop 8 (pkt_data p)) = WriteBigEndian4 False ssrc)"

text \<open>A FEC packet that protects the media packets of \<open>ms\<close> with the positions \<open>ts\<close>.\<close>

definition protects :: "16 word \<Rightarrow> Packet list \<Rightarrow> nat list \<Rightarrow> byte list \<Rightarrow> bool" where
  "protects base ms ts d \<longleftrightarrow> length d = 1500 \<and> ts \<noteq> [] \<and> (\<forall>t \<in> set ts. t < length ms) \<and> sorted_wrt (<) ts \<and>
     covered_seqs d = map (\<lambda>t. base + of_nat t) ts \<and>
     protection_length d + 10 + ulp_header_size (long_mask d) \<le> 1500 \<and>
     fec_image (long_mask d) d (protection_length d + 12) = sum_images (map (\<lambda>t. packet_image (ms ! t)) ts)"

definition row_positions :: "nat \<Rightarrow> nat \<Rightarrow> byte list \<Rightarrow> nat \<Rightarrow> nat list" where
  "row_positions nb k M i = filter (row_bit M (i * nb)) [0..<k]"

lemma GetNumberOfFecPackets_le:
  assumes "1 \<le> k" "1 \<le> pf" "pf < 256"
  shows "1 \<le> GetNumberOfFecPackets k pf" "GetNumberOfFecPackets k pf \<le> k"
proof -
  have "k * pf \<le> k * 255" using assms(3) by (intro mult_le_mono2) simp
  moreover have "x + 128 < (k + 1) * 256" if "x \<le> k * 255" for x using that by simp
  ultimately have "k * pf + 128 < (k + 1) * 256" by blast
  then have "(k * pf + 128) div 256 \<le> k" using less_mult_imp_div_less [of "k * pf + 128" "k + 1" 256] by simp
  then show "1 \<le> GetNumberOfFecPackets k pf" "GetNumberOfFecPackets k pf \<le> k"
    using assms by (simp_all add: GetNumberOfFecPackets_def Let_def)
qed

lemma InsertZeros_no_gap:
  assumes "numbered base ms" "ms \<noteq> []" "length ms \<le> 48"
  shows "InsertZerosInBitMasks ms M nb m = Some (length ms, M)"
proof -
  have h: "ParseSequenceNumber (pkt_data (hd ms)) = base"
    using assms(1,2) by (cases ms) (simp_all add: numbered_Cons)
  have l: "ParseSequenceNumber (pkt_data (last ms)) = base + of_nat (length ms - 1)"
    using assms(1,2) by (simp add: numbered_def last_conv_nth)
  have "unat (of_nat (length ms - 1) :: 16 word) = length ms - 1" using assms(3) by (simp add: unat_of_nat)
  then have "int (unat (ParseSequenceNumber (pkt_data (last ms)) - ParseSequenceNumber (pkt_data (hd ms)))) -
      int (length ms) + 1 = 0"
    unfolding h l using assms(2) by (cases ms) simp_all
  then show ?thesis unfolding InsertZerosInBitMasks_def Let_def by (simp only: refl if_True if_cancel)
qed

lemma partial_new: "fec_partial l_bit \<lparr>pkt_length = 0, pkt_data = replicate IP_PACKET_SIZE 0\<rparr>"
  "partial_image l_bit (replicate IP_PACKET_SIZE 0) = (\<lambda>_. 0)"
proof -
  obtain w where u: "ulp_header_size l_bit = w + 2" "2 \<le> w" "w \<le> 6" by (rule ulp_header_size_offset)
  have "partial_image l_bit (replicate IP_PACKET_SIZE 0) = bytes_image (\<lambda>_. 0) (\<lambda>_. 0) (\<lambda>_. 0)"
    unfolding fec_image_def u by (intro bytes_image_cong) (auto simp: IP_PACKET_SIZE_def)
  then show "partial_image l_bit (replicate IP_PACKET_SIZE 0) = (\<lambda>_. 0)" by simp
qed (simp add: fec_partial_def IP_PACKET_SIZE_def)

text \<open>One FEC packet, from zero to the finished packet.\<close>

lemma fec_row_protects:
  assumes grp: "media_group base ssrc ms" and l: "l_bit = (length ms > 16)"
    and M: "mask_ok (mask_bytes l_bit) (length ms) m M" "i < m"
  shows "\<exists>f1 f2. protect_row l_bit M (i * mask_bytes l_bit) 0 base ms
      \<lparr>pkt_length = 0, pkt_data = replicate IP_PACKET_SIZE 0\<rparr> = Some f1 \<and>
    fec_ulp_header (hd ms) M l_bit i f1 = Some f2 \<and> fec_partial l_bit f2 \<and> pkt_length f2 \<noteq> 0 \<and>
    protects base ms (row_positions (mask_bytes l_bit) (length ms) M i) (pkt_data f2)"
proof -
  let ?nb = "mask_bytes l_bit" and ?k = "length ms" and ?b = "i * mask_bytes l_bit"
  let ?ts = "row_positions ?nb ?k M i"
  have g: "numbered base ms" "\<forall>p \<in> set ms. media_fits l_bit p" "ms \<noteq> []" "?k \<le> 48"
    using grp l by (auto simp: media_group_def)
  have cover: "?k \<le> 8 * ?nb" using mask_bytes_cover [OF g(4)] l by simp
  have rows: "(i + 1) * ?nb \<le> length M"
    using M mult_le_mono1 [of "i + 1" m ?nb] by (simp add: mask_ok_iff)
  have "?b + t div 8 < length M" if "0 \<le> t \<and> t < 0 + ?k" for t
  proof -
    have "t div 8 < ?nb" using that cover by (simp add: less_mult_imp_div_less mult.commute)
    then show ?thesis using rows by simp
  qed
  with protect_row_image [OF g(1,2) partial_new(1), of 0 ?b M] obtain f1 where f1:
    "protect_row l_bit M ?b 0 base ms \<lparr>pkt_length = 0, pkt_data = replicate IP_PACKET_SIZE 0\<rparr> = Some f1"
    "fec_partial l_bit f1" "pkt_length f1 = 0 \<longleftrightarrow> selected M ?b 0 ms = []"
    "partial_image l_bit (pkt_data f1) = sum_images (map packet_image (selected M ?b 0 ms))"
    by (auto simp: partial_new(2) image_xor.zero_left)
  have sel: "selected M ?b 0 ms = map (\<lambda>t. ms ! t) ?ts" by (simp add: selected_filter row_positions_def)
  have ts: "?ts \<noteq> []" "\<forall>t \<in> set ?ts. t < ?k" "sorted_wrt (<) ?ts"
    using M by (force simp: row_positions_def filter_empty_conv mask_ok_iff intro: sorted_wrt_filter)+
  have pos: "pkt_length f1 \<noteq> 0" using f1(3) ts(1) by (simp add: sel)
  have hd: "length (pkt_data (hd ms)) = 1500" using g(2,3) by (simp add: media_fits_def)
  from fec_ulp_header_image [OF f1(2) pos hd rows] obtain f2 where f2:
    "fec_ulp_header (hd ms) M l_bit i f1 = Some f2" "length (pkt_data f2) = 1500" "long_mask (pkt_data f2) = l_bit"
    "take 2 (drop 2 (pkt_data f2)) = take 2 (drop 2 (pkt_data (hd ms)))"
    "protection_length (pkt_data f2) + 10 + ulp_header_size l_bit = pkt_length f1"
    "\<forall>t<8 * ?nb. row_bit (pkt_data f2) 12 t = row_bit M ?b t"
    "fec_image l_bit (pkt_data f2) (protection_length (pkt_data f2) + 12) = partial_image l_bit (pkt_data f1)"
    "fec_partial l_bit f2" "pkt_length f2 = pkt_length f1"
    by (elim exE conjE) (rule that)
  have "ReadBigEndian2 (take 2 (drop 2 (pkt_data (hd ms)))) = ParseSequenceNumber (pkt_data (hd ms))"
    by (simp add: ParseSequenceNumber_def two_bytes_read [symmetric] two_bytes_def)
  also have "\<dots> = base" using g(1,3) by (cases ms) (simp_all add: numbered_Cons)
  finally have base: "ReadBigEndian2 (take 2 (drop 2 (pkt_data f2))) = base" by (simp only: f2(4))
  have up: "[0..<8 * ?nb] = [0..<?k] @ [?k..<8 * ?nb]" using cover upt_add_eq_append [of 0 ?k "8 * ?nb - ?k"] by simp
  have "\<not> row_bit M ?b t" if "t \<in> set [?k..<8 * ?nb]" for t
    using that M by (auto simp: mask_ok_iff dest: leD)
  then have "filter (row_bit M ?b) [0..<8 * ?nb] = ?ts" unfolding up by (simp add: row_positions_def)
  moreover have "filter (row_bit (pkt_data f2) 12) [0..<8 * ?nb] = filter (row_bit M ?b) [0..<8 * ?nb]"
    using f2(6) by (intro filter_cong) auto
  ultimately have "covered_seqs (pkt_data f2) = map (\<lambda>t. base + of_nat t) ?ts"
    by (simp add: covered_seqs_bits f2(3) base)
  moreover have "pkt_length f1 \<le> 1500" using f1(2) by (simp add: fec_partial_def)
  ultimately have "protects base ms ?ts (pkt_data f2)"
    using ts f2(2,3,5,7) f1(4) by (simp add: protects_def sel o_def)
  with f1(1) f2(1,8,9) pos show ?thesis by auto
qed

text \<open>The mask \<^verbatim>\<open>GenerateFEC\<close> uses for a group without gaps.\<close>

definition group_mask :: "mask_table \<Rightarrow> nat \<Rightarrow> nat \<Rightarrow> nat \<Rightarrow> bool \<Rightarrow> FecMaskType \<Rightarrow> byte list" where
  "group_mask random_tbl k m imp uep mask_type =
     the (GeneratePacketMasks k m imp uep (PacketMaskTable random_tbl mask_type k)
       (replicate (m * kMaskSizeLBitSet) 0))"

lemma GenerateFEC_protects:
  assumes grp: "media_group base ssrc ms" and pf: "pf \<noteq> 0"
    and m: "m = GetNumberOfFecPackets (length ms) (unat pf)"
    and tbl: "table_ok (length ms) (PacketMaskTable random_tbl mask_type (length ms))" and imp: "imp \<le> length ms"
    and gen: "length g = 48"
  shows "\<exists>fecs g'. GenerateFEC random_tbl ms pf imp uep mask_type g = Some (0, fecs, g') \<and> length fecs = m \<and>
    length g' = 48 \<and> (\<forall>i<m. fec_partial (length ms > 16) (fecs ! i) \<and> pkt_length (fecs ! i) \<noteq> 0) \<and>
    (\<forall>i<m. protects base ms (row_positions (mask_bytes (length ms > 16)) (length ms)
       (group_mask random_tbl (length ms) m imp uep mask_type) i) (pkt_data (fecs ! i)))"
proof -
  let ?k = "length ms" and ?l = "length ms > 16"
  have g: "numbered base ms" "ms \<noteq> []" "?k \<le> 48" "\<forall>p \<in> set ms. 12 \<le> pkt_length p"
    using grp by (auto simp: media_group_def media_fits_def)
  have "unat pf < 256" using unsigned_less [of pf] by simp
  then have mk: "1 \<le> m" "m \<le> ?k"
    using GetNumberOfFecPackets_le [of ?k "unat pf"] g(2) pf m by (simp_all add: Suc_le_eq unat_gt_0)
  from GeneratePacketMasks_ok [OF tbl mk g(3) imp, of uep] obtain M where
    M: "GeneratePacketMasks ?k m imp uep (PacketMaskTable random_tbl mask_type ?k) (replicate (m * kMaskSizeLBitSet) 0) = Some M"
      "mask_ok (mask_bytes ?l) ?k m M" by blast
  have gm: "group_mask random_tbl ?k m imp uep mask_type = M" by (simp add: group_mask_def M(1))
  let ?z = "\<lparr>pkt_length = 0, pkt_data = replicate IP_PACKET_SIZE 0\<rparr> :: Packet"
  from fec_row_protects [OF grp refl M(2)] obtain f1 f2 where f:
    "\<And>i. i < m \<Longrightarrow> protect_row ?l M (i * mask_bytes ?l) 0 base ms ?z = Some (f1 i)"
    "\<And>i. i < m \<Longrightarrow> fec_ulp_header (hd ms) M ?l i (f1 i) = Some (f2 i)"
    "\<And>i. i < m \<Longrightarrow> protects base ms (row_positions (mask_bytes ?l) ?k M i) (pkt_data (f2 i))"
    "\<And>i. i < m \<Longrightarrow> fec_partial ?l (f2 i) \<and> pkt_length (f2 i) \<noteq> 0"
    by metis
  let ?r = "drop m g"
  have "each_fec (\<lambda>i p. Some ?z) [0..<m] g = Some (map (\<lambda>_. ?z) [0..<m] @ ?r)"
    using mk g(3) gen by (intro each_fec_map) simp_all
  moreover have "ParseSequenceNumber (pkt_data (hd ms)) = base" using g(1,2) by (cases ms) (simp_all add: numbered_Cons)
  then have "GenerateFecBitStrings ms M m ?l (map (\<lambda>_. ?z) [0..<m] @ ?r) = Some (map f1 [0..<m] @ ?r)"
    using each_fec_map [of m "\<lambda>i. protect_row ?l M (i * mask_bytes ?l) 0 base ms" "map (\<lambda>_. ?z) [0..<m] @ ?r" f1]
      f(1) g(2) by (simp add: GenerateFecBitStrings_def nth_append)
  moreover have "GenerateFecUlpHeaders ms M ?l m (map f1 [0..<m] @ ?r) = Some (map f2 [0..<m] @ ?r)"
    using each_fec_map [of m "fec_ulp_header (hd ms) M ?l" "map f1 [0..<m] @ ?r" f2] f(2) g(2)
    by (cases ms) (simp_all add: GenerateFecUlpHeaders_def nth_append)
  moreover have "\<not> list_ex (\<lambda>p. pkt_length p < kRtpHeaderSize) ms"
    using g(4) by (auto simp: list_ex_iff kRtpHeaderSize_def)
  ultimately have "GenerateFEC random_tbl ms pf imp uep mask_type g = Some (0, map f2 [0..<m], map f2 [0..<m] @ ?r)"
    using g(3) mk M(1) unfolding GenerateFEC_def
    by (simp add: Let_def m [symmetric] InsertZeros_no_gap [OF g(1-3)] kMaxMediaPackets_def
        kMaskSizeLBitClear_def)
  with f(3,4) gen mk g(3) show ?thesis by (simp add: gm)
qed

end
