(* ===== verification/Fec_Red.thy ===== *)
theory Fec_Red
  imports Fec_Receiver Fec_Generate
begin

text \<open>
  Wrapping and unwrapping: the bytes of the RED packets the producer makes for a media packet and for a
  FEC packet, and that the receiver takes from them the packet that was put in, byte for byte.
\<close>

section \<open>Bytes\<close>

lemma store_one: "i < length d \<Longrightarrow> store d i [x] = Some (d[i := x])"
  by (simp add: store_def memcpy_def upd_conv_take_nth_drop)

lemma store_zeros: "length x \<le> n \<Longrightarrow> store (replicate n 0) 0 x = Some (x @ replicate (n - length x) 0)"
  by (simp add: store_def memcpy_def)

lemma store_end: "length x \<le> n \<Longrightarrow> store (a @ replicate n 0) (length a) x = Some (a @ x @ replicate (n - length x) 0)"
  by (simp add: store_def memcpy_def)

lemma replace_payload_type_eq:
  "1 < length d \<Longrightarrow> replace_payload_type t d = Some (d[1 := (d ! 1 AND 0x80) + t])"
  by (simp add: replace_payload_type_def store_one)

text \<open>Seven bits of payload type below the marker bit.\<close>

lemma marker_plus_type:
  fixes b t :: byte
  assumes "t AND 0x80 = 0"
  shows "((b AND 0x80) + t) AND 0x80 = b AND 0x80" "(b AND 0x80) + (b AND 0x7F) = b"
proof -
  have plus: "(b AND 0x80) + x = (b AND 0x80) OR x" if "x AND 0x80 = 0" for x :: byte
  proof -
    have "0x80 AND x = 0" using that by (simp add: and.commute)
    then have "(b AND 0x80) AND x = 0" by (simp add: and.assoc)
    then show ?thesis using word_plus_and_or [of "b AND 0x80" x] by simp
  qed
  show "((b AND 0x80) + t) AND 0x80 = b AND 0x80"
    unfolding plus [OF assms] using assms by (simp add: bit.conj_disj_distrib2 and.assoc)
  have "(b AND 0x80) + (b AND 0x7F) = (b AND 0x80) OR (b AND 0x7F)" by (rule plus) (simp add: and.assoc)
  also have "\<dots> = b AND (0x80 OR 0x7F)" by (simp only: bit.conj_disj_distrib)
  also have "(0x80 OR 0x7F :: byte) = - 1" by simp
  finally show "(b AND 0x80) + (b AND 0x7F) = b" by simp
qed

lemma type_bits: "0 \<le> t \<Longrightarrow> t < 128 \<Longrightarrow> (word_of_int t :: byte) AND 0x80 = 0"
proof -
  assume t: "0 \<le> t" "t < 128"
  have "bit (word_of_int t :: byte) 7 = False"
    using t by (simp add: bit_word_of_int_iff) (simp add: bit_iff_odd div_pos_pos_trivial)
  then show ?thesis using and_exp_eq_0_iff_not_bit [of "word_of_int t :: byte" 7] by simp
qed

lemma low_bits: "(b AND 0x7F) AND 0x80 = (0 :: byte)"
  by (simp add: and.assoc)

section \<open>The producer's RED packets\<close>

lemma CreateHeader_eq:
  assumes "2 \<le> h" "h \<le> length hdr"
  shows "CreateHeader hdr h rt t (new_RedPacket (n + kREDForFECHeaderLength + h)) =
    Some \<lparr>red_data = ((take h hdr)[1 := (hdr ! 1 AND 0x80) + word_of_int rt] @ [word_of_int t]) @ replicate n 0,
          header_length = h + 1\<rparr>"
proof -
  let ?x = "take h hdr"
  have "store (replicate (n + 1 + h) 0) 0 ?x = Some (?x @ replicate (n + 1) 0)"
    using store_zeros [of ?x "n + 1 + h"] assms by (simp del: replicate_Suc)
  moreover have "replace_payload_type (word_of_int rt) (?x @ replicate (n + 1) 0) =
      Some (?x[1 := (hdr ! 1 AND 0x80) + word_of_int rt] @ replicate (n + 1) 0)"
    using assms by (subst replace_payload_type_eq) (simp_all add: nth_append list_update_append)
  moreover have "store (y @ replicate (n + 1) 0) h [word_of_int t] = Some ((y @ [word_of_int t]) @ replicate n 0)"
    if "length y = h" for y
    using store_end [of "[word_of_int t]" "n + 1" y] that by simp
  ultimately show ?thesis
    using assms by (simp add: CreateHeader_def new_RedPacket_def kREDForFECHeaderLength_def)
qed

definition red_media :: "int \<Rightarrow> byte list \<Rightarrow> nat \<Rightarrow> byte list" where
  "red_media rt bs h = ((take h bs)[1 := (bs ! 1 AND 0x80) + word_of_int rt]) @ [bs ! 1 AND 0x7F] @ drop h bs"

lemma BuildRedPacket_eq:
  assumes "2 \<le> h" "h \<le> length bs"
  shows "BuildRedPacket bs (length bs - h) h rt = Some \<lparr>red_data = red_media rt bs h, header_length = h + 1\<rparr>"
proof -
  let ?a = "(take h bs)[1 := (bs ! 1 AND 0x80) + word_of_int rt] @ [bs ! 1 AND 0x7F]"
  have "store (?a @ replicate (length bs - h) 0) (length ?a) (drop h bs) = Some (?a @ drop h bs)"
    by (subst store_end) simp_all
  with CreateHeader_eq [OF assms, of rt "uint (bs ! 1 AND 0x7F)" "length bs - h"] show ?thesis
    using assms by (simp add: BuildRedPacket_def AssignPayload_def red_media_def)
qed

lemma GetFecPacket_eq:
  assumes "fec_packets p = f # fs" "media_packets_fec p \<noteq> []" "12 \<le> h" "h \<le> length (pkt_data (last (media_packets_fec p)))"
    "pkt_length f \<le> length (pkt_data f)"
  obtains red hdr where "GetFecPacket rt ft n h p = Some (Some red, if fs = []
      then p\<lparr>fec_packets := fs, media_packets_fec := [], num_frames := 0\<rparr> else p\<lparr>fec_packets := fs\<rparr>)"
    "red_data red = hdr @ [word_of_int ft] @ take (pkt_length f) (pkt_data f)" "length hdr = h"
    "take 4 (drop 8 hdr) = take 4 (drop 8 (pkt_data (last (media_packets_fec p))))"
proof -
  let ?L = "pkt_data (last (media_packets_fec p))"
  define a where "a = (take h ?L)[1 := (?L ! 1 AND 0x80) + word_of_int rt]"
  define b where "b = memcpy a 2 (WriteBigEndian2 False n)"
  define c where "c = b[1 := b ! 1 AND 0x7F]"
  have len: "length a = h" "length b = h" "length c = h"
    using assms(3,4) by (simp_all add: a_def b_def c_def u16f.length_enc)
  have n: "uint n < 65536" "word_of_int (uint n) = n" using unsigned_less [of n] by simp_all
  let ?z = "\<lambda>x. x @ [word_of_int ft] @ replicate (pkt_length f) 0"
  have "store (?z a) 2 (WriteBigEndian2 False n) = Some (?z b)"
    using len(1) assms(3) by (simp add: store_def memcpy_def b_def u16f.length_enc)
  moreover have "load1 (?z b) 1 = Some (b ! 1)" "store (?z b) 1 [b ! 1 AND 0x7F] = Some (?z c)"
    using len assms(3) by (simp_all add: store_one nth_append list_update_append c_def)
  moreover have "store (?z c) (h + 1) (take (pkt_length f) (pkt_data f)) = Some (c @ [word_of_int ft] @ take (pkt_length f) (pkt_data f))"
    using store_end [of "take (pkt_length f) (pkt_data f)" "pkt_length f" "c @ [word_of_int ft]"] assms(5) len by simp
  ultimately have g: "GetFecPacket rt ft n h p = Some (Some \<lparr>red_data = c @ [word_of_int ft] @ take (pkt_length f) (pkt_data f),
      header_length = h + 1\<rparr>, if fs = [] then p\<lparr>fec_packets := fs, media_packets_fec := [], num_frames := 0\<rparr> else p\<lparr>fec_packets := fs\<rparr>)"
    using assms n unfolding GetFecPacket_def
    by (simp add: CreateHeader_eq a_def [unfolded One_nat_def, symmetric] SetSeqNum_def ClearMarkerBit_def AssignPayload_def DeletePackets_def)
  have "take 4 (drop 8 c) = take 4 (drop 8 ?L)"
    using assms(3,4) by (simp add: c_def b_def memcpy_def a_def u16f.length_enc drop_update_cancel take_drop min_def)
  then show thesis using len(3) by (intro that [OF g, of c]) simp_all
qed

section \<open>What the receiver takes from them\<close>

lemma size_minus_eq: "b \<le> a \<Longrightarrow> a < 2 ^ 64 \<Longrightarrow> size_minus a b = a - b"
  by (simp add: size_minus_def nat_diff_distrib of_nat_diff [symmetric] del: of_nat_diff)

text \<open>A packet of which the first bytes are those of a sent packet and the rest is zero.\<close>

definition packet_of :: "byte list \<Rightarrow> Packet" where
  "packet_of bs = \<lparr>pkt_length = length bs, pkt_data = bs @ replicate (1500 - length bs) 0\<rparr>"

lemma red_header_short:
  assumes "length hdr = h" "t AND 0x80 = 0"
  shows "load1 (hdr @ [t] @ body) h = Some t" "red_header (hdr @ [t] @ body) h n = Some (Some (1, 0))"
proof -
  show l: "load1 (hdr @ [t] @ body) h = Some t" using assms(1) by (simp add: load1_def nth_append)
  show "red_header (hdr @ [t] @ body) h n = Some (Some (1, 0))" unfolding red_header_def l using assms(2) by simp
qed

lemma low_type: "t AND 0x80 = 0 \<Longrightarrow> t AND 0x7F = (t :: byte)"
  using marker_plus_type(2) [of t t] by simp

lemma receive_media:
  assumes h: "headerLength header = length hdr" "12 \<le> length hdr" and n: "length hdr + length body \<le> 1500"
    and t: "t AND 0x80 = 0" "t \<noteq> ulpfec"
  shows "\<exists>c. AddReceivedRedPacket ssrc1 ssrc2 header (hdr @ [t] @ body) (length (hdr @ [t] @ body)) ulpfec s =
    Some (0, s\<lparr>packet_counter := c, received_packet_list := received_packet_list s @
      [\<lparr>rx_seq_num = sequenceNumber header, rx_ssrc = ssrc1, is_fec = False,
        rx_pkt = packet_of (hdr[1 := (hdr ! 1 AND 0x80) + t] @ body)\<rparr>]\<rparr>)"
proof -
  let ?h = "length hdr" and ?p = "hdr @ [t] @ body" and ?d = "hdr[1 := (hdr ! 1 AND 0x80) + t]"
  have sizes: "size_minus (Suc (?h + length body)) ?h = Suc (length body)" "size_minus (Suc (length body)) (Suc 0) = length body"
    "size_minus (Suc (?h + length body)) (Suc 0) = ?h + length body"
    using n by (simp_all add: size_minus_eq)
  have "store (replicate IP_PACKET_SIZE 0) 0 hdr = Some (hdr @ replicate (1500 - ?h) 0)"
    using n by (simp add: store_zeros IP_PACKET_SIZE_def)
  moreover have "replace_payload_type t (hdr @ replicate (1500 - ?h) 0) = Some (?d @ replicate (1500 - ?h) 0)"
    using h(2) by (subst replace_payload_type_eq) (simp_all add: nth_append list_update_append)
  moreover have "store (?d @ replicate (1500 - ?h) 0) ?h body = Some (?d @ body @ replicate (1500 - (?h + length body)) 0)"
    using store_end [of body "1500 - ?h" ?d] n by simp
  ultimately have "unwrap_media ?p ?h 1 t (length body) = Some (pkt_data (packet_of (?d @ body)))"
    by (simp add: unwrap_media_def packet_of_def)
  moreover have "hdr \<noteq> []" using h(2) by auto
  ultimately show ?thesis
    using red_header_short [OF refl t(1)] low_type [OF t(1)] t(2)
    by (intro exI [of _ "(packet_counter s)\<lparr>num_packets := num_packets (packet_counter s) + 1\<rparr>"])
      (simp add: AddReceivedRedPacket_def h(1) sizes packet_of_def Let_def cong: if_cong)
qed

lemma receive_fec:
  assumes h: "headerLength header = length hdr" "12 \<le> length hdr" "length hdr \<le> 1500"
    and n: "0 < length body" "length body \<le> 1500" and t: "t AND 0x80 = 0" "t = ulpfec"
    and src: "take 4 (drop 8 hdr) = WriteBigEndian4 False src"
  shows "\<exists>c. AddReceivedRedPacket ssrc1 ssrc2 header (hdr @ [t] @ body) (length (hdr @ [t] @ body)) ulpfec s =
    Some (0, s\<lparr>packet_counter := c, received_packet_list := received_packet_list s @
      [\<lparr>rx_seq_num = sequenceNumber header, rx_ssrc = src, is_fec = True, rx_pkt = packet_of body\<rparr>]\<rparr>)"
proof -
  let ?h = "length hdr" and ?p = "hdr @ [t] @ body"
  have sizes: "size_minus (Suc (?h + length body)) ?h = Suc (length body)" "size_minus (Suc (length body)) (Suc 0) = length body"
    using n h(3) by (simp_all add: size_minus_eq)
  have "unwrap_fec ?p (?h + 1) (length body) = Some (pkt_data (packet_of body))"
    using n by (simp add: unwrap_fec_def packet_of_def store_zeros IP_PACKET_SIZE_def)
  moreover have "load ?p 8 4 = Some (WriteBigEndian4 False src)" using h(2) src by simp
  ultimately show ?thesis
    using red_header_short [OF refl t(1)] low_type [OF t(1)] t(2) n(1)
    by (intro exI [of _ "(packet_counter s)\<lparr>num_packets := num_packets (packet_counter s) + 1,
          num_fec_packets := num_fec_packets (packet_counter s) + 1\<rparr>"])
      (simp add: AddReceivedRedPacket_def h(1) sizes packet_of_def Let_def u32f.dec_enc)
qed

text \<open>The two round trips.\<close>

lemma red_media_split:
  assumes "12 \<le> h" "h \<le> length bs" "0 \<le> rt" "rt < 128"
  obtains hdr where "red_media rt bs h = hdr @ [bs ! 1 AND 0x7F] @ drop h bs" "length hdr = h"
    "hdr[1 := (hdr ! 1 AND 0x80) + (bs ! 1 AND 0x7F)] @ drop h bs = bs"
proof
  let ?hdr = "(take h bs)[1 := (bs ! 1 AND 0x80) + word_of_int rt]"
  show "red_media rt bs h = ?hdr @ [bs ! 1 AND 0x7F] @ drop h bs" by (simp add: red_media_def)
  show "length ?hdr = h" using assms(2) by simp
  have "?hdr ! 1 AND 0x80 = bs ! 1 AND 0x80"
    using assms(1,2) marker_plus_type(1) [OF type_bits [OF assms(3,4)]] by simp
  then have "?hdr[1 := (?hdr ! 1 AND 0x80) + (bs ! 1 AND 0x7F)] = (take h bs)[1 := bs ! 1]"
    using marker_plus_type(2) [of 0 "bs ! 1"] by simp
  also have "\<dots> = take h bs" using assms(1,2) by (simp add: list_update_same_conv)
  finally show "?hdr[1 := (?hdr ! 1 AND 0x80) + (bs ! 1 AND 0x7F)] @ drop h bs = bs" by simp
qed

lemma packet_of_fec:
  assumes "fec_partial l_bit f"
  shows "packet_of (take (pkt_length f) (pkt_data f)) = f"
proof -
  have f: "length (pkt_data f) = 1500" "pkt_length f \<le> 1500" "\<forall>i<1500. pkt_length f \<le> i \<longrightarrow> pkt_data f ! i = 0"
    using assms by (auto simp: fec_partial_def)
  have "take (pkt_length f) (pkt_data f) @ replicate (1500 - pkt_length f) 0 = pkt_data f"
    using f by (intro nth_equalityI) (auto simp: nth_append)
  then show ?thesis using f(1,2) by (simp add: packet_of_def min_def)
qed

end
