(* ===== verification/Fec_Recovery.thy ===== *)
theory Fec_Recovery
  imports Fec_Generate
begin

text \<open>
  Recovering one packet: a FEC packet that protects a group, all of whose packets but one are there,
  gives back the missing one byte for byte.
\<close>

section \<open>Packets of a group\<close>

text \<open>A packet with the bytes of the packet of the group with a sequence number.\<close>

definition carries :: "16 word \<Rightarrow> Packet list \<Rightarrow> 16 word \<Rightarrow> Packet \<Rightarrow> bool" where
  "carries base ms s q \<longleftrightarrow> (\<exists>t<length ms. s = base + of_nat t \<and> length (pkt_data q) = 1500 \<and>
     pkt_length q = pkt_length (ms ! t) \<and>
     take (pkt_length q) (pkt_data q) = take (pkt_length q) (pkt_data (ms ! t)))"

lemma position_inj:
  fixes base :: "16 word"
  assumes "base + of_nat t = base + of_nat t'" "t < 48" "t' < 48"
  shows "t = t'"
proof -
  have "unat (of_nat t :: 16 word) = unat (of_nat t' :: 16 word)" using assms(1) by simp
  then show ?thesis using assms(2,3) by (simp add: unat_of_nat)
qed

lemma same_bytes_image:
  assumes "take n (pkt_data q) = take n (pkt_data p)" "pkt_length q = n" "pkt_length p = n" "12 \<le> n"
    "length (pkt_data q) = 1500" "length (pkt_data p) = 1500"
  shows "packet_image q = packet_image p"
proof -
  have "pkt_data q ! i = pkt_data p ! i" if "i < n" for i
    using nth_take [OF that, of "pkt_data q"] nth_take [OF that, of "pkt_data p"] assms(1) by simp
  then show ?thesis
    unfolding packet_image_def payload_length_bytes_def using assms(2-4) by (intro bytes_image_cong) auto
qed

lemma group_member:
  assumes "media_group base ssrc ms" "t < length ms"
  shows "length (pkt_data (ms ! t)) = 1500" "12 \<le> pkt_length (ms ! t)" "pkt_length (ms ! t) \<le> 1498"
    "pkt_data (ms ! t) ! 0 AND 0xC0 = 0x80" "take 4 (drop 8 (pkt_data (ms ! t))) = WriteBigEndian4 False ssrc"
    "ParseSequenceNumber (pkt_data (ms ! t)) = base + of_nat t"
proof -
  obtain w where u: "ulp_header_size (length ms > 16) = w + 2" "2 \<le> w" "w \<le> 6" by (rule ulp_header_size_offset)
  have "ms ! t \<in> set ms" using assms(2) by simp
  then have "media_fits (length ms > 16) (ms ! t)" "pkt_data (ms ! t) ! 0 AND 0xC0 = 0x80"
    "take 4 (drop 8 (pkt_data (ms ! t))) = WriteBigEndian4 False ssrc" using assms(1) by (auto simp: media_group_def)
  then show "length (pkt_data (ms ! t)) = 1500" "12 \<le> pkt_length (ms ! t)" "pkt_length (ms ! t) \<le> 1498"
    "pkt_data (ms ! t) ! 0 AND 0xC0 = 0x80" "take 4 (drop 8 (pkt_data (ms ! t))) = WriteBigEndian4 False ssrc"
    using u by (simp_all add: media_fits_def)
  show "ParseSequenceNumber (pkt_data (ms ! t)) = base + of_nat t"
    using assms by (simp add: media_group_def numbered_def)
qed

lemma carries_image:
  assumes "media_group base ssrc ms" "carries base ms (base + of_nat t) q" "t < length ms"
  shows "packet_image q = packet_image (ms ! t)" "pkt_length q = pkt_length (ms ! t)" "length (pkt_data q) = 1500"
proof -
  from assms(2) obtain t' where t': "t' < length ms" "base + of_nat t = base + of_nat t'" "length (pkt_data q) = 1500"
    "pkt_length q = pkt_length (ms ! t')" "take (pkt_length q) (pkt_data q) = take (pkt_length q) (pkt_data (ms ! t'))"
    by (auto simp: carries_def)
  have "t = t'" using t'(1,2) assms(1,3) by (intro position_inj [of base]) (auto simp: media_group_def)
  with t' group_member [OF assms(1,3)] show "packet_image q = packet_image (ms ! t)"
    "pkt_length q = pkt_length (ms ! t)" "length (pkt_data q) = 1500"
    by (auto intro: same_bytes_image)
qed

section \<open>The steps of the recovery\<close>

text \<open>A packet being recovered, with the source of the group already in its header.\<close>

definition in_recovery :: "32 word \<Rightarrow> RecoveredPacket \<Rightarrow> bool" where
  "in_recovery ssrc r \<longleftrightarrow> length (pkt_data (rec_pkt r)) = 1500 \<and> length (length_recovery r) = 2 \<and>
     take 4 (drop 8 (pkt_data (rec_pkt r))) = WriteBigEndian4 False ssrc \<and> was_recovered r \<and> \<not> returned r"

lemma InitRecovery_image:
  assumes "protects base ms ts (pkt_data (fec_pkt f))"
  shows "\<exists>r. InitRecovery f = Some r \<and> in_recovery (fec_ssrc f) r \<and>
    recovered_image r = sum_images (map (\<lambda>t. packet_image (ms ! t)) ts)"
proof -
  let ?d = "pkt_data (fec_pkt f)"
  obtain w where u: "ulp_header_size (long_mask ?d) = w + 2" "2 \<le> w" "w \<le> 6" by (rule ulp_header_size_offset)
  let ?n = "protection_length ?d"
  have p: "length ?d = 1500" "?n + 12 + w \<le> 1500"
    "fec_image (long_mask ?d) ?d (?n + 12) = sum_images (map (\<lambda>t. packet_image (ms ! t)) ts)"
    using assms u by (simp_all add: protects_def)
  have sz: "(if long_mask ?d then kUlpHeaderSizeLBitSet else kUlpHeaderSizeLBitClear) = w + 2"
    using u(1) by (simp only: ulp_header_size_def)
  define pl h ts' where "pl = take ?n (drop (12 + w) ?d)" "h = take 2 ?d" "ts' = take 4 (drop 4 ?d)"
  let ?ss = "WriteBigEndian4 False (fec_ssrc f)"
  have l: "length pl = ?n" "length h = 2" "length ts' = 4" "length ?ss = 4"
    using p by (simp_all add: pl_h_ts'_def u32f.length_enc)
  have n: "j < ?n \<Longrightarrow> pl ! j = ?d ! (12 + w + j)" "j < 2 \<Longrightarrow> h ! j = ?d ! j" "j < 4 \<Longrightarrow> ts' ! j = ?d ! (4 + j)" for j
    using p by (simp_all add: pl_h_ts'_def)
  define z where "z = (replicate 1500 0 :: byte list)"
  have z: "length z = 1500" "\<And>j. j < 1500 \<Longrightarrow> z ! j = 0" by (simp_all add: z_def)
  let ?r = "memcpy (memcpy (memcpy (memcpy z 12 pl) 0 h) 4 ts') 8 ?ss"
  let ?R = "\<lparr>rec_seq_num = 0, was_recovered = True, returned = False, length_recovery = take 2 (drop 8 ?d),
    rec_pkt = \<lparr>pkt_length = 0, pkt_data = ?r\<rparr>\<rparr> :: RecoveredPacket"
  have lr: "length ?r = 1500" using l z p by simp
  have "load ?d (kFecHeaderSize + (w + 2)) ?n = Some pl"
    using p by (simp add: kFecHeaderSize_def pl_h_ts'_def)
  moreover have "load ?d 0 2 = Some h" "load ?d 4 4 = Some ts'" "load ?d 8 2 = Some (take 2 (drop 8 ?d))"
    "load ?d 10 2 = Some (take 2 (drop 10 ?d))" using p by (simp_all add: pl_h_ts'_def)
  ultimately have "InitRecovery f = Some ?R"
    using l z p(2) unfolding InitRecovery_def Let_def sz IP_PACKET_SIZE_def z_def [symmetric]
    by (simp add: store_def kRtpHeaderSize_def)
  moreover have nth: "?r ! j = (if j < 2 \<or> 4 \<le> j \<and> j < 8 then ?d ! j else if 8 \<le> j \<and> j < 12 then ?ss ! (j - 8)
      else if 12 \<le> j \<and> j < 12 + ?n then ?d ! (j + w) else 0)" if "j < 1500" for j
    using that l n z p by (auto simp: nth_memcpy add.commute add.left_commute)
  have "recovered_image ?R = fec_image (long_mask ?d) ?d (?n + 12)"
    unfolding recovered_image_def fec_image_def u using nth p by (intro bytes_image_cong) auto
  moreover have "take 4 (drop 8 ?r) = ?ss" using lr nth l by (intro nth_equalityI) auto
  ultimately show ?thesis using lr p by (auto simp: in_recovery_def)
qed

lemma XorPackets_image:
  assumes "in_recovery ssrc r" "length (pkt_data q) = 1500" "12 \<le> pkt_length q" "pkt_length q \<le> 1500"
  shows "\<exists>r'. XorPackets q r = Some r' \<and> in_recovery ssrc r' \<and> rec_seq_num r' = rec_seq_num r \<and>
    recovered_image r' = xor_image (recovered_image r) (packet_image q)"
proof -
  let ?d = "pkt_data (rec_pkt r)" and ?m = "pkt_data q"
  let ?x = "xor_at (xor_at (xor_at ?d ?m 0 0 2) ?m 4 4 4) ?m 12 12 (pkt_length q - 12)"
  let ?l = "xor_at (length_recovery r) (payload_length_bytes q) 0 0 2"
  let ?R = "r\<lparr>length_recovery := ?l, rec_pkt := (rec_pkt r)\<lparr>pkt_data := ?x\<rparr>\<rparr>"
  have r: "length ?d = 1500" "length (length_recovery r) = 2" "take 4 (drop 8 ?d) = WriteBigEndian4 False ssrc"
    "was_recovered r" "\<not> returned r" using assms(1) by (simp_all add: in_recovery_def)
  have "XorPackets q r = Some ?R"
    using r assms by (simp add: XorPackets_def xor_bytes_at kRtpHeaderSize_def)
  moreover have "take 4 (drop 8 ?x) = take 4 (drop 8 ?d)" using r(1) assms(3) by (intro nth_equalityI) auto
  then have "in_recovery ssrc ?R" using r by (simp add: in_recovery_def)
  moreover have "recovered_image ?R = xor_image (recovered_image r) (packet_image q)"
    unfolding recovered_image_def packet_image_def bytes_image_xor using r assms by (intro bytes_image_cong) auto
  ultimately show ?thesis by auto
qed

lemma write_read_two_bytes:
  assumes "length bs = 2"
  shows "WriteBigEndian2 False (two_bytes bs) = bs"
proof -
  from assms obtain a b where "bs = [a, b]" by (cases bs; cases "tl bs") auto
  then show ?thesis by (simp only: write_two_bytes)
qed

lemma version_byte:
  fixes x y :: byte
  assumes "x AND 0x3F = y AND 0x3F" "y AND 0xC0 = 0x80"
  shows "(x OR 0x80) AND 0xBF = y"
proof -
  have a: "(x AND 0x80) OR 0x80 = 0x80" by (rule bit_word_eqI) (auto simp: bit_simps)
  have "(x OR 0x80) AND 0xBF = (x AND (0x3F OR 0x80)) OR 0x80" by (simp add: bit.conj_disj_distrib2)
  also have "\<dots> = (x AND 0x3F) OR ((x AND 0x80) OR 0x80)" by (simp only: bit.conj_disj_distrib or.assoc)
  also have "\<dots> = (x AND 0x3F) OR 0x80" by (simp only: a)
  also have "\<dots> = (y AND 0x3F) OR (y AND 0xC0)" using assms by simp
  also have "\<dots> = y AND (0x3F OR 0xC0)" by (simp only: bit.conj_disj_distrib)
  also have "(0x3F OR 0xC0 :: byte) = - 1" by simp
  finally show ?thesis by simp
qed

lemma FinishRecovery_carries:
  assumes grp: "media_group base ssrc ms" and t: "t < length ms" and r: "in_recovery ssrc r"
    and seq: "rec_seq_num r = base + of_nat t" and img: "recovered_image r = packet_image (ms ! t)"
  shows "\<exists>r'. FinishRecovery r = Some r' \<and> carries base ms (base + of_nat t) (rec_pkt r') \<and>
    rec_seq_num r' = base + of_nat t \<and> was_recovered r' \<and> \<not> returned r'"
proof -
  let ?d = "pkt_data (rec_pkt r)" and ?p = "ms ! t"
  note p = group_member [OF grp t]
  have d: "length ?d = 1500" "length (length_recovery r) = 2" "take 4 (drop 8 ?d) = WriteBigEndian4 False ssrc"
    "was_recovered r" "\<not> returned r" using r by (simp_all add: in_recovery_def)
  define b0 where "b0 = (?d ! 0 OR 0x80) AND 0xBF"
  let ?x = "memcpy (?d[0 := b0]) 2 (WriteBigEndian2 False (rec_seq_num r))"
  have "length_recovery r ! i = payload_length_bytes ?p ! i" if "i < 2" for i
    using fun_cong [OF img, of "i + 2"] that
    by (auto simp: recovered_image_def packet_image_def bytes_image_def less_2_cases_iff)
  with d(2) have len: "length_recovery r = payload_length_bytes ?p" by (intro nth_equalityI) simp_all
  define n where "n = pkt_length ?p - 12"
  have "payload_length_bytes ?p = WriteBigEndian2 False (of_nat n :: 16 word)"
    unfolding payload_length_bytes_def kRtpHeaderSize_def n_def by (simp only: of_nat_diff [OF p(2)])
  moreover have "n + 12 = pkt_length ?p" "n < 65536" using p(2,3) by (simp_all add: n_def)
  ultimately have n: "unat (ReadBigEndian2 (length_recovery r) :: 16 word) + 12 = pkt_length ?p"
    by (simp add: len u16f.dec_enc unat_of_nat)
  have h: "?d ! i = pkt_data ?p ! i" if "i = 1 \<or> 4 \<le> i \<and> i < 8 \<or> 12 \<le> i \<and> i < pkt_length ?p" for i
    using fun_cong [OF img, of i] that p(3) by (auto simp: recovered_image_def packet_image_def bytes_image_def split: if_splits)
  have "?d ! 0 AND 0x3F = pkt_data ?p ! 0 AND 0x3F"
    using fun_cong [OF img, of 0] by (simp add: recovered_image_def packet_image_def bytes_image_def)
  from version_byte [OF this p(4)] have z: "b0 = pkt_data ?p ! 0" by (simp add: b0_def)
  have "two_bytes (take 2 (drop 2 (pkt_data ?p))) = rec_seq_num r"
    using p(6) by (simp add: seq ParseSequenceNumber_def two_bytes_def)
  then have "WriteBigEndian2 False (rec_seq_num r) = take 2 (drop 2 (pkt_data ?p))"
    using write_read_two_bytes [of "take 2 (drop 2 (pkt_data ?p))"] p(1) by simp
  then have s: "WriteBigEndian2 False (rec_seq_num r) ! (i - 2) = pkt_data ?p ! i" if "2 \<le> i \<and> i < 4" for i
    using that p(1) by (simp add: less_diff_conv2 nth_drop del: add_2_eq_Suc add_2_eq_Suc')
  have c: "?d ! (8 + i) = pkt_data ?p ! (8 + i)" if "i < 4" for i
  proof -
    have "take 4 (drop 8 ?d) ! i = take 4 (drop 8 (pkt_data ?p)) ! i" by (simp only: d(3) p(5))
    then show ?thesis using that d(1) p(1) by simp
  qed
  have x: "?x ! i = pkt_data ?p ! i" if "i < pkt_length ?p" for i
  proof -
    consider "i = 0" | "2 \<le> i \<and> i < 4" | "8 \<le> i \<and> i < 12" | "i = 1 \<or> 4 \<le> i \<and> i < 8 \<or> 12 \<le> i" by linarith
    then show ?thesis
    proof cases
      case 2
      then show ?thesis using s [of i] d(1) by (simp add: nth_memcpy u16f.length_enc)
    next
      case 3
      then show ?thesis using c [of "i - 8"] d(1) by (simp add: less_diff_conv2 nth_memcpy u16f.length_enc)
    next
      case 4
      then show ?thesis using h [of i] that d(1) p(3) by (auto simp: nth_memcpy u16f.length_enc)
    qed (use d(1) z in \<open>simp add: nth_memcpy u16f.length_enc\<close>)
  qed
  have "FinishRecovery r = Some (r\<lparr>rec_pkt := \<lparr>pkt_length = pkt_length ?p, pkt_data = ?x\<rparr>\<rparr>)"
    using d(1) n by (simp add: FinishRecovery_def Let_def store_def u16f.length_enc b0_def kRtpHeaderSize_def)
  moreover have "take (pkt_length ?p) ?x = take (pkt_length ?p) (pkt_data ?p)"
    using x p(1,3) d(1) by (intro nth_equalityI) (simp_all add: u16f.length_enc)
  ultimately show ?thesis using t d seq by (auto simp: carries_def u16f.length_enc)
qed

section \<open>Recovering the missing packet\<close>

definition missing :: "ProtectedPacket list \<Rightarrow> 16 word list" where
  "missing ps = map prot_seq_num (filter (\<lambda>p. prot_pkt p = None) ps)"

lemma count_missing_1: "count_missing 1 ps = (if missing ps = [] then 1 else 2)"
  by (induction ps) (simp_all add: missing_def)

lemma count_missing_0: "count_missing 0 ps = min 2 (length (missing ps))"
proof (induction ps)
  case (Cons p ps)
  then show ?case using count_missing_1 [of ps] by (auto simp: missing_def min_def Suc_le_eq)
qed (simp add: missing_def)

lemma NumCoveredPacketsMissing_eq: "NumCoveredPacketsMissing f = min 2 (length (missing (protected_pkt_list f)))"
  by (simp add: NumCoveredPacketsMissing_def count_missing_0)

lemma one_missing_split:
  assumes "length (missing ps) = 1"
  obtains xs p ys where "ps = xs @ p # ys" "prot_pkt p = None" "\<forall>x \<in> set (xs @ ys). prot_pkt x \<noteq> None"
    "missing ps = [prot_seq_num p]"
proof -
  from assms obtain p where p: "filter (\<lambda>p. prot_pkt p = None) ps = [p]"
    by (auto simp: missing_def length_Suc_conv)
  from filter_eq_ConsD [OF p] obtain xs ys where s:
    "ps = xs @ p # ys" "\<forall>u \<in> set xs. prot_pkt u \<noteq> None" "prot_pkt p = None" "[] = filter (\<lambda>p. prot_pkt p = None) ys"
    by (elim exE conjE) (rule that)
  have "\<forall>u \<in> set ys. prot_pkt u \<noteq> None" using s(4) [symmetric] by (simp only: filter_empty_conv simp_thms)
  with s(2) have all: "\<forall>x \<in> set (xs @ ys). prot_pkt x \<noteq> None" by (simp only: set_append ball_Un simp_thms)
  have "missing ps = [prot_seq_num p]" by (simp only: missing_def p list.map)
  with s(1,3) all show thesis by (rule that)
qed

lemma recover_loop_image:
  assumes "in_recovery ssrc r" "\<forall>p \<in> set ps. \<forall>q. prot_pkt p = Some q \<longrightarrow>
    length (pkt_data q) = 1500 \<and> 12 \<le> pkt_length q \<and> pkt_length q \<le> 1500"
  shows "\<exists>r'. recover_loop ps r = Some r' \<and> in_recovery ssrc r' \<and>
    rec_seq_num r' = last (rec_seq_num r # missing ps) \<and>
    recovered_image r' = foldl xor_image (recovered_image r)
      (map (\<lambda>p. packet_image (the (prot_pkt p))) (filter (\<lambda>p. prot_pkt p \<noteq> None) ps))"
  using assms
proof (induction ps arbitrary: r)
  case Nil
  then show ?case by (simp add: missing_def)
next
  case (Cons p ps)
  show ?case
  proof (cases "prot_pkt p")
    case None
    have "in_recovery ssrc (r\<lparr>rec_seq_num := prot_seq_num p\<rparr>)" using Cons.prems(1) by (simp add: in_recovery_def)
    moreover have "recovered_image (r\<lparr>rec_seq_num := prot_seq_num p\<rparr>) = recovered_image r"
      by (simp add: recovered_image_def cong: if_cong)
    ultimately show ?thesis
      using Cons.IH [of "r\<lparr>rec_seq_num := prot_seq_num p\<rparr>"] Cons.prems(2) None by (auto simp: missing_def)
  next
    case (Some q)
    with XorPackets_image [OF Cons.prems(1), of q] Cons.prems(2) obtain r1 where r1: "XorPackets q r = Some r1"
      "in_recovery ssrc r1" "rec_seq_num r1 = rec_seq_num r"
      "recovered_image r1 = xor_image (recovered_image r) (packet_image q)" by auto
    from Cons.IH [OF r1(2)] Cons.prems(2) Some r1(1,3,4) show ?thesis by (auto simp: missing_def)
  qed
qed

text \<open>A FEC packet as the decoder keeps it, for a group.\<close>

definition fec_sound :: "16 word \<Rightarrow> 32 word \<Rightarrow> Packet list \<Rightarrow> FecPacket \<Rightarrow> bool" where
  "fec_sound base ssrc ms f \<longleftrightarrow> fec_ssrc f = ssrc \<and>
     (\<exists>ts. protects base ms ts (pkt_data (fec_pkt f)) \<and>
       map prot_seq_num (protected_pkt_list f) = map (\<lambda>t. base + of_nat t) ts) \<and>
     (\<forall>p \<in> set (protected_pkt_list f). \<forall>q. prot_pkt p = Some q \<longrightarrow> carries base ms (prot_seq_num p) q)"

lemma carries_bounds:
  assumes "media_group base ssrc ms" "carries base ms s q"
  shows "length (pkt_data q) = 1500" "12 \<le> pkt_length q" "pkt_length q \<le> 1500"
proof -
  from assms(2) obtain t where "t < length ms" "length (pkt_data q) = 1500" "pkt_length q = pkt_length (ms ! t)"
    by (auto simp: carries_def)
  with group_member [OF assms(1)] show "length (pkt_data q) = 1500" "12 \<le> pkt_length q" "pkt_length q \<le> 1500"
    by force+
qed

lemma RecoverPacket_carries:
  assumes grp: "media_group base ssrc ms" and f: "fec_sound base ssrc ms f"
    and one: "length (missing (protected_pkt_list f)) = 1"
  shows "\<exists>r. RecoverPacket f = Some r \<and> missing (protected_pkt_list f) = [rec_seq_num r] \<and>
    carries base ms (rec_seq_num r) (rec_pkt r) \<and> was_recovered r \<and> \<not> returned r"
proof -
  let ?ps = "protected_pkt_list f"
  from f obtain ts where ts: "protects base ms ts (pkt_data (fec_pkt f))"
    "map prot_seq_num ?ps = map (\<lambda>t. base + of_nat t) ts" by (auto simp: fec_sound_def)
  have c: "carries base ms (prot_seq_num p) q" if "p \<in> set ?ps" "prot_pkt p = Some q" for p q
    using f that by (auto simp: fec_sound_def)
  from one obtain xs p ys where ps: "?ps = xs @ p # ys" "prot_pkt p = None"
    "\<forall>x \<in> set (xs @ ys). prot_pkt x \<noteq> None" "missing ?ps = [prot_seq_num p]" by (rule one_missing_split)
  from ts(2) ps(1) obtain txs t tys where t: "ts = txs @ t # tys" "prot_seq_num p = base + of_nat t"
    "map prot_seq_num xs = map (\<lambda>t. base + of_nat t) txs" "map prot_seq_num ys = map (\<lambda>t. base + of_nat t) tys"
    by (auto simp: append_eq_map_conv map_eq_append_conv map_eq_Cons_conv Cons_eq_map_conv)
  have range: "t' < length ms" if "t' \<in> set ts" for t' using ts(1) that by (simp add: protects_def)
  have imgs: "map (\<lambda>p. packet_image (the (prot_pkt p))) us = map (\<lambda>t. packet_image (ms ! t)) tus"
    if us: "map prot_seq_num us = map (\<lambda>t. base + of_nat t) tus" and sub: "set us \<subseteq> set (xs @ ys)" "set tus \<subseteq> set ts"
    for us tus
  proof (rule nth_equalityI)
    show "length (map (\<lambda>p. packet_image (the (prot_pkt p))) us) = length (map (\<lambda>t. packet_image (ms ! t)) tus)"
      using us by (metis length_map)
    fix i assume i: "i < length (map (\<lambda>p. packet_image (the (prot_pkt p))) us)"
    then have len: "i < length us" "i < length tus" using map_eq_imp_length_eq [OF us] by simp_all
    then have "us ! i \<in> set (xs @ ys)" using sub(1) nth_mem by blast
    then obtain q where "prot_pkt (us ! i) = Some q" "us ! i \<in> set ?ps" using ps(1,3) by auto
    moreover have "prot_seq_num (us ! i) = base + of_nat (tus ! i)" using arg_cong [OF us, of "\<lambda>l. l ! i"] len by simp
    moreover have "tus ! i < length ms" using len sub(2) range by (meson nth_mem subsetD)
    ultimately show "map (\<lambda>p. packet_image (the (prot_pkt p))) us ! i = map (\<lambda>t. packet_image (ms ! t)) tus ! i"
      using c [of "us ! i" q] carries_image(1) [OF grp, of "tus ! i" q] len by simp
  qed
  have flt: "filter (\<lambda>p. prot_pkt p \<noteq> None) ?ps = xs @ ys"
    using ps(2,3) unfolding ps(1) by (auto intro!: filter_True)
  from InitRecovery_image [OF ts(1)] f obtain r0 where r0: "InitRecovery f = Some r0" "in_recovery ssrc r0"
    "recovered_image r0 = sum_images (map (\<lambda>t. packet_image (ms ! t)) ts)" by (auto simp: fec_sound_def)
  have "\<forall>p \<in> set ?ps. \<forall>q. prot_pkt p = Some q \<longrightarrow> length (pkt_data q) = 1500 \<and> 12 \<le> pkt_length q \<and> pkt_length q \<le> 1500"
    using c carries_bounds [OF grp] by blast
  from recover_loop_image [OF r0(2) this, unfolded flt ps(4)] obtain r1 where r1: "recover_loop ?ps r0 = Some r1" "in_recovery ssrc r1"
    "rec_seq_num r1 = prot_seq_num p" "recovered_image r1 = foldl xor_image (recovered_image r0)
      (map (\<lambda>p. packet_image (the (prot_pkt p))) (xs @ ys))" by auto
  have "map (\<lambda>p. packet_image (the (prot_pkt p))) (xs @ ys) = map (\<lambda>t. packet_image (ms ! t)) (txs @ tys)"
    using t by (intro imgs) auto
  with r1(4) r0(3) t(1) have "recovered_image r1 = packet_image (ms ! t)"
    by (simp only: sum_images_def map_append list.map image_xor.sum_missing)
  with FinishRecovery_carries [OF grp _ r1(2)] r1(3) t range obtain r where "FinishRecovery r1 = Some r"
    "carries base ms (base + of_nat t) (rec_pkt r)" "rec_seq_num r = base + of_nat t" "was_recovered r" "\<not> returned r"
    by auto
  then show ?thesis using r0(1) r1(1) ps(4) t(2) by (simp add: RecoverPacket_def)
qed

end
