(* ===== verification/Fec_Lists.thy ===== *)
theory Fec_Lists
  imports Fec_Recovery
begin

text \<open>
  The list algorithms of the decoder on sequence numbers of one group, which lie in a window of 48
  numbers: the comparison \<^verbatim>\<open>LessThan\<close> is the order of the positions in the group, sorting inserts a
  packet in its place, and the searches of \<^verbatim>\<open>UpdateCoveringFECPackets\<close> and \<^verbatim>\<open>AssignRecoveredPackets\<close>
  find exactly the protected packets that are there.
\<close>

section \<open>Positions\<close>

lemma LessThan_position:
  assumes "t < 48" "t' < 48"
  shows "LessThan (base + of_nat t) (base + of_nat t') \<longleftrightarrow> t < t'"
proof -
  have w: "base + of_nat n = word_of_int (uint base + int n)" for n by (simp add: wi_hom_add [symmetric])
  have "\<bar>(uint base + int t') - (uint base + int t)\<bar> < 2 ^ 15" using assms by simp
  from newer_seq_unwrapped [OF this] show ?thesis by (simp only: LessThan_def w) simp
qed

definition pos :: "16 word \<Rightarrow> 16 word \<Rightarrow> nat" where
  "pos base s = unat (s - base)"

lemma pos_position [simp]: "t < 48 \<Longrightarrow> pos base (base + of_nat t) = t"
  by (simp add: pos_def unat_of_nat)

lemma position_pos: "base + of_nat (pos base s) = s"
  by (simp add: pos_def)

lemma LessThan_pos: "pos base s < 48 \<Longrightarrow> pos base s' < 48 \<Longrightarrow> LessThan s s' \<longleftrightarrow> pos base s < pos base s'"
  using LessThan_position [of "pos base s" "pos base s'" base] by (simp add: position_pos)

lemma pos_eq_iff: "pos base s = pos base s' \<longleftrightarrow> s = s'"
  by (metis position_pos)

section \<open>Sorting\<close>

lemma insert_by_last: "(\<forall>y \<in> set ys. \<not> lt x y) \<Longrightarrow> insert_by lt x ys = ys @ [x]"
  by (induction ys) simp_all

lemma list_sort_append: "list_sort lt (xs @ [x]) = insert_by lt x (list_sort lt xs)"
  by (simp add: list_sort_def)

lemma list_sort_sorted: "sorted_wrt (\<lambda>a b. \<not> lt b a) xs \<Longrightarrow> list_sort lt xs = xs"
proof (induction xs rule: rev_induct)
  case (snoc x xs)
  then show ?case by (simp add: list_sort_append sorted_wrt_append insert_by_last)
qed (simp add: list_sort_def)

lemma set_insert_by [simp]: "set (insert_by lt x ys) = insert x (set ys)"
  by (induction ys) auto

lemma length_insert_by [simp]: "length (insert_by lt x ys) = Suc (length ys)"
  by (induction ys) auto

lemma insert_by_sorted:
  fixes key :: "'a \<Rightarrow> nat"
  assumes "sorted_wrt (\<lambda>a b. key a < key b) ys" "\<forall>y \<in> set ys. key y \<noteq> key x"
    "\<And>a b. a \<in> insert x (set ys) \<Longrightarrow> b \<in> insert x (set ys) \<Longrightarrow> lt a b \<longleftrightarrow> key a < key b"
  shows "sorted_wrt (\<lambda>a b. key a < key b) (insert_by lt x ys)"
  using assms
proof (induction ys)
  case (Cons y ys)
  have "lt x y \<longleftrightarrow> key x < key y" using Cons.prems(3) by simp
  moreover have "sorted_wrt (\<lambda>a b. key a < key b) (insert_by lt x ys)"
    using Cons.prems(1,2) by (intro Cons.IH Cons.prems(3)) auto
  moreover have "key y \<noteq> key x" using Cons.prems(2) by simp
  ultimately show ?case using Cons.prems(1) by auto
qed simp

text \<open>Appending an element to a sorted list and sorting it again.\<close>

lemma sort_insert:
  fixes key :: "'a \<Rightarrow> nat"
  assumes "sorted_wrt (\<lambda>a b. key a < key b) xs" "\<forall>y \<in> set xs. key y \<noteq> key x"
    "\<And>a b. a \<in> insert x (set xs) \<Longrightarrow> b \<in> insert x (set xs) \<Longrightarrow> lt a b \<longleftrightarrow> key a < key b"
  shows "sorted_wrt (\<lambda>a b. key a < key b) (list_sort lt (xs @ [x]))"
    "set (list_sort lt (xs @ [x])) = insert x (set xs)" "length (list_sort lt (xs @ [x])) = Suc (length xs)"
proof -
  have "sorted_wrt (\<lambda>a b. \<not> lt b a) xs"
    using assms(1) by (rule sorted_wrt_mono_rel [rotated]) (simp add: assms(3))
  then have "list_sort lt (xs @ [x]) = insert_by lt x xs" by (simp add: list_sort_append list_sort_sorted)
  with insert_by_sorted [OF assms] show "sorted_wrt (\<lambda>a b. key a < key b) (list_sort lt (xs @ [x]))"
    "set (list_sort lt (xs @ [x])) = insert x (set xs)" "length (list_sort lt (xs @ [x])) = Suc (length xs)"
    by simp_all
qed

section \<open>Searching\<close>

lemma lower_bound_partition:
  assumes "\<forall>i<length xs. below (xs ! i) \<longleftrightarrow> i < c" "first \<le> c" "c \<le> first + n" "first + n \<le> length xs"
  shows "lower_bound below xs first n = c"
  using assms
proof (induction below xs first n rule: lower_bound.induct)
  case (1 below xs first n)
  show ?case
  proof (cases "n = 0")
    case False
    then have h: "first + n div 2 < length xs" "n div 2 < n" using 1(6) by linarith+
    show ?thesis
    proof (cases "below (xs ! (first + n div 2))")
      case True
      with 1(3) h have "first + n div 2 < c" by blast
      with 1(1) [OF False refl refl True 1(3)] 1(5,6) False True h show ?thesis
        by (subst lower_bound.simps) simp
    next
      case False': False
      with 1(3) h have "c \<le> first + n div 2" by (meson linorder_not_less)
      with 1(2) [OF False refl refl False' 1(3)] 1(4,6) False False' h show ?thesis
        by (subst lower_bound.simps) simp
    qed
  qed (use 1 in \<open>simp add: lower_bound.simps\<close>)
qed

lemma set_intersection_filter:
  fixes kx :: "'a \<Rightarrow> nat" and ky :: "'b \<Rightarrow> nat"
  assumes "sorted_wrt (\<lambda>a b. kx a < kx b) xs" "sorted_wrt (\<lambda>a b. ky a < ky b) ys"
    "\<And>x y. x \<in> set xs \<Longrightarrow> y \<in> set ys \<Longrightarrow> lt x y \<longleftrightarrow> kx x < ky y"
    "\<And>x y. x \<in> set xs \<Longrightarrow> y \<in> set ys \<Longrightarrow> gt y x \<longleftrightarrow> ky y < kx x"
  shows "set_intersection lt gt xs ys = filter (\<lambda>x. kx x \<in> ky ` set ys) xs"
  using assms
proof (induction lt gt xs ys rule: set_intersection.induct)
  case (1 lt gt x xs y ys)
  have c: "lt x y \<longleftrightarrow> kx x < ky y" "gt y x \<longleftrightarrow> ky y < kx x" using 1(6,7) by simp_all
  consider "kx x < ky y" | "ky y < kx x" | "kx x = ky y" by linarith
  then show ?case
  proof cases
    case 1
    then have "kx x \<notin> ky ` set (y # ys)" using "1.prems"(2) by force
    then show ?thesis using 1 c "1.IH"(1) "1.prems" by simp
  next
    case 2
    then have "filter (\<lambda>x. kx x \<in> ky ` set (y # ys)) (x # xs) = filter (\<lambda>x. kx x \<in> ky ` set ys) (x # xs)"
      using "1.prems"(1) by (intro filter_cong) auto
    then show ?thesis using 2 c "1.IH"(2) "1.prems" by simp
  next
    case 3
    then have "filter (\<lambda>x. kx x \<in> ky ` set (y # ys)) xs = filter (\<lambda>x. kx x \<in> ky ` set ys) xs"
      using "1.prems"(1) by (intro filter_cong) auto
    then show ?thesis using 3 c "1.IH"(3) "1.prems" by simp
  qed
qed simp_all

section \<open>Linking protected packets to packets that are there\<close>

definition fill :: "(16 word \<rightharpoonup> Packet) \<Rightarrow> ProtectedPacket \<Rightarrow> ProtectedPacket" where
  "fill m p = (case m (prot_seq_num p) of None \<Rightarrow> p | Some q \<Rightarrow> p\<lparr>prot_pkt := Some q\<rparr>)"

definition rec_map :: "RecoveredPacket list \<Rightarrow> 16 word \<rightharpoonup> Packet" where
  "rec_map rs = map_of (map (\<lambda>r. (rec_seq_num r, rec_pkt r)) rs)"

definition fill_fec :: "(16 word \<rightharpoonup> Packet) \<Rightarrow> FecPacket \<Rightarrow> FecPacket" where
  "fill_fec m f = f\<lparr>protected_pkt_list := map (fill m) (protected_pkt_list f)\<rparr>"

lemma fill_seq [simp]: "prot_seq_num (fill m p) = prot_seq_num p"
  by (simp add: fill_def split: option.split)

lemma fill_None: "prot_pkt (fill m p) = None \<longleftrightarrow> m (prot_seq_num p) = None \<and> prot_pkt p = None"
  by (simp add: fill_def split: option.split)

lemma fill_Some: "prot_pkt (fill m p) = Some q \<Longrightarrow> m (prot_seq_num p) = Some q \<or> prot_pkt p = Some q"
  by (simp add: fill_def split: option.splits)

lemma missing_fill: "missing (map (fill m) ps) = filter (\<lambda>s. m s = None) (missing ps)"
  by (induction ps) (auto simp: missing_def fill_None)

lemma rec_map_simps [simp]: "rec_map [] = Map.empty" "rec_map (r # rs) = (rec_map rs)(rec_seq_num r \<mapsto> rec_pkt r)"
  by (simp_all add: rec_map_def)

lemma dom_rec_map: "dom (rec_map rs) = rec_seq_num ` set rs"
  by (simp add: rec_map_def dom_map_of_conv_image_fst image_image)

lemma rec_map_Some: "rec_map rs s = Some q \<Longrightarrow> \<exists>r \<in> set rs. rec_seq_num r = s \<and> rec_pkt r = q"
  unfolding rec_map_def by (drule map_of_SomeD) auto

text \<open>The protected packets of a FEC packet, in the order of their positions.\<close>

definition in_order :: "16 word \<Rightarrow> ProtectedPacket list \<Rightarrow> bool" where
  "in_order base ps \<longleftrightarrow> sorted_wrt (\<lambda>a b. pos base (prot_seq_num a) < pos base (prot_seq_num b)) ps \<and>
     (\<forall>p \<in> set ps. pos base (prot_seq_num p) < 48)"

lemma in_order_nth_less:
  assumes "in_order base ps" "i < length ps" "j < length ps"
  shows "pos base (prot_seq_num (ps ! i)) < pos base (prot_seq_num (ps ! j)) \<longleftrightarrow> i < j"
  using assms sorted_wrt_nth_less [of "\<lambda>a b. pos base (prot_seq_num a) < pos base (prot_seq_num b)" ps i j]
    sorted_wrt_nth_less [of "\<lambda>a b. pos base (prot_seq_num a) < pos base (prot_seq_num b)" ps j i]
  unfolding in_order_def by (metis less_asym' linorder_neqE_nat)

lemma update_covering_fill:
  assumes ord: "in_order base (protected_pkt_list f)" and r: "pos base (rec_seq_num r) < 48"
  shows "update_covering r f = fill_fec [rec_seq_num r \<mapsto> rec_pkt r] f"
proof -
  let ?ps = "protected_pkt_list f" and ?s = "rec_seq_num r"
  have below: "LessThan (prot_seq_num p) ?s \<longleftrightarrow> pos base (prot_seq_num p) < pos base ?s" if "p \<in> set ?ps" for p
    using ord r that by (intro LessThan_pos) (auto simp: in_order_def)
  show ?thesis
  proof (cases "\<exists>i<length ?ps. prot_seq_num (?ps ! i) = ?s")
    case True
    then obtain i where i: "i < length ?ps" "prot_seq_num (?ps ! i) = ?s" by blast
    have "lower_bound (\<lambda>p. LessThan (prot_seq_num p) ?s) ?ps 0 (length ?ps) = i"
      using below in_order_nth_less [OF ord _ i(1)] i by (intro lower_bound_partition) auto
    moreover have "?ps[i := (?ps ! i)\<lparr>prot_pkt := Some (rec_pkt r)\<rparr>] = map (fill [?s \<mapsto> rec_pkt r]) ?ps"
    proof (rule nth_equalityI)
      fix j assume "j < length (?ps[i := (?ps ! i)\<lparr>prot_pkt := Some (rec_pkt r)\<rparr>])"
      then have j: "j < length ?ps" by simp
      have "prot_seq_num (?ps ! j) = ?s \<longleftrightarrow> j = i"
        using in_order_nth_less [OF ord i(1) j] in_order_nth_less [OF ord j i(1)] i(2) by (metis linorder_neqE_nat order_less_irrefl)
      with i j show "?ps[i := (?ps ! i)\<lparr>prot_pkt := Some (rec_pkt r)\<rparr>] ! j = map (fill [?s \<mapsto> rec_pkt r]) ?ps ! j"
        by (simp add: fill_def nth_list_update)
    qed simp
    ultimately show ?thesis using i by (simp add: update_covering_def fill_fec_def Let_def)
  next
    case False
    have "map (fill [?s \<mapsto> rec_pkt r]) ?ps = ?ps"
      using False by (intro map_idI) (auto simp: fill_def in_set_conv_nth)
    moreover have "update_covering r f = f"
      using False unfolding update_covering_def Let_def by (intro if_not_P) blast
    ultimately show ?thesis by (simp add: fill_fec_def)
  qed
qed

lemma assign_recovered_fill:
  assumes "sorted_wrt (\<lambda>a b. pos base (rec_seq_num a) < pos base (rec_seq_num b)) rs"
    "sorted_wrt (\<lambda>a b. pos base (prot_seq_num a) < pos base (prot_seq_num b)) ps"
    "\<forall>r \<in> set rs. rec_seq_num r \<in> prot_seq_num ` set ps"
  shows "assign_recovered rs ps = Some (map (fill (rec_map rs)) ps)"
  using assms
proof (induction rs ps rule: assign_recovered.induct)
  case (1 ps)
  then show ?case by (simp add: fill_def [abs_def])
next
  case (3 r rs p ps)
  have later: "\<forall>r' \<in> set rs. pos base (rec_seq_num r) < pos base (rec_seq_num r')"
    "\<forall>p' \<in> set ps. pos base (prot_seq_num p) < pos base (prot_seq_num p')" using 3(3,4) by simp_all
  show ?case
  proof (cases "prot_seq_num p = rec_seq_num r")
    case True
    let ?p = "p\<lparr>prot_pkt := Some (rec_pkt r)\<rparr>"
    have sub: "\<forall>r' \<in> set rs. rec_seq_num r' \<in> prot_seq_num ` set (?p # ps)" using 3(5) by auto
    have n: "rec_map rs (prot_seq_num p) = None"
      using later(1) dom_rec_map [of rs] True by (force simp: domIff)
    have "assign_recovered rs (?p # ps) = Some (map (fill (rec_map rs)) (?p # ps))"
      using 3(3,4) sub True by (intro 3(2)) simp_all
    moreover have "fill (rec_map rs) ?p = fill (rec_map (r # rs)) p" using n True by (simp add: fill_def)
    moreover have "fill (rec_map rs) x = fill (rec_map (r # rs)) x" if "x \<in> set ps" for x
      using later(2) that True by (auto simp: fill_def)
    ultimately show ?thesis using True by (simp del: rec_map_simps)
  next
    case False
    with 3(5) have "rec_seq_num r \<in> prot_seq_num ` set ps" by auto
    with later have lt: "\<forall>r' \<in> set (r # rs). pos base (prot_seq_num p) < pos base (rec_seq_num r')" by force
    then have sub: "\<forall>r' \<in> set (r # rs). rec_seq_num r' \<in> prot_seq_num ` set ps" using 3(5) by force
    have "rec_map (r # rs) (prot_seq_num p) = None"
      using lt dom_rec_map [of "r # rs"] by (force simp: domIff)
    then have "fill (rec_map (r # rs)) p = p" by (simp add: fill_def)
    moreover have "assign_recovered (r # rs) ps = Some (map (fill (rec_map (r # rs))) ps)"
      using 3(3,4) sub False by (intro 3(1)) simp_all
    ultimately show ?thesis using False by (simp del: rec_map_simps)
  qed
next
  case (2 r rs)
  then have False by (metis all_not_in_conv image_is_empty list.set(1) list.set_intros(1))
  then show ?case ..
qed

lemma AssignRecoveredPackets_fill:
  assumes ord: "in_order base (protected_pkt_list f)"
    and rs: "sorted_wrt (\<lambda>a b. pos base (rec_seq_num a) < pos base (rec_seq_num b)) rs" "\<forall>r \<in> set rs. pos base (rec_seq_num r) < 48"
  shows "AssignRecoveredPackets rs f = Some (fill_fec (rec_map rs) f)"
proof -
  let ?ps = "protected_pkt_list f" and ?k = "\<lambda>r. pos base (rec_seq_num r)"
  let ?as = "filter (\<lambda>r. ?k r \<in> (\<lambda>p. pos base (prot_seq_num p)) ` set ?ps) rs"
  have "set_intersection (\<lambda>r p. LessThan (rec_seq_num r) (prot_seq_num p))
      (\<lambda>p r. LessThan (prot_seq_num p) (rec_seq_num r)) rs ?ps = ?as"
    using ord rs by (intro set_intersection_filter) (auto simp: in_order_def intro!: LessThan_pos)
  moreover have "assign_recovered ?as ?ps = Some (map (fill (rec_map ?as)) ?ps)"
    using ord rs(1) by (intro assign_recovered_fill sorted_wrt_filter) (auto simp: in_order_def pos_eq_iff)
  moreover have "rec_map ?as (prot_seq_num p) = rec_map rs (prot_seq_num p)" if "p \<in> set ?ps" for p
  proof (induction rs)
    case (Cons r rs)
    have "pos base (rec_seq_num r) \<in> (\<lambda>p. pos base (prot_seq_num p)) ` set ?ps" if "rec_seq_num r = prot_seq_num p"
      using \<open>p \<in> set ?ps\<close> that by simp
    with Cons show ?case by auto
  qed simp
  then have "map (fill (rec_map ?as)) ?ps = map (fill (rec_map rs)) ?ps" by (simp add: fill_def)
  ultimately show ?thesis by (simp add: AssignRecoveredPackets_def fill_fec_def)
qed

end
