(* ===== verification/Fec_Decoding.thy ===== *)
theory Fec_Decoding
  imports Fec_Lists
begin

text \<open>
  The decoder on the packets of a group: its invariant, and that every call of \<^verbatim>\<open>DecodeFEC\<close> keeps it.
  The invariant says that the recovered list holds packets of the group in order, that the stored FEC
  packets protect the group, and that they are linked to exactly the packets of the recovered list.
\<close>

section \<open>The invariant\<close>

abbreviation rec_seqs :: "RecoveredPacket list \<Rightarrow> 16 word set" where
  "rec_seqs recs \<equiv> rec_seq_num ` set recs"

definition dec_inv :: "16 word \<Rightarrow> 32 word \<Rightarrow> Packet list \<Rightarrow> RecoveredPacket list \<Rightarrow> FecPacket list \<Rightarrow> bool" where
  "dec_inv base ssrc ms recs fecs \<longleftrightarrow>
     sorted_wrt (\<lambda>a b. pos base (rec_seq_num a) < pos base (rec_seq_num b)) recs \<and>
     (\<forall>r \<in> set recs. carries base ms (rec_seq_num r) (rec_pkt r)) \<and>
     (\<forall>f \<in> set fecs. fec_sound base ssrc ms f \<and>
        (\<forall>p \<in> set (protected_pkt_list f). prot_pkt p = None \<longleftrightarrow> prot_seq_num p \<notin> rec_seqs recs))"

lemma dec_inv_empty: "dec_inv base ssrc ms [] []"
  by (simp add: dec_inv_def)

lemma carries_pos: "media_group base ssrc ms \<Longrightarrow> carries base ms s q \<Longrightarrow> pos base s < length ms \<and> pos base s < 48"
  by (auto simp: carries_def media_group_def)

lemma dec_inv_rec:
  assumes "media_group base ssrc ms" "dec_inv base ssrc ms recs fecs"
  shows "\<forall>r \<in> set recs. pos base (rec_seq_num r) < 48" "\<forall>r \<in> set recs. pos base (rec_seq_num r) < length ms"
  using assms carries_pos by (fastforce simp: dec_inv_def)+

lemma fec_sound_in_order:
  assumes "media_group base ssrc ms" "fec_sound base ssrc ms f"
  shows "in_order base (protected_pkt_list f)"
proof -
  from assms(2) obtain ts where ts: "protects base ms ts (pkt_data (fec_pkt f))"
    "map prot_seq_num (protected_pkt_list f) = map (\<lambda>t. base + of_nat t) ts" by (auto simp: fec_sound_def)
  have r: "\<forall>t \<in> set ts. t < 48" "sorted_wrt (<) ts" using ts(1) assms(1) by (auto simp: protects_def media_group_def)
  have "map (\<lambda>p. pos base (prot_seq_num p)) (protected_pkt_list f) = map (pos base) (map prot_seq_num (protected_pkt_list f))"
    by simp
  also have "\<dots> = ts" using r(1) by (simp add: ts(2) map_idI)
  finally have m: "map (\<lambda>p. pos base (prot_seq_num p)) (protected_pkt_list f) = ts" .
  with r(2) have "sorted_wrt (<) (map (\<lambda>p. pos base (prot_seq_num p)) (protected_pkt_list f))" by simp
  moreover have "\<forall>p \<in> set (protected_pkt_list f). pos base (prot_seq_num p) < 48" using r(1) unfolding m [symmetric] by simp
  ultimately show ?thesis by (simp add: in_order_def sorted_wrt_map)
qed

text \<open>At most as many packets as the group has: \<^verbatim>\<open>DiscardOldPackets\<close> has nothing to do.\<close>

lemma sorted_positions_length:
  fixes f :: "'a \<Rightarrow> nat"
  assumes "sorted_wrt (\<lambda>a b. f a < f b) xs" "\<forall>x \<in> set xs. f x < n"
  shows "length xs \<le> n"
proof -
  have "sorted_wrt (<) (map f xs)" using assms(1) by (simp add: sorted_wrt_map)
  then have "distinct (map f xs)" using strict_sorted_iff by blast
  then have "length xs = card (set (map f xs))" by (metis distinct_card length_map)
  also have "\<dots> \<le> card {..<n}" using assms(2) by (intro card_mono) auto
  finally show ?thesis by simp
qed

lemma dec_inv_length:
  assumes "media_group base ssrc ms" "dec_inv base ssrc ms recs fecs"
  shows "length recs \<le> length ms" "length recs \<le> 48"
proof -
  show "length recs \<le> length ms"
    using assms(2) dec_inv_rec(2) [OF assms]
    by (intro sorted_positions_length [where f = "\<lambda>r. pos base (rec_seq_num r)"]) (simp_all add: dec_inv_def)
  then show "length recs \<le> 48" using assms(1) by (simp add: media_group_def)
qed

lemma DiscardOldPackets_id: "length recs \<le> 48 \<Longrightarrow> DiscardOldPackets recs = recs"
  by (simp add: DiscardOldPackets_def kMaxMediaPackets_def)

lemma dec_inv_subset: "dec_inv base ssrc ms recs fecs \<Longrightarrow> set fecs' \<subseteq> set fecs \<Longrightarrow> dec_inv base ssrc ms recs fecs'"
  by (auto simp: dec_inv_def)

section \<open>Linking\<close>

lemma fill_fec_sel [simp]:
  "fec_seq_num (fill_fec m f) = fec_seq_num f" "fec_ssrc (fill_fec m f) = fec_ssrc f" "fec_pkt (fill_fec m f) = fec_pkt f"
  "map prot_seq_num (protected_pkt_list (fill_fec m f)) = map prot_seq_num (protected_pkt_list f)"
  "protected_pkt_list (fill_fec m f) = map (fill m) (protected_pkt_list f)"
  by (simp_all add: fill_fec_def)

lemma fec_sound_fill:
  assumes "fec_sound base ssrc ms f" "\<And>s q. m s = Some q \<Longrightarrow> carries base ms s q"
  shows "fec_sound base ssrc ms (fill_fec m f)"
proof -
  have "carries base ms (prot_seq_num p) q" if "p \<in> set (protected_pkt_list f)" "prot_pkt (fill m p) = Some q" for p q
    using fill_Some [OF that(2)] that(1) assms by (auto simp: fec_sound_def)
  then show ?thesis using assms(1) by (simp add: fec_sound_def del: fill_fec_sel(5)) (auto simp: fec_sound_def)
qed

text \<open>A packet that arrives or is recovered.\<close>

lemma dec_inv_add:
  assumes grp: "media_group base ssrc ms" and inv: "dec_inv base ssrc ms recs fecs"
    and r: "carries base ms (rec_seq_num r) (rec_pkt r)" "rec_seq_num r \<notin> rec_seqs recs"
  shows "dec_inv base ssrc ms (sort_recovered (recs @ [r])) (UpdateCoveringFECPackets r fecs)"
    "set (sort_recovered (recs @ [r])) = insert r (set recs)"
    "UpdateCoveringFECPackets r fecs = map (fill_fec [rec_seq_num r \<mapsto> rec_pkt r]) fecs"
proof -
  have p: "pos base (rec_seq_num r) < 48" "\<forall>r \<in> set recs. pos base (rec_seq_num r) < 48"
    using carries_pos [OF grp r(1)] dec_inv_rec(1) [OF grp inv] by simp_all
  have lt: "LessThan (rec_seq_num a) (rec_seq_num b) \<longleftrightarrow> pos base (rec_seq_num a) < pos base (rec_seq_num b)"
    if "a \<in> insert r (set recs)" "b \<in> insert r (set recs)" for a b
    using that p by (intro LessThan_pos) auto
  have "\<forall>y \<in> set recs. pos base (rec_seq_num y) \<noteq> pos base (rec_seq_num r)"
    using r(2) unfolding pos_eq_iff by (metis image_eqI)
  then have s: "sorted_wrt (\<lambda>a b. pos base (rec_seq_num a) < pos base (rec_seq_num b)) (sort_recovered (recs @ [r]))"
    "set (sort_recovered (recs @ [r])) = insert r (set recs)"
    using inv lt sort_insert [of "\<lambda>r. pos base (rec_seq_num r)" recs r "\<lambda>a b. LessThan (rec_seq_num a) (rec_seq_num b)"]
    by (simp_all add: sort_recovered_def dec_inv_def)
  show u: "UpdateCoveringFECPackets r fecs = map (fill_fec [rec_seq_num r \<mapsto> rec_pkt r]) fecs"
    using inv p(1) fec_sound_in_order [OF grp]
    by (auto simp: UpdateCoveringFECPackets_def dec_inv_def intro: update_covering_fill)
  show "set (sort_recovered (recs @ [r])) = insert r (set recs)" by (rule s(2))
  have "fec_sound base ssrc ms (fill_fec [rec_seq_num r \<mapsto> rec_pkt r] f)" if "f \<in> set fecs" for f
    using that inv r(1) by (intro fec_sound_fill) (auto simp: dec_inv_def split: if_splits)
  then show "dec_inv base ssrc ms (sort_recovered (recs @ [r])) (UpdateCoveringFECPackets r fecs)"
    using inv s r(1) by (auto simp: dec_inv_def u fill_None split: if_splits)
qed

section \<open>Inserting\<close>

text \<open>What a receiver may get of a group: any of its packets, and FEC packets that protect it.\<close>

definition group_rx :: "16 word \<Rightarrow> 32 word \<Rightarrow> Packet list \<Rightarrow> ReceivedPacket \<Rightarrow> bool" where
  "group_rx base ssrc ms rx \<longleftrightarrow>
     (if is_fec rx then rx_ssrc rx = ssrc \<and> (\<exists>ts. protects base ms ts (pkt_data (rx_pkt rx)))
      else carries base ms (rx_seq_num rx) (rx_pkt rx))"

lemma InsertMediaPacket_inv:
  assumes grp: "media_group base ssrc ms" and inv: "dec_inv base ssrc ms recs (fec_packet_list s)"
    and rx: "carries base ms (rx_seq_num rx) (rx_pkt rx)" and ins: "InsertMediaPacket rx recs s = (recs', s')"
  shows "dec_inv base ssrc ms recs' (fec_packet_list s')" "rec_seqs recs' = insert (rx_seq_num rx) (rec_seqs recs)"
    "map fec_seq_num (fec_packet_list s') = map fec_seq_num (fec_packet_list s)"
    "map (\<lambda>f. map prot_seq_num (protected_pkt_list f)) (fec_packet_list s') =
     map (\<lambda>f. map prot_seq_num (protected_pkt_list f)) (fec_packet_list s)"
proof -
  have "dec_inv base ssrc ms recs' (fec_packet_list s') \<and> rec_seqs recs' = insert (rx_seq_num rx) (rec_seqs recs) \<and>
    map fec_seq_num (fec_packet_list s') = map fec_seq_num (fec_packet_list s) \<and>
    map (\<lambda>f. map prot_seq_num (protected_pkt_list f)) (fec_packet_list s') =
     map (\<lambda>f. map prot_seq_num (protected_pkt_list f)) (fec_packet_list s)"
  proof (cases "rx_seq_num rx \<in> rec_seqs recs")
    case True
    then have "list_ex (\<lambda>q. rx_seq_num rx = rec_seq_num q) recs" by (auto simp: list_ex_iff)
    then have "recs' = recs" "s' = s" using ins by (simp_all add: InsertMediaPacket_def)
    with inv True show ?thesis by auto
  next
    case False
    define r where "r = \<lparr>rec_seq_num = rx_seq_num rx, was_recovered = False, returned = True, length_recovery = [],
      rec_pkt = rx_pkt rx\<rparr>"
    have r: "rec_seq_num r = rx_seq_num rx" "rec_pkt r = rx_pkt rx" by (simp_all add: r_def)
    have "\<not> list_ex (\<lambda>q. rx_seq_num rx = rec_seq_num q) recs" using False by (auto simp: list_ex_iff)
    with ins have e: "recs' = sort_recovered (recs @ [r])"
      "fec_packet_list s' = UpdateCoveringFECPackets r (fec_packet_list s)"
      unfolding InsertMediaPacket_def Let_def r_def [symmetric] by auto
    from dec_inv_add [OF grp inv, of r] rx False r show ?thesis by (simp add: e)
  qed
  then show "dec_inv base ssrc ms recs' (fec_packet_list s')" "rec_seqs recs' = insert (rx_seq_num rx) (rec_seqs recs)"
    "map fec_seq_num (fec_packet_list s') = map fec_seq_num (fec_packet_list s)"
    "map (\<lambda>f. map prot_seq_num (protected_pkt_list f)) (fec_packet_list s') =
     map (\<lambda>f. map prot_seq_num (protected_pkt_list f)) (fec_packet_list s)" by blast+
qed

abbreviation fec_seqs :: "FecPacket \<Rightarrow> 16 word list" where
  "fec_seqs f \<equiv> map prot_seq_num (protected_pkt_list f)"

lemma set_list_sort [simp]: "set (list_sort lt xs) = set xs"
  by (induction xs rule: rev_induct) (simp_all add: list_sort_append, simp add: list_sort_def)

lemma length_list_sort [simp]: "length (list_sort lt xs) = length xs"
  by (induction xs rule: rev_induct) (simp_all add: list_sort_append, simp add: list_sort_def)

lemma distinct_list_sort: "distinct (map g (list_sort lt xs)) \<longleftrightarrow> distinct (map g xs)"
proof (induction xs rule: rev_induct)
  case (snoc x xs)
  have "distinct (map g (insert_by lt x ys)) \<longleftrightarrow> g x \<notin> g ` set ys \<and> distinct (map g ys)" for ys
    by (induction ys) auto
  with snoc show ?case by (auto simp: list_sort_append)
qed (simp add: list_sort_def)

lemma new_fec_sound:
  assumes grp: "media_group base ssrc ms" and inv: "dec_inv base ssrc ms recs fecs"
    and p: "protects base ms ts (pkt_data q)"
    and f: "f = \<lparr>fec_seq_num = sn, protected_pkt_list = map (\<lambda>n. \<lparr>prot_seq_num = n, prot_pkt = None\<rparr>) (covered_seqs (pkt_data q)),
      fec_ssrc = ssrc, fec_pkt = q\<rparr>"
  shows "AssignRecoveredPackets recs f = Some (fill_fec (rec_map recs) f)" "protected_pkt_list f \<noteq> []"
    "fec_seqs f = map (\<lambda>t. base + of_nat t) ts" "dec_inv base ssrc ms recs (fill_fec (rec_map recs) f # fecs)"
proof -
  have s: "fec_seqs f = map (\<lambda>t. base + of_nat t) ts" using p by (simp add: f protects_def o_def)
  have sound: "fec_sound base ssrc ms f"
    unfolding fec_sound_def using p s by (auto simp: f)
  show "AssignRecoveredPackets recs f = Some (fill_fec (rec_map recs) f)"
    using inv dec_inv_rec(1) [OF grp inv] fec_sound_in_order [OF grp sound]
    by (intro AssignRecoveredPackets_fill) (simp_all add: dec_inv_def)
  show "protected_pkt_list f \<noteq> []" using p s by (auto simp: protects_def)
  show "fec_seqs f = map (\<lambda>t. base + of_nat t) ts" by (rule s)
  have "carries base ms s q" if "rec_map recs s = Some q" for s q
    using rec_map_Some [OF that] inv by (auto simp: dec_inv_def)
  with sound have "fec_sound base ssrc ms (fill_fec (rec_map recs) f)" by (rule fec_sound_fill)
  moreover have "rec_map recs s = None \<longleftrightarrow> s \<notin> rec_seqs recs" for s using dom_rec_map [of recs] by (auto simp: domIff)
  ultimately show "dec_inv base ssrc ms recs (fill_fec (rec_map recs) f # fecs)"
    using inv by (auto simp: dec_inv_def fill_None f)
qed

lemma InsertFECPacket_inv:
  assumes grp: "media_group base ssrc ms" and inv: "dec_inv base ssrc ms recs (fec_packet_list s)"
    and rx: "rx_ssrc rx = ssrc" "protects base ms ts (pkt_data (rx_pkt rx))"
  obtains s' where "InsertFECPacket rx recs s = Some s'" "dec_inv base ssrc ms recs (fec_packet_list s')"
    "rx_seq_num rx \<in> fec_seq_num ` set (fec_packet_list s) \<Longrightarrow> fec_packet_list s' = fec_packet_list s"
    "rx_seq_num rx \<notin> fec_seq_num ` set (fec_packet_list s) \<Longrightarrow> length (fec_packet_list s) < 48 \<Longrightarrow>
      distinct (map fec_seq_num (fec_packet_list s)) \<Longrightarrow>
      distinct (map fec_seq_num (fec_packet_list s')) \<and>
      (\<exists>f. set (fec_packet_list s') = insert f (set (fec_packet_list s)) \<and> fec_seq_num f = rx_seq_num rx \<and>
        fec_seqs f = map (\<lambda>t. base + of_nat t) ts)"
proof (cases "rx_seq_num rx \<in> fec_seq_num ` set (fec_packet_list s)")
  case True
  then have "list_ex (\<lambda>f. rx_seq_num rx = fec_seq_num f) (fec_packet_list s)" by (auto simp: list_ex_iff)
  then have "InsertFECPacket rx recs s = Some (s\<lparr>fec_packet_received := True\<rparr>)" by (simp add: InsertFECPacket_def)
  with inv True show thesis by (intro that [of "s\<lparr>fec_packet_received := True\<rparr>"]) simp_all
next
  case False
  define f where "f = \<lparr>fec_seq_num = rx_seq_num rx, protected_pkt_list =
    map (\<lambda>n. \<lparr>prot_seq_num = n, prot_pkt = None\<rparr>) (covered_seqs (pkt_data (rx_pkt rx))), fec_ssrc = ssrc, fec_pkt = rx_pkt rx\<rparr>"
  note nf = new_fec_sound [OF grp inv rx(2), of f "rx_seq_num rx", OF f_def]
  define fecs where "fecs = list_sort (\<lambda>a b. LessThan (fec_seq_num a) (fec_seq_num b))
    (fec_packet_list s @ [fill_fec (rec_map recs) f])"
  let ?s = "s\<lparr>fec_packet_received := True, fec_packet_list := if length fecs > kMaxFecPackets then tl fecs else fecs\<rparr>"
  have "\<not> list_ex (\<lambda>f. rx_seq_num rx = fec_seq_num f) (fec_packet_list s)" using False by (auto simp: list_ex_iff)
  with nf(1,2) have ins: "InsertFECPacket rx recs s = Some ?s"
    unfolding InsertFECPacket_def rx(1) by (simp add: f_def [symmetric] fecs_def Let_def)
  have set: "set fecs = insert (fill_fec (rec_map recs) f) (set (fec_packet_list s))" by (simp add: fecs_def)
  have "set (tl fecs) \<subseteq> set fecs" by (cases fecs) auto
  then have "dec_inv base ssrc ms recs (fec_packet_list ?s)"
    using nf(4) by (intro dec_inv_subset [OF nf(4)]) (auto simp: set)
  moreover have "distinct (map fec_seq_num (fec_packet_list ?s)) \<and>
      (\<exists>f. set (fec_packet_list ?s) = insert f (set (fec_packet_list s)) \<and> fec_seq_num f = rx_seq_num rx \<and>
        fec_seqs f = map (\<lambda>t. base + of_nat t) ts)"
    if "length (fec_packet_list s) < 48" "distinct (map fec_seq_num (fec_packet_list s))"
  proof -
    have e: "fec_packet_list ?s = fecs" using that(1) by (simp add: fecs_def kMaxFecPackets_def kMaxMediaPackets_def)
    have "fec_seqs (fill_fec (rec_map recs) f) = map (\<lambda>t. base + of_nat t) ts"
      by (simp only: fill_fec_sel(4) nf(3))
    moreover have "fec_seq_num (fill_fec (rec_map recs) f) = rx_seq_num rx" by (simp add: f_def)
    moreover have "distinct (map fec_seq_num fecs)"
      using that(2) False unfolding fecs_def distinct_list_sort by (auto simp: f_def)
    ultimately show ?thesis unfolding e using set by blast
  qed
  ultimately show thesis using ins False by (intro that) auto
qed

section \<open>Recovering\<close>

definition same_fec :: "FecPacket \<Rightarrow> FecPacket \<Rightarrow> bool" where
  "same_fec f f' \<longleftrightarrow> fec_seq_num f = fec_seq_num f' \<and> fec_seqs f = fec_seqs f'"

lemma same_fec_refl: "same_fec f f"
  by (simp add: same_fec_def)

lemma same_fec_trans: "same_fec f g \<Longrightarrow> same_fec g h \<Longrightarrow> same_fec f h"
  by (simp add: same_fec_def)

lemma same_fec_fill: "same_fec f (fill_fec m f)"
  by (simp add: same_fec_def del: fill_fec_sel(5))

text \<open>What one round or all of \<^verbatim>\<open>AttemptRecover\<close> does: nothing that was there is lost, and a FEC packet
  goes only when all that it protects is there.\<close>

definition advances :: "RecoveredPacket list \<Rightarrow> FecPacket list \<Rightarrow> RecoveredPacket list \<Rightarrow> FecPacket list \<Rightarrow> bool" where
  "advances recs fecs recs' fecs' \<longleftrightarrow> rec_seqs recs \<subseteq> rec_seqs recs' \<and>
     (\<forall>f \<in> set fecs. (\<exists>f' \<in> set fecs'. same_fec f f') \<or> set (fec_seqs f) \<subseteq> rec_seqs recs') \<and>
     (\<forall>f' \<in> set fecs'. \<exists>f \<in> set fecs. same_fec f f') \<and>
     (distinct (map fec_seq_num fecs) \<longrightarrow> distinct (map fec_seq_num fecs'))"

lemma advancesD:
  assumes "advances recs fecs recs' fecs'"
  shows "rec_seqs recs \<subseteq> rec_seqs recs'" "distinct (map fec_seq_num fecs) \<Longrightarrow> distinct (map fec_seq_num fecs')"
    "f \<in> set fecs \<Longrightarrow> (\<exists>f' \<in> set fecs'. same_fec f f') \<or> set (fec_seqs f) \<subseteq> rec_seqs recs'"
    "f' \<in> set fecs' \<Longrightarrow> \<exists>f \<in> set fecs. same_fec f f'"
  using assms by (simp_all add: advances_def)

lemma advancesI:
  assumes "rec_seqs recs \<subseteq> rec_seqs recs'" "distinct (map fec_seq_num fecs) \<Longrightarrow> distinct (map fec_seq_num fecs')"
    "\<And>f. f \<in> set fecs \<Longrightarrow> (\<exists>f' \<in> set fecs'. same_fec f f') \<or> set (fec_seqs f) \<subseteq> rec_seqs recs'"
    "\<And>f'. f' \<in> set fecs' \<Longrightarrow> \<exists>f \<in> set fecs. same_fec f f'"
  shows "advances recs fecs recs' fecs'"
  using assms by (simp add: advances_def)

lemma advances_refl: "advances recs fecs recs fecs"
  by (rule advancesI) (use same_fec_refl in blast)+

lemma advances_trans:
  assumes "advances recs fecs recs' fecs'" "advances recs' fecs' recs'' fecs''"
  shows "advances recs fecs recs'' fecs''"
proof (rule advancesI)
  show "rec_seqs recs \<subseteq> rec_seqs recs''" using advancesD(1) [OF assms(1)] advancesD(1) [OF assms(2)] by (rule subset_trans)
  show "distinct (map fec_seq_num fecs'')" if "distinct (map fec_seq_num fecs)"
    using that by (intro advancesD(2) [OF assms(2)] advancesD(2) [OF assms(1)])
  show "(\<exists>f'' \<in> set fecs''. same_fec f f'') \<or> set (fec_seqs f) \<subseteq> rec_seqs recs''" if "f \<in> set fecs" for f
    using advancesD(3) [OF assms(1) that]
  proof (elim disjE bexE)
    fix f' assume f': "f' \<in> set fecs'" "same_fec f f'"
    then have e: "set (fec_seqs f') = set (fec_seqs f)" by (simp add: same_fec_def)
    show ?thesis using advancesD(3) [OF assms(2) f'(1)] same_fec_trans [OF f'(2)] unfolding e by blast
  next
    assume "set (fec_seqs f) \<subseteq> rec_seqs recs'"
    then have "set (fec_seqs f) \<subseteq> rec_seqs recs''" using advancesD(1) [OF assms(2)] by (rule subset_trans)
    then show ?thesis ..
  qed
  show "\<exists>f \<in> set fecs. same_fec f f''" if "f'' \<in> set fecs''" for f''
    using advancesD(4) [OF assms(2) that]
  proof (elim bexE)
    fix f' assume "f' \<in> set fecs'" "same_fec f' f''"
    then show ?thesis using advancesD(4) [OF assms(1), of f'] same_fec_trans by blast
  qed
qed

lemma set_remove_at: "i < length xs \<Longrightarrow> set (remove_at i xs) \<subseteq> set xs" "i < length xs \<Longrightarrow> set xs = insert (xs ! i) (set (remove_at i xs))"
  "i < length xs \<Longrightarrow> distinct (map g xs) \<Longrightarrow> distinct (map g (remove_at i xs))"
  "j < i \<Longrightarrow> i < length xs \<Longrightarrow> remove_at i xs ! j = xs ! j"
proof -
  show "set xs = insert (xs ! i) (set (remove_at i xs))" if "i < length xs"
    using arg_cong [OF id_take_nth_drop [OF that], of set] by (simp add: remove_at_def)
  then show "set (remove_at i xs) \<subseteq> set xs" if "i < length xs" using that by blast
  show "distinct (map g (remove_at i xs))" if "i < length xs" "distinct (map g xs)"
  proof -
    have "distinct (map g (take i xs @ xs ! i # drop (Suc i) xs))" using that by (simp add: id_take_nth_drop [symmetric])
    then show ?thesis by (auto simp: remove_at_def)
  qed
  show "remove_at i xs ! j = xs ! j" if "j < i" "i < length xs" using that by (simp add: remove_at_def nth_append)
qed

lemma dec_inv_missing:
  assumes "dec_inv base ssrc ms recs fecs" "f \<in> set fecs"
  shows "set (fec_seqs f) \<subseteq> rec_seqs recs \<union> set (missing (protected_pkt_list f))"
  using assms by (auto simp: dec_inv_def missing_def)

lemma advances_remove:
  assumes "i < length fecs" "set (fec_seqs (fecs ! i)) \<subseteq> rec_seqs recs"
  shows "advances recs fecs recs (remove_at i fecs)"
proof (rule advancesI)
  show "(\<exists>f' \<in> set (remove_at i fecs). same_fec f f') \<or> set (fec_seqs f) \<subseteq> rec_seqs recs" if "f \<in> set fecs" for f
  proof (cases "f = fecs ! i")
    case False
    with that set_remove_at(2) [OF assms(1)] have "f \<in> set (remove_at i fecs)" by blast
    then show ?thesis using same_fec_refl by blast
  qed (use assms(2) in simp)
  show "\<exists>f \<in> set fecs. same_fec f f'" if "f' \<in> set (remove_at i fecs)" for f'
    using that set_remove_at(1) [OF assms(1)] same_fec_refl by blast
qed (use set_remove_at(3) [OF assms(1)] in simp_all)

lemma advances_fill:
  assumes "rec_seqs recs \<subseteq> rec_seqs recs'"
  shows "advances recs fecs recs' (map (fill_fec m) fecs)"
proof (rule advancesI)
  show "distinct (map fec_seq_num (map (fill_fec m) fecs))" if "distinct (map fec_seq_num fecs)" using that by (simp add: comp_def)
  show "(\<exists>f' \<in> set (map (fill_fec m) fecs). same_fec f f') \<or> set (fec_seqs f) \<subseteq> rec_seqs recs'" if "f \<in> set fecs" for f
    using that same_fec_fill [of f m] by (intro disjI1) (simp only: list.set_map, blast)
  show "\<exists>f \<in> set fecs. same_fec f f'" if "f' \<in> set (map (fill_fec m) fecs)" for f'
    using that same_fec_fill by (simp only: list.set_map, blast)
qed (rule assms)

lemma recover_step:
  assumes grp: "media_group base ssrc ms" and inv: "dec_inv base ssrc ms recs fecs" and i: "i < length fecs"
    and one: "length (missing (protected_pkt_list (fecs ! i))) = 1"
  obtains r where "RecoverPacket (fecs ! i) = Some r"
    "dec_inv base ssrc ms (DiscardOldPackets (sort_recovered (recs @ [r]))) (remove_at i (UpdateCoveringFECPackets r fecs))"
    "advances recs fecs (DiscardOldPackets (sort_recovered (recs @ [r]))) (remove_at i (UpdateCoveringFECPackets r fecs))"
proof -
  let ?f = "fecs ! i"
  have f: "?f \<in> set fecs" "fec_sound base ssrc ms ?f" using inv i by (auto simp: dec_inv_def)
  from RecoverPacket_carries [OF grp f(2) one] obtain r where r: "RecoverPacket ?f = Some r"
    "missing (protected_pkt_list ?f) = [rec_seq_num r]" "carries base ms (rec_seq_num r) (rec_pkt r)" by blast
  have "rec_seq_num r \<in> set (missing (protected_pkt_list ?f))" by (simp add: r(2))
  then obtain p where "p \<in> set (protected_pkt_list ?f)" "prot_pkt p = None" "prot_seq_num p = rec_seq_num r"
    by (auto simp: missing_def)
  then have new: "rec_seq_num r \<notin> rec_seqs recs" using inv f(1) unfolding dec_inv_def by metis
  note add = dec_inv_add [OF grp inv r(3) new]
  let ?recs = "sort_recovered (recs @ [r])" and ?fecs = "UpdateCoveringFECPackets r fecs"
  have d: "DiscardOldPackets ?recs = ?recs"
    using dec_inv_length(2) [OF grp add(1)] by (rule DiscardOldPackets_id)
  have li: "i < length ?fecs" using i by (simp add: UpdateCoveringFECPackets_def)
  have "dec_inv base ssrc ms ?recs (remove_at i ?fecs)"
    by (rule dec_inv_subset [OF add(1)]) (rule set_remove_at(1) [OF li])
  moreover have "advances recs fecs ?recs ?fecs" unfolding add(3) by (rule advances_fill) (auto simp: add(2))
  moreover have "fec_seqs (?fecs ! i) = fec_seqs ?f" using i by (simp add: add(3))
  then have "set (fec_seqs (?fecs ! i)) \<subseteq> rec_seqs ?recs"
    using dec_inv_missing [OF inv f(1)] by (auto simp: r(2) add(2))
  with li have "advances ?recs ?fecs ?recs (remove_at i ?fecs)" by (rule advances_remove)
  ultimately show thesis using r(1) by (intro that [of r]) (auto simp: d intro: advances_trans)
qed

lemma attempt_recover_inv:
  assumes grp: "media_group base ssrc ms"
  shows "dec_inv base ssrc ms recs fecs \<Longrightarrow> (\<forall>j<i. j < length fecs \<longrightarrow> 2 \<le> length (missing (protected_pkt_list (fecs ! j)))) \<Longrightarrow>
    \<exists>recs' fecs'. attempt_recover i fecs recs = Some (recs', fecs') \<and> dec_inv base ssrc ms recs' fecs' \<and>
      (\<forall>f \<in> set fecs'. 2 \<le> length (missing (protected_pkt_list f))) \<and> advances recs fecs recs' fecs'"
proof (induction i fecs recs rule: attempt_recover.induct)
  case (1 i fecs recs)
  show ?case
  proof (cases "i < length fecs")
    case False
    then have "\<forall>f \<in> set fecs. 2 \<le> length (missing (protected_pkt_list f))" using "1.prems"(2) by (auto simp: in_set_conv_nth)
    then show ?thesis using False "1.prems"(1) by (subst attempt_recover.simps) (simp add: advances_refl)
  next
    case True
    define n where "n = length (missing (protected_pkt_list (fecs ! i)))"
    have num: "NumCoveredPacketsMissing (fecs ! i) = min 2 n" by (simp add: NumCoveredPacketsMissing_eq n_def)
    consider "n = 0" | "n = 1" | "2 \<le> n" by linarith
    then show ?thesis
    proof cases
      case 1
      with num have c: "NumCoveredPacketsMissing (fecs ! i) = 0" by simp
      have "dec_inv base ssrc ms recs (remove_at i fecs)"
        using "1.prems"(1) set_remove_at(1) [OF True] by (rule dec_inv_subset)
      moreover have "\<forall>j<i. j < length (remove_at i fecs) \<longrightarrow> 2 \<le> length (missing (protected_pkt_list (remove_at i fecs ! j)))"
        using "1.prems"(2) True set_remove_at(4) [OF _ True] by auto
      ultimately obtain recs' fecs' where ih: "attempt_recover i (remove_at i fecs) recs = Some (recs', fecs')"
        "dec_inv base ssrc ms recs' fecs'" "\<forall>f \<in> set fecs'. 2 \<le> length (missing (protected_pkt_list f))"
        "advances recs (remove_at i fecs) recs' fecs'" using "1.IH"(2) [OF True refl] c by auto
      have "set (fec_seqs (fecs ! i)) \<subseteq> rec_seqs recs"
        using dec_inv_missing [OF "1.prems"(1), of "fecs ! i"] True 1 by (simp add: n_def)
      from advances_trans [OF advances_remove [OF True this] ih(4)] ih show ?thesis
        using True c by (subst attempt_recover.simps) simp
    next
      case 2
      with num have c: "NumCoveredPacketsMissing (fecs ! i) = 1" by simp
      from 2 obtain r where r: "RecoverPacket (fecs ! i) = Some r"
        "dec_inv base ssrc ms (DiscardOldPackets (sort_recovered (recs @ [r]))) (remove_at i (UpdateCoveringFECPackets r fecs))"
        "advances recs fecs (DiscardOldPackets (sort_recovered (recs @ [r]))) (remove_at i (UpdateCoveringFECPackets r fecs))"
        using recover_step [OF grp "1.prems"(1) True] unfolding n_def by blast
      from "1.IH"(1) [OF True refl c r(1) r(2)] obtain recs' fecs' where ih:
        "attempt_recover 0 (remove_at i (UpdateCoveringFECPackets r fecs)) (DiscardOldPackets (sort_recovered (recs @ [r]))) = Some (recs', fecs')"
        "dec_inv base ssrc ms recs' fecs'" "\<forall>f \<in> set fecs'. 2 \<le> length (missing (protected_pkt_list f))"
        "advances (DiscardOldPackets (sort_recovered (recs @ [r]))) (remove_at i (UpdateCoveringFECPackets r fecs)) recs' fecs'"
        by auto
      from advances_trans [OF r(3) ih(4)] ih show ?thesis
        using True c r(1) by (subst attempt_recover.simps) simp
    next
      case 3
      with num have c: "NumCoveredPacketsMissing (fecs ! i) = 2" by simp
      have "\<forall>j<i + 1. j < length fecs \<longrightarrow> 2 \<le> length (missing (protected_pkt_list (fecs ! j)))"
        using "1.prems"(2) 3 by (auto simp: n_def less_Suc_eq)
      with "1.IH"(3) [OF True refl] c "1.prems"(1) show ?thesis
        using True by (subst attempt_recover.simps) simp
    qed
  qed
qed

end
