(* ===== verification/Fec_Peeling.thy ===== *)
theory Fec_Peeling
  imports Fec_Decoding
begin

text \<open>
  Sequences of calls of \<^verbatim>\<open>DecodeFEC\<close>: whatever packets of a group arrive, in whatever order, every packet
  in the recovered list is the original, and when the calls are over everything is recovered
  that can be got by taking, again and again, a FEC packet with one packet missing.
\<close>

section \<open>Calls\<close>

primrec decode_calls :: "ReceivedPacket list list \<Rightarrow> RecoveredPacket list \<times> ForwardErrorCorrection \<Rightarrow>
    (RecoveredPacket list \<times> ForwardErrorCorrection) option" where
  "decode_calls [] st = Some st"
| "decode_calls (rxs # calls) st = (case DecodeFEC rxs st of None \<Rightarrow> None
     | Some (ret, st) \<Rightarrow> if ret = 0 then decode_calls calls st else None)"

lemma discard_old_fec_subset: "set (discard_old_fec n fecs) \<subseteq> set fecs"
  by (auto simp: discard_old_fec_def split: list.splits if_splits)

lemma insert_packet_inv:
  assumes grp: "media_group base ssrc ms" and inv: "dec_inv base ssrc ms recs (fec_packet_list s)"
    and rx: "group_rx base ssrc ms rx"
  shows "\<exists>recs' s'. insert_packet rx (recs, s) = Some (recs', s') \<and> dec_inv base ssrc ms recs' (fec_packet_list s')"
proof -
  let ?s = "s\<lparr>fec_packet_list := discard_old_fec (rx_seq_num rx) (fec_packet_list s)\<rparr>"
  have i: "dec_inv base ssrc ms recs (fec_packet_list ?s)"
    using dec_inv_subset [OF inv discard_old_fec_subset] by simp
  show ?thesis
  proof (cases "is_fec rx")
    case True
    with rx obtain ts where "rx_ssrc rx = ssrc" "protects base ms ts (pkt_data (rx_pkt rx))" by (auto simp: group_rx_def)
    with InsertFECPacket_inv [OF grp i] obtain s' where
      "InsertFECPacket rx recs ?s = Some s'" "dec_inv base ssrc ms recs (fec_packet_list s')" by metis
    with True show ?thesis by (simp add: insert_packet_def)
  next
    case False
    with rx have c: "carries base ms (rx_seq_num rx) (rx_pkt rx)" by (simp add: group_rx_def)
    obtain recs' s' where e: "InsertMediaPacket rx recs ?s = (recs', s')" by force
    from InsertMediaPacket_inv(1) [OF grp i c e] e False show ?thesis by (simp add: insert_packet_def)
  qed
qed

lemma insert_all_inv:
  assumes grp: "media_group base ssrc ms"
  shows "dec_inv base ssrc ms recs (fec_packet_list s) \<Longrightarrow> \<forall>rx \<in> set rxs. group_rx base ssrc ms rx \<Longrightarrow>
    \<exists>recs' s'. insert_all rxs (recs, s) = Some (recs', s') \<and> dec_inv base ssrc ms recs' (fec_packet_list s')"
proof (induction rxs arbitrary: recs s)
  case (Cons rx rxs)
  with insert_packet_inv [OF grp, of recs s rx] obtain recs1 s1 where
    "insert_packet rx (recs, s) = Some (recs1, s1)" "dec_inv base ssrc ms recs1 (fec_packet_list s1)" by auto
  with Cons show ?case by simp
qed simp

lemma insert_attempt_inv:
  assumes grp: "media_group base ssrc ms" and ins: "insert_all rxs (recs, s) = Some (recs1, s1)"
    and inv: "dec_inv base ssrc ms recs1 (fec_packet_list s1)"
  shows "\<exists>recs' s'. InsertPackets rxs (recs, s) \<bind> AttemptRecover = Some (recs', s') \<and>
    dec_inv base ssrc ms recs' (fec_packet_list s') \<and> advances recs1 (fec_packet_list s1) recs' (fec_packet_list s') \<and>
    (\<forall>f \<in> set (fec_packet_list s'). 2 \<le> length (missing (protected_pkt_list f)))"
proof -
  from attempt_recover_inv [OF grp inv, of 0] obtain recs' fecs' where
    "attempt_recover 0 (fec_packet_list s1) recs1 = Some (recs', fecs')" "dec_inv base ssrc ms recs' fecs'"
    "\<forall>f \<in> set fecs'. 2 \<le> length (missing (protected_pkt_list f))" "advances recs1 (fec_packet_list s1) recs' fecs'"
    by auto
  moreover have "InsertPackets rxs (recs, s) = Some (recs1, s1)"
    using ins DiscardOldPackets_id [OF dec_inv_length(2) [OF grp inv]] by (simp add: InsertPackets_def)
  ultimately show ?thesis by (simp add: AttemptRecover_def)
qed

lemma DecodeFEC_split:
  assumes "rxs \<noteq> []"
  obtains (keep) "DecodeFEC rxs (recs, s) = map_option (Pair 0) (InsertPackets rxs (recs, s) \<bind> AttemptRecover)"
  | (reset) "length recs = 48" "seq_num_diff (rx_seq_num (hd rxs)) (rec_seq_num (last recs)) > 48"
    "DecodeFEC rxs (recs, s) =
       map_option (Pair 0) (InsertPackets rxs ([], s\<lparr>fec_packet_received := False, fec_packet_list := []\<rparr>) \<bind> AttemptRecover)"
proof (cases "length recs = 48 \<and> seq_num_diff (rx_seq_num (hd rxs)) (rec_seq_num (last recs)) > 48")
  case True
  with assms show thesis
    by (intro reset) (simp_all add: DecodeFEC_def ResetState_def kMaxMediaPackets_def map_conv_bind_option comp_def)
next
  case False
  with assms show thesis
    by (intro keep) (auto simp: DecodeFEC_def kMaxMediaPackets_def map_conv_bind_option comp_def)
qed

lemma DecodeFEC_inv:
  assumes grp: "media_group base ssrc ms" and inv: "dec_inv base ssrc ms recs (fec_packet_list s)"
    and rxs: "rxs \<noteq> []" "\<forall>rx \<in> set rxs. group_rx base ssrc ms rx"
  shows "\<exists>recs' s'. DecodeFEC rxs (recs, s) = Some (0, recs', s') \<and> dec_inv base ssrc ms recs' (fec_packet_list s') \<and>
    (\<forall>f \<in> set (fec_packet_list s'). 2 \<le> length (missing (protected_pkt_list f)))"
proof -
  have go: "\<exists>recs' s'. map_option (Pair (0 :: int)) (InsertPackets rxs (recs, s) \<bind> AttemptRecover) = Some (0, recs', s') \<and>
      dec_inv base ssrc ms recs' (fec_packet_list s') \<and>
      (\<forall>f \<in> set (fec_packet_list s'). 2 \<le> length (missing (protected_pkt_list f)))"
    if i: "dec_inv base ssrc ms recs (fec_packet_list s)" for recs s
  proof -
    from insert_all_inv [OF grp i rxs(2)] obtain recs1 s1 where
      "insert_all rxs (recs, s) = Some (recs1, s1)" "dec_inv base ssrc ms recs1 (fec_packet_list s1)" by blast
    from insert_attempt_inv [OF grp this] show ?thesis by auto
  qed
  show ?thesis
  proof (rule DecodeFEC_split [OF rxs(1), of recs s], goal_cases)
    case 1
    then show ?case using go [OF inv] by simp
  next
    case 2
    then show ?case
      using go [of "[]" "s\<lparr>fec_packet_received := False, fec_packet_list := []\<rparr>"] by (simp add: dec_inv_empty)
  qed
qed

lemma decode_calls_inv:
  assumes grp: "media_group base ssrc ms"
  shows "dec_inv base ssrc ms recs (fec_packet_list s) \<Longrightarrow>
    \<forall>f \<in> set (fec_packet_list s). 2 \<le> length (missing (protected_pkt_list f)) \<Longrightarrow>
    \<forall>rxs \<in> set calls. rxs \<noteq> [] \<and> (\<forall>rx \<in> set rxs. group_rx base ssrc ms rx) \<Longrightarrow>
    \<exists>recs' s'. decode_calls calls (recs, s) = Some (recs', s') \<and> dec_inv base ssrc ms recs' (fec_packet_list s') \<and>
      (\<forall>f \<in> set (fec_packet_list s'). 2 \<le> length (missing (protected_pkt_list f)))"
proof (induction calls arbitrary: recs s)
  case (Cons rxs calls)
  from Cons.prems DecodeFEC_inv [OF grp Cons.prems(1), of rxs] obtain recs1 s1 where
    "DecodeFEC rxs (recs, s) = Some (0, recs1, s1)" "dec_inv base ssrc ms recs1 (fec_packet_list s1)"
    "\<forall>f \<in> set (fec_packet_list s1). 2 \<le> length (missing (protected_pkt_list f))" by auto
  with Cons show ?case by simp
qed simp

section \<open>Peeling\<close>

text \<open>The abstract decoder: \<open>rows\<close> are the positions the FEC packets protect, \<open>miss\<close> the positions that
  are missing.\<close>

definition peel_row :: "nat list \<Rightarrow> nat list \<Rightarrow> nat list" where
  "peel_row miss row = (case filter (\<lambda>t. t \<in> set miss) row of [t] \<Rightarrow> removeAll t miss | _ \<Rightarrow> miss)"

primrec peel :: "nat \<Rightarrow> nat list list \<Rightarrow> nat list \<Rightarrow> nat list" where
  "peel 0 rows miss = miss"
| "peel (Suc n) rows miss = peel n rows (foldl peel_row miss rows)"

definition recoverable :: "nat list list \<Rightarrow> nat list \<Rightarrow> bool" where
  "recoverable rows miss \<longleftrightarrow> peel (length miss) rows miss = []"

text \<open>A set of positions in which no row has exactly one survives peeling.\<close>

lemma peel_row_stuck:
  assumes "X \<subseteq> set miss" "length (filter (\<lambda>t. t \<in> X) row) \<noteq> 1"
  shows "X \<subseteq> set (peel_row miss row)"
proof (cases "\<exists>t. filter (\<lambda>t. t \<in> set miss) row = [t]")
  case True
  then obtain t where t: "filter (\<lambda>t. t \<in> set miss) row = [t]" by blast
  have "filter (\<lambda>t. t \<in> X) row = filter (\<lambda>t. t \<in> X) (filter (\<lambda>t. t \<in> set miss) row)"
    using assms(1) by (auto intro!: filter_cong)
  then have "t \<notin> X" using assms(2) by (auto simp: t split: if_splits)
  then show ?thesis using assms(1) by (auto simp: peel_row_def t)
next
  case False
  then have "peel_row miss row = miss" by (auto simp: peel_row_def split: list.splits)
  with assms(1) show ?thesis by simp
qed

lemma peel_stuck:
  assumes "\<forall>row \<in> set rows. length (filter (\<lambda>t. t \<in> X) row) \<noteq> 1" "X \<subseteq> set miss"
  shows "X \<subseteq> set (peel n rows miss)"
proof -
  have pass: "X \<subseteq> set (foldl peel_row miss rows)"
    if "\<forall>row \<in> set rows. length (filter (\<lambda>t. t \<in> X) row) \<noteq> 1" "X \<subseteq> set miss" for rows miss
    using that by (induction rows arbitrary: miss) (simp_all add: peel_row_stuck)
  show ?thesis using assms(2) by (induction n arbitrary: miss) (simp_all add: pass [OF assms(1)])
qed

lemma recoverable_complete:
  assumes "recoverable rows miss" "\<forall>row \<in> set rows. length (filter (\<lambda>t. t \<in> X) row) \<noteq> 1" "X \<subseteq> set miss"
  shows "X = {}"
  using peel_stuck [OF assms(2,3), of "length miss"] assms(1) by (simp add: recoverable_def)

section \<open>Nothing useful is thrown away\<close>

text \<open>A group whose FEC packets are numbered after the media packets, all without wrap-around.\<close>

definition fec_numbering :: "16 word \<Rightarrow> nat \<Rightarrow> nat \<Rightarrow> bool" where
  "fec_numbering base k m \<longleftrightarrow> m \<le> k \<and> k \<le> 48 \<and> unat base + k + m \<le> 65536"

lemma unat_number:
  assumes "fec_numbering base k m" "j < k + m"
  shows "unat (base + of_nat j) = unat base + j"
proof -
  have "unat (of_nat j :: 16 word) = j" using assms by (simp add: fec_numbering_def unat_of_nat)
  then show ?thesis using assms by (simp add: fec_numbering_def unat_word_ariths)
qed

lemma number_diff:
  assumes "fec_numbering base k m" "i < k + m" "j < k + m"
  shows "seq_num_diff (base + of_nat i) (base + of_nat j) = nat \<bar>int i - int j\<bar>"
  using assms by (simp add: seq_num_diff_def unat_number)

lemma number_pos: "fec_numbering base k m \<Longrightarrow> j < k + m \<Longrightarrow> pos base (base + of_nat j) = j"
  by (simp add: pos_def fec_numbering_def unat_of_nat)

section \<open>What the decoder remembers\<close>

text \<open>\<open>RM\<close> and \<open>RF\<close> are the sequence numbers of the media and FEC packets received so far, \<open>rs\<close> gives the
  numbers that a FEC packet covers.\<close>

definition remembers :: "16 word set \<Rightarrow> (16 word \<Rightarrow> 16 word list) \<Rightarrow> 16 word set \<Rightarrow> 16 word set \<Rightarrow>
    RecoveredPacket list \<Rightarrow> FecPacket list \<Rightarrow> bool" where
  "remembers S rs RM RF recs fecs \<longleftrightarrow> RM \<subseteq> rec_seqs recs \<and>
     (\<forall>n \<in> RF. n \<in> fec_seq_num ` set fecs \<or> set (rs n) \<subseteq> rec_seqs recs) \<and>
     (\<forall>f \<in> set fecs. fec_seq_num f \<in> S \<and> fec_seqs f = rs (fec_seq_num f)) \<and> distinct (map fec_seq_num fecs)"

lemma remembersD:
  assumes "remembers S rs RM RF recs fecs"
  shows "RM \<subseteq> rec_seqs recs" "n \<in> RF \<Longrightarrow> n \<in> fec_seq_num ` set fecs \<or> set (rs n) \<subseteq> rec_seqs recs"
    "f \<in> set fecs \<Longrightarrow> fec_seq_num f \<in> S" "f \<in> set fecs \<Longrightarrow> fec_seqs f = rs (fec_seq_num f)"
    "distinct (map fec_seq_num fecs)"
  using assms by (simp_all add: remembers_def)

lemma remembersI:
  assumes "RM \<subseteq> rec_seqs recs" "\<And>n. n \<in> RF \<Longrightarrow> n \<in> fec_seq_num ` set fecs \<or> set (rs n) \<subseteq> rec_seqs recs"
    "\<And>f. f \<in> set fecs \<Longrightarrow> fec_seq_num f \<in> S \<and> fec_seqs f = rs (fec_seq_num f)" "distinct (map fec_seq_num fecs)"
  shows "remembers S rs RM RF recs fecs"
  using assms by (simp add: remembers_def)

lemma remembers_advances:
  assumes "remembers S rs RM RF recs fecs" "advances recs fecs recs' fecs'"
  shows "remembers S rs RM RF recs' fecs'"
proof (rule remembersI)
  show "RM \<subseteq> rec_seqs recs'" using remembersD(1) [OF assms(1)] advancesD(1) [OF assms(2)] by (rule subset_trans)
  show "distinct (map fec_seq_num fecs')" using remembersD(5) [OF assms(1)] by (rule advancesD(2) [OF assms(2)])
  show "fec_seq_num f' \<in> S \<and> fec_seqs f' = rs (fec_seq_num f')" if f': "f' \<in> set fecs'" for f'
  proof -
    obtain f where "f \<in> set fecs" "same_fec f f'" using advancesD(4) [OF assms(2) f'] by (elim bexE)
    moreover from this have "fec_seqs f' = fec_seqs f" "fec_seq_num f' = fec_seq_num f" by (simp_all add: same_fec_def)
    ultimately show ?thesis using remembersD(3,4) [OF assms(1), of f] by (simp only: simp_thms)
  qed
  show "n \<in> fec_seq_num ` set fecs' \<or> set (rs n) \<subseteq> rec_seqs recs'" if n: "n \<in> RF" for n
    using remembersD(2) [OF assms(1) n]
  proof (elim disjE)
    assume "n \<in> fec_seq_num ` set fecs"
    then obtain f where f: "f \<in> set fecs" "fec_seq_num f = n" by (elim imageE) simp
    with remembersD(4) [OF assms(1) f(1)] have e: "fec_seqs f = rs n" by simp
    from advancesD(3) [OF assms(2) f(1)] show ?thesis
    proof (elim disjE bexE)
      fix f' assume "f' \<in> set fecs'" "same_fec f f'"
      then show ?thesis using f(2) by (intro disjI1 image_eqI [of _ _ f']) (simp_all add: same_fec_def)
    qed (simp only: e simp_thms)
  next
    assume "set (rs n) \<subseteq> rec_seqs recs"
    then show ?thesis using advancesD(1) [OF assms(2)] by (intro disjI2) (rule subset_trans)
  qed
qed

text \<open>Packets of a group with \<open>m\<close> FEC packets, the FEC packet \<open>i\<close> protecting the positions \<open>rows i\<close>.\<close>

definition numbered_rx :: "16 word \<Rightarrow> 32 word \<Rightarrow> Packet list \<Rightarrow> nat \<Rightarrow> (nat \<Rightarrow> nat list) \<Rightarrow> ReceivedPacket \<Rightarrow> bool" where
  "numbered_rx base ssrc ms m rows rx \<longleftrightarrow>
     (if is_fec rx then rx_ssrc rx = ssrc \<and> (\<exists>i<m. rx_seq_num rx = base + of_nat (length ms + i) \<and>
        protects base ms (rows i) (pkt_data (rx_pkt rx)))
      else carries base ms (rx_seq_num rx) (rx_pkt rx))"

definition fec_numbers :: "16 word \<Rightarrow> nat \<Rightarrow> nat \<Rightarrow> 16 word set" where
  "fec_numbers base k m = (\<lambda>i. base + of_nat (k + i)) ` {..<m}"

definition row_numbers :: "16 word \<Rightarrow> nat \<Rightarrow> (nat \<Rightarrow> nat list) \<Rightarrow> 16 word \<Rightarrow> 16 word list" where
  "row_numbers base k rows n = map (\<lambda>t. base + of_nat t) (rows (pos base n - k))"

definition media_seqs :: "ReceivedPacket list \<Rightarrow> 16 word set" where
  "media_seqs rxs = rx_seq_num ` {rx \<in> set rxs. \<not> is_fec rx}"

definition fec_seqs_rx :: "ReceivedPacket list \<Rightarrow> 16 word set" where
  "fec_seqs_rx rxs = rx_seq_num ` {rx \<in> set rxs. is_fec rx}"

lemma numbered_rx_position:
  assumes "numbered_rx base ssrc ms m rows rx"
  shows "\<exists>j<length ms + m. rx_seq_num rx = base + of_nat j"
proof (cases "is_fec rx")
  case True
  with assms obtain i where "i < m" "rx_seq_num rx = base + of_nat (length ms + i)" by (auto simp: numbered_rx_def)
  then show ?thesis by (intro exI [of _ "length ms + i"]) simp
next
  case False
  with assms obtain t where "t < length ms" "rx_seq_num rx = base + of_nat t" by (auto simp: numbered_rx_def carries_def)
  then show ?thesis by (intro exI [of _ t]) simp
qed

lemma received_Cons [simp]:
  "media_seqs [] = {}" "media_seqs (rx # rxs) = (if is_fec rx then media_seqs rxs else insert (rx_seq_num rx) (media_seqs rxs))"
  "fec_seqs_rx [] = {}" "fec_seqs_rx (rx # rxs) = (if is_fec rx then insert (rx_seq_num rx) (fec_seqs_rx rxs) else fec_seqs_rx rxs)"
  by (auto simp: media_seqs_def fec_seqs_rx_def)

lemma received_append [simp]:
  "media_seqs (xs @ ys) = media_seqs xs \<union> media_seqs ys" "fec_seqs_rx (xs @ ys) = fec_seqs_rx xs \<union> fec_seqs_rx ys"
  by (auto simp: media_seqs_def fec_seqs_rx_def)

lemma discard_old_fec_id:
  assumes "fec_numbering base k m" "\<exists>j<k + m. n = base + of_nat j" "\<forall>f \<in> set fecs. fec_seq_num f \<in> fec_numbers base k m"
  shows "discard_old_fec n fecs = fecs"
proof (cases fecs)
  case (Cons f fs)
  with assms(3) have "fec_seq_num f \<in> fec_numbers base k m" by simp
  then obtain i where i: "i < m" "fec_seq_num f = base + of_nat (k + i)"
    unfolding fec_numbers_def by (elim imageE) simp
  from assms(2) obtain j where j: "j < k + m" "n = base + of_nat j" by blast
  have "seq_num_diff n (fec_seq_num f) = nat \<bar>int j - int (k + i)\<bar>"
    unfolding i(2) j(2) using i(1) j(1) by (intro number_diff [OF assms(1)]) simp_all
  also have "\<dots> \<le> 0x3FFF" using i(1) j(1) assms(1) unfolding fec_numbering_def by linarith
  finally show ?thesis by (simp add: discard_old_fec_def Cons)
qed (simp add: discard_old_fec_def)

lemma remembers_room:
  assumes "remembers (fec_numbers base k m) rs RM RF recs fecs" "n \<in> fec_numbers base k m" "n \<notin> fec_seq_num ` set fecs" "m \<le> 48"
  shows "length fecs < 48"
proof -
  have "length fecs = card (set (map fec_seq_num fecs))" using remembersD(5) [OF assms(1)] by (metis distinct_card length_map)
  also have "\<dots> < card (fec_numbers base k m)"
  proof (rule psubset_card_mono)
    have "set (map fec_seq_num fecs) \<subseteq> fec_numbers base k m" using remembersD(3) [OF assms(1)] by auto
    then show "set (map fec_seq_num fecs) \<subset> fec_numbers base k m" using assms(2,3) by auto
  qed (simp add: fec_numbers_def)
  also have "\<dots> \<le> m" unfolding fec_numbers_def using card_image_le [of "{..<m}"] by simp
  finally show ?thesis using assms(4) by simp
qed

lemma insert_packet_remembers:
  assumes grp: "media_group base ssrc ms" and num: "fec_numbering base (length ms) m"
    and inv: "dec_inv base ssrc ms recs (fec_packet_list s)"
    and rem: "remembers (fec_numbers base (length ms) m) (row_numbers base (length ms) rows) RM RF recs (fec_packet_list s)"
    and rx: "numbered_rx base ssrc ms m rows rx"
  shows "\<exists>recs' s'. insert_packet rx (recs, s) = Some (recs', s') \<and> dec_inv base ssrc ms recs' (fec_packet_list s') \<and>
    remembers (fec_numbers base (length ms) m) (row_numbers base (length ms) rows)
      (RM \<union> media_seqs [rx]) (RF \<union> fec_seqs_rx [rx]) recs' (fec_packet_list s')"
proof -
  let ?k = "length ms" and ?n = "rx_seq_num rx"
  let ?S = "fec_numbers base ?k m" and ?rs = "row_numbers base ?k rows"
  have "discard_old_fec ?n (fec_packet_list s) = fec_packet_list s"
    using num numbered_rx_position [OF rx] remembersD(3) [OF rem] by (intro discard_old_fec_id) blast+
  then have ins: "insert_packet rx (recs, s) =
      (if is_fec rx then map_option (Pair recs) (InsertFECPacket rx recs s) else Some (InsertMediaPacket rx recs s))"
    by (simp add: insert_packet_def)
  show ?thesis
  proof (cases "is_fec rx")
    case False
    with rx have c: "carries base ms ?n (rx_pkt rx)" by (simp add: numbered_rx_def)
    obtain recs' s' where e: "InsertMediaPacket rx recs s = (recs', s')" by force
    note m = InsertMediaPacket_inv [OF grp inv c e]
    have "remembers ?S ?rs (RM \<union> {?n}) RF recs' (fec_packet_list s')"
    proof (rule remembersI)
      show "RM \<union> {?n} \<subseteq> rec_seqs recs'" using remembersD(1) [OF rem] by (auto simp: m(2))
      show "distinct (map fec_seq_num (fec_packet_list s'))" using remembersD(5) [OF rem] by (simp add: m(3))
      have "fec_seq_num ` set (fec_packet_list s') = fec_seq_num ` set (fec_packet_list s)"
        using arg_cong [OF m(3), of set] by simp
      then show "n \<in> fec_seq_num ` set (fec_packet_list s') \<or> set (?rs n) \<subseteq> rec_seqs recs'" if "n \<in> RF" for n
        using remembersD(2) [OF rem that] by (auto simp: m(2))
      have len: "length (fec_packet_list s') = length (fec_packet_list s)" using arg_cong [OF m(3), of length] by simp
      show "fec_seq_num f' \<in> ?S \<and> fec_seqs f' = ?rs (fec_seq_num f')" if "f' \<in> set (fec_packet_list s')" for f'
      proof -
        from that obtain i where i: "i < length (fec_packet_list s')" "f' = fec_packet_list s' ! i" by (auto simp: in_set_conv_nth)
        then have "fec_seq_num f' = fec_seq_num (fec_packet_list s ! i)" "fec_seqs f' = fec_seqs (fec_packet_list s ! i)"
          using arg_cong [OF m(3), of "\<lambda>l. l ! i"] arg_cong [OF m(4), of "\<lambda>l. l ! i"] len by simp_all
        then show ?thesis using remembersD(3,4) [OF rem, of "fec_packet_list s ! i"] i(1) len by simp
      qed
    qed
    then show ?thesis using ins False e m(1) by simp
  next
    case True
    with rx obtain i where i: "i < m" "?n = base + of_nat (?k + i)" "protects base ms (rows i) (pkt_data (rx_pkt rx))"
      "rx_ssrc rx = ssrc" by (auto simp: numbered_rx_def)
    have nS: "?n \<in> ?S" using i(1,2) by (auto simp: fec_numbers_def)
    have "pos base ?n = ?k + i" unfolding i(2) using i(1) by (intro number_pos [OF num]) simp
    then have rs: "?rs ?n = map (\<lambda>t. base + of_nat t) (rows i)" by (simp add: row_numbers_def)
    obtain s' where s': "InsertFECPacket rx recs s = Some s'" "dec_inv base ssrc ms recs (fec_packet_list s')"
      "?n \<in> fec_seq_num ` set (fec_packet_list s) \<Longrightarrow> fec_packet_list s' = fec_packet_list s"
      "?n \<notin> fec_seq_num ` set (fec_packet_list s) \<Longrightarrow> length (fec_packet_list s) < 48 \<Longrightarrow>
        distinct (map fec_seq_num (fec_packet_list s)) \<Longrightarrow> distinct (map fec_seq_num (fec_packet_list s')) \<and>
        (\<exists>f. set (fec_packet_list s') = insert f (set (fec_packet_list s)) \<and> fec_seq_num f = ?n \<and>
          fec_seqs f = map (\<lambda>t. base + of_nat t) (rows i))"
    proof (rule InsertFECPacket_inv [OF grp inv i(4,3)], goal_cases)
      case (1 s')
      from 1(2-5) show thesis by (rule 1(1))
    qed
    have "remembers ?S ?rs RM (RF \<union> {?n}) recs (fec_packet_list s')"
    proof (cases "?n \<in> fec_seq_num ` set (fec_packet_list s)")
      case True
      then show ?thesis using rem s'(3) by (auto simp: remembers_def)
    next
      case False
      have "length (fec_packet_list s) < 48"
        using num by (intro remembers_room [OF rem nS False]) (simp add: fec_numbering_def)
      from s'(4) [OF False this remembersD(5) [OF rem]] obtain f where f:
        "distinct (map fec_seq_num (fec_packet_list s'))" "set (fec_packet_list s') = insert f (set (fec_packet_list s))"
        "fec_seq_num f = ?n" "fec_seqs f = map (\<lambda>t. base + of_nat t) (rows i)" by (elim conjE exE) (rule that)
      show ?thesis
      proof (rule remembersI)
        show "RM \<subseteq> rec_seqs recs" by (rule remembersD(1) [OF rem])
        show "n \<in> fec_seq_num ` set (fec_packet_list s') \<or> set (?rs n) \<subseteq> rec_seqs recs" if "n \<in> RF \<union> {?n}" for n
          using that remembersD(2) [OF rem, of n] f(3) unfolding f(2) by auto
        show "fec_seq_num f' \<in> ?S \<and> fec_seqs f' = ?rs (fec_seq_num f')" if "f' \<in> set (fec_packet_list s')" for f'
          using that remembersD(3,4) [OF rem, of f'] f(3,4) nS rs unfolding f(2) by auto
      qed (rule f(1))
    qed
    then show ?thesis using ins True s'(1,2) by simp
  qed
qed

lemma insert_all_remembers:
  assumes grp: "media_group base ssrc ms" and num: "fec_numbering base (length ms) m"
  shows "dec_inv base ssrc ms recs (fec_packet_list s) \<Longrightarrow>
    remembers (fec_numbers base (length ms) m) (row_numbers base (length ms) rows) RM RF recs (fec_packet_list s) \<Longrightarrow>
    \<forall>rx \<in> set rxs. numbered_rx base ssrc ms m rows rx \<Longrightarrow>
    \<exists>recs' s'. insert_all rxs (recs, s) = Some (recs', s') \<and> dec_inv base ssrc ms recs' (fec_packet_list s') \<and>
      remembers (fec_numbers base (length ms) m) (row_numbers base (length ms) rows)
        (RM \<union> media_seqs rxs) (RF \<union> fec_seqs_rx rxs) recs' (fec_packet_list s')"
proof (induction rxs arbitrary: recs s RM RF)
  case (Cons rx rxs)
  have rx: "numbered_rx base ssrc ms m rows rx" using Cons.prems(3) by simp
  from insert_packet_remembers [OF grp num Cons.prems(1,2) rx] obtain recs1 s1 where
    1: "insert_packet rx (recs, s) = Some (recs1, s1)" "dec_inv base ssrc ms recs1 (fec_packet_list s1)"
    "remembers (fec_numbers base (length ms) m) (row_numbers base (length ms) rows)
      (RM \<union> media_seqs [rx]) (RF \<union> fec_seqs_rx [rx]) recs1 (fec_packet_list s1)" by blast
  have u: "RM \<union> media_seqs [rx] \<union> media_seqs rxs = RM \<union> media_seqs (rx # rxs)"
    "RF \<union> fec_seqs_rx [rx] \<union> fec_seqs_rx rxs = RF \<union> fec_seqs_rx (rx # rxs)" by auto
  have "\<forall>rx \<in> set rxs. numbered_rx base ssrc ms m rows rx" using Cons.prems(3) by simp
  from Cons.IH [OF 1(2,3) this] show ?case unfolding u by (simp add: 1(1))
qed simp

lemma sorted_positions_full:
  fixes f :: "'a \<Rightarrow> nat"
  assumes "sorted_wrt (\<lambda>a b. f a < f b) xs" "\<forall>x \<in> set xs. f x < n" "{..<n} \<subseteq> f ` set xs \<or> length xs = n"
  shows "map f xs = [0..<n]"
proof -
  have s: "sorted_wrt (<) (map f xs)" using assms(1) by (simp add: sorted_wrt_map)
  then have d: "sorted (map f xs)" "distinct (map f xs)" using strict_sorted_iff by blast+
  have sub: "set (map f xs) \<subseteq> {..<n}" using assms(2) by auto
  have "card (set (map f xs)) = length xs" using distinct_card [OF d(2)] by simp
  with assms(3) sub have "set (map f xs) = {..<n}"
    using card_subset_eq [OF _ sub] by (elim disjE) auto
  then have "set (map f xs) = set [0..<n]" by (simp add: atLeast0LessThan)
  with d show ?thesis by (intro sorted_distinct_set_unique) simp_all
qed

lemma DecodeFEC_remembers:
  assumes grp: "media_group base ssrc ms" and num: "fec_numbering base (length ms) m"
    and inv: "dec_inv base ssrc ms recs (fec_packet_list s)"
    and rem: "remembers (fec_numbers base (length ms) m) (row_numbers base (length ms) rows) RM RF recs (fec_packet_list s)"
    and rxs: "rxs \<noteq> []" "\<forall>rx \<in> set rxs. numbered_rx base ssrc ms m rows rx"
  shows "\<exists>recs' s'. DecodeFEC rxs (recs, s) = Some (0, recs', s') \<and> dec_inv base ssrc ms recs' (fec_packet_list s') \<and>
    (\<forall>f \<in> set (fec_packet_list s'). 2 \<le> length (missing (protected_pkt_list f))) \<and>
    remembers (fec_numbers base (length ms) m) (row_numbers base (length ms) rows)
      (RM \<union> media_seqs rxs) (RF \<union> fec_seqs_rx rxs) recs' (fec_packet_list s')"
proof -
  from insert_all_remembers [OF grp num inv rem rxs(2)] obtain recs1 s1 where
    1: "insert_all rxs (recs, s) = Some (recs1, s1)" "dec_inv base ssrc ms recs1 (fec_packet_list s1)"
    "remembers (fec_numbers base (length ms) m) (row_numbers base (length ms) rows)
      (RM \<union> media_seqs rxs) (RF \<union> fec_seqs_rx rxs) recs1 (fec_packet_list s1)" by blast
  from insert_attempt_inv [OF grp 1(1,2)] obtain recs' s' where
    2: "InsertPackets rxs (recs, s) \<bind> AttemptRecover = Some (recs', s')" "dec_inv base ssrc ms recs' (fec_packet_list s')"
    "advances recs1 (fec_packet_list s1) recs' (fec_packet_list s')"
    "\<forall>f \<in> set (fec_packet_list s'). 2 \<le> length (missing (protected_pkt_list f))" by blast
  have "DecodeFEC rxs (recs, s) = map_option (Pair 0) (InsertPackets rxs (recs, s) \<bind> AttemptRecover)"
  proof (rule DecodeFEC_split [OF rxs(1), of recs s])
    assume full: "length recs = 48" and gap: "seq_num_diff (rx_seq_num (hd rxs)) (rec_seq_num (last recs)) > 48"
    have k: "length ms = 48" "m \<le> 48"
      using dec_inv_length(1) [OF grp inv] full num by (simp_all add: fec_numbering_def)
    have "map (\<lambda>r. pos base (rec_seq_num r)) recs = [0..<48]"
      using inv dec_inv_rec(1) [OF grp inv] full by (intro sorted_positions_full) (simp_all add: dec_inv_def)
    then have "last (map (\<lambda>r. pos base (rec_seq_num r)) recs) = last [0..<48]" by simp
    then have "pos base (rec_seq_num (last recs)) = 47" using full by (subst (asm) last_map) auto
    then have l: "rec_seq_num (last recs) = base + of_nat 47" using position_pos [of base "rec_seq_num (last recs)"] by simp
    have "numbered_rx base ssrc ms m rows (hd rxs)" using rxs by simp
    then obtain j where j: "j < length ms + m" "rx_seq_num (hd rxs) = base + of_nat j" using numbered_rx_position by blast
    have "seq_num_diff (rx_seq_num (hd rxs)) (rec_seq_num (last recs)) = nat \<bar>int j - int 47\<bar>"
      unfolding l j(2) using j(1) k by (intro number_diff [OF num]) simp_all
    with gap j(1) k show ?thesis by linarith
  qed
  with 2 remembers_advances [OF 1(3) 2(3)] show ?thesis by simp
qed

lemma decode_calls_remembers:
  assumes grp: "media_group base ssrc ms" and num: "fec_numbering base (length ms) m"
  shows "dec_inv base ssrc ms recs (fec_packet_list s) \<Longrightarrow>
    \<forall>f \<in> set (fec_packet_list s). 2 \<le> length (missing (protected_pkt_list f)) \<Longrightarrow>
    remembers (fec_numbers base (length ms) m) (row_numbers base (length ms) rows) RM RF recs (fec_packet_list s) \<Longrightarrow>
    \<forall>rxs \<in> set calls. rxs \<noteq> [] \<and> (\<forall>rx \<in> set rxs. numbered_rx base ssrc ms m rows rx) \<Longrightarrow>
    \<exists>recs' s'. decode_calls calls (recs, s) = Some (recs', s') \<and> dec_inv base ssrc ms recs' (fec_packet_list s') \<and>
      (\<forall>f \<in> set (fec_packet_list s'). 2 \<le> length (missing (protected_pkt_list f))) \<and>
      remembers (fec_numbers base (length ms) m) (row_numbers base (length ms) rows)
        (RM \<union> media_seqs (concat calls)) (RF \<union> fec_seqs_rx (concat calls)) recs' (fec_packet_list s')"
proof (induction calls arbitrary: recs s RM RF)
  case (Cons rxs calls)
  have rxs: "rxs \<noteq> []" "\<forall>rx \<in> set rxs. numbered_rx base ssrc ms m rows rx" using Cons.prems(4) by simp_all
  from DecodeFEC_remembers [OF grp num Cons.prems(1,3) rxs] obtain recs1 s1 where
    1: "DecodeFEC rxs (recs, s) = Some (0, recs1, s1)" "dec_inv base ssrc ms recs1 (fec_packet_list s1)"
    "\<forall>f \<in> set (fec_packet_list s1). 2 \<le> length (missing (protected_pkt_list f))"
    "remembers (fec_numbers base (length ms) m) (row_numbers base (length ms) rows)
      (RM \<union> media_seqs rxs) (RF \<union> fec_seqs_rx rxs) recs1 (fec_packet_list s1)" by blast
  have "\<forall>rxs \<in> set calls. rxs \<noteq> [] \<and> (\<forall>rx \<in> set rxs. numbered_rx base ssrc ms m rows rx)" using Cons.prems(4) by simp
  from Cons.IH [OF 1(2-4) this] show ?case by (simp add: 1(1) Un_assoc)
qed simp

section \<open>The outcome\<close>

text \<open>The positions of a group that are not in the recovered list.\<close>

definition unrecovered :: "16 word \<Rightarrow> nat \<Rightarrow> RecoveredPacket list \<Rightarrow> nat set" where
  "unrecovered base k recs = {t. t < k \<and> base + of_nat t \<notin> rec_seqs recs}"

lemma row_not_stuck:
  assumes inv: "dec_inv base ssrc ms recs fecs" and two: "\<forall>f \<in> set fecs. 2 \<le> length (missing (protected_pkt_list f))"
    and rem: "remembers S (row_numbers base k rows) RM RF recs fecs"
    and n: "n \<in> RF" "pos base n = k + i" and row: "\<forall>t \<in> set (rows i). t < k"
  shows "length (filter (\<lambda>t. t \<in> unrecovered base k recs) (rows i)) \<noteq> 1"
proof -
  have x: "filter (\<lambda>t. t \<in> unrecovered base k recs) (rows i) = filter (\<lambda>t. base + of_nat t \<notin> rec_seqs recs) (rows i)"
    using row by (intro filter_cong) (auto simp: unrecovered_def)
  have rs: "row_numbers base k rows n = map (\<lambda>t. base + of_nat t) (rows i)" by (simp add: row_numbers_def n(2))
  from remembersD(2) [OF rem n(1)] show ?thesis
  proof
    assume "n \<in> fec_seq_num ` set fecs"
    then obtain f where f: "f \<in> set fecs" "fec_seq_num f = n" by (elim imageE) simp
    have "missing (protected_pkt_list f) = filter (\<lambda>s. s \<notin> rec_seqs recs) (fec_seqs f)"
    proof -
      have "filter (\<lambda>p. prot_pkt p = None) (protected_pkt_list f) = filter (\<lambda>p. prot_seq_num p \<notin> rec_seqs recs) (protected_pkt_list f)"
        using inv f(1) by (intro filter_cong) (simp_all add: dec_inv_def)
      then show ?thesis by (simp add: missing_def filter_map comp_def)
    qed
    also have "fec_seqs f = map (\<lambda>t. base + of_nat t) (rows i)" using remembersD(4) [OF rem f(1)] f(2) rs by simp
    finally have "length (missing (protected_pkt_list f)) = length (filter (\<lambda>t. base + of_nat t \<notin> rec_seqs recs) (rows i))"
      by (simp add: filter_map comp_def)
    then show ?thesis using two f(1) unfolding x by (metis numeral_le_one_iff semiring_norm(69))
  next
    assume "set (row_numbers base k rows n) \<subseteq> rec_seqs recs"
    then have "filter (\<lambda>t. base + of_nat t \<notin> rec_seqs recs) (rows i) = []" by (auto simp: rs filter_empty_conv)
    then show ?thesis by (simp add: x)
  qed
qed

lemma remembers_recovered:
  assumes inv: "dec_inv base ssrc ms recs fecs" "\<forall>f \<in> set fecs. 2 \<le> length (missing (protected_pkt_list f))"
    "remembers S (row_numbers base k rows) RM RF recs fecs"
    and num: "fec_numbering base k m" and rows: "\<forall>i<m. \<forall>t \<in> set (rows i). t < k"
    and got: "\<forall>i \<in> set is. i < m \<and> base + of_nat (k + i) \<in> RF"
    and miss: "{t. t < k \<and> base + of_nat t \<notin> RM} \<subseteq> set miss" and peel: "recoverable (map rows is) miss"
  shows "unrecovered base k recs = {}"
proof (rule recoverable_complete [OF peel])
  have "unrecovered base k recs \<subseteq> {t. t < k \<and> base + of_nat t \<notin> RM}"
    using remembersD(1) [OF inv(3)] by (auto simp: unrecovered_def)
  then show "unrecovered base k recs \<subseteq> set miss" using miss by (rule subset_trans)
  have "length (filter (\<lambda>t. t \<in> unrecovered base k recs) (rows i)) \<noteq> 1" if "i \<in> set is" for i
  proof (rule row_not_stuck [OF inv])
    have i: "i < m" "base + of_nat (k + i) \<in> RF" using got that by blast+
    show "base + of_nat (k + i) \<in> RF" "\<forall>t \<in> set (rows i). t < k" using i rows by blast+
    show "pos base (base + of_nat (k + i)) = k + i" using i(1) by (intro number_pos [OF num]) simp
  qed
  then show "\<forall>row \<in> set (map rows is). length (filter (\<lambda>t. t \<in> unrecovered base k recs) row) \<noteq> 1" by simp
qed

lemma recovered_all:
  assumes grp: "media_group base ssrc ms" and inv: "dec_inv base ssrc ms recs fecs"
    and all: "unrecovered base (length ms) recs = {}"
  shows "map rec_seq_num recs = map (\<lambda>t. base + of_nat t) [0..<length ms]"
proof -
  have "{..<length ms} \<subseteq> (\<lambda>r. pos base (rec_seq_num r)) ` set recs"
  proof
    fix t assume t: "t \<in> {..<length ms}"
    with all obtain r where "r \<in> set recs" "rec_seq_num r = base + of_nat t" by (auto simp: unrecovered_def)
    moreover have "pos base (base + of_nat t) = t" using t grp by (intro pos_position) (simp add: media_group_def)
    ultimately show "t \<in> (\<lambda>r. pos base (rec_seq_num r)) ` set recs" by (intro image_eqI [of _ _ r]) simp_all
  qed
  with inv dec_inv_rec(2) [OF grp inv] have "map (\<lambda>r. pos base (rec_seq_num r)) recs = [0..<length ms]"
    by (intro sorted_positions_full) (simp_all add: dec_inv_def)
  then have "map (\<lambda>t. base + of_nat t) [0..<length ms] = map (\<lambda>t. base + of_nat t) (map (\<lambda>r. pos base (rec_seq_num r)) recs)"
    by simp
  also have "\<dots> = map rec_seq_num recs" by (simp add: position_pos)
  finally show ?thesis ..
qed

lemma decode_calls_outcome:
  assumes grp: "media_group base ssrc ms" and num: "fec_numbering base (length ms) m"
    and rows: "\<forall>i<m. \<forall>t \<in> set (rows i). t < length ms"
    and calls: "\<forall>rxs \<in> set calls. rxs \<noteq> [] \<and> (\<forall>rx \<in> set rxs. numbered_rx base ssrc ms m rows rx)"
  obtains recs s where "decode_calls calls ([], new_ForwardErrorCorrection) = Some (recs, s)"
    "dec_inv base ssrc ms recs (fec_packet_list s)"
    "unrecovered base (length ms) recs \<subseteq> {t. t < length ms \<and> base + of_nat t \<notin> media_seqs (concat calls)}"
    "\<And>i. i < m \<Longrightarrow> base + of_nat (length ms + i) \<in> fec_seqs_rx (concat calls) \<Longrightarrow>
      length (filter (\<lambda>t. t \<in> unrecovered base (length ms) recs) (rows i)) \<noteq> 1"
proof -
  have "fec_packet_list new_ForwardErrorCorrection = []" by (simp add: new_ForwardErrorCorrection_def)
  then have "dec_inv base ssrc ms [] (fec_packet_list new_ForwardErrorCorrection)"
    "\<forall>f \<in> set (fec_packet_list new_ForwardErrorCorrection). 2 \<le> length (missing (protected_pkt_list f))"
    "remembers (fec_numbers base (length ms) m) (row_numbers base (length ms) rows) {} {} [] (fec_packet_list new_ForwardErrorCorrection)"
    by (simp_all add: dec_inv_empty remembers_def)
  from decode_calls_remembers [OF grp num this calls] obtain recs s where
    d: "decode_calls calls ([], new_ForwardErrorCorrection) = Some (recs, s)" "dec_inv base ssrc ms recs (fec_packet_list s)"
    "\<forall>f \<in> set (fec_packet_list s). 2 \<le> length (missing (protected_pkt_list f))"
    "remembers (fec_numbers base (length ms) m) (row_numbers base (length ms) rows)
      ({} \<union> media_seqs (concat calls)) ({} \<union> fec_seqs_rx (concat calls)) recs (fec_packet_list s)"
    by (elim exE conjE) (rule that)
  have "length (filter (\<lambda>t. t \<in> unrecovered base (length ms) recs) (rows i)) \<noteq> 1"
    if "i < m" "base + of_nat (length ms + i) \<in> fec_seqs_rx (concat calls)" for i
    using that rows number_pos [OF num, of "length ms + i"] by (intro row_not_stuck [OF d(2-4)]) simp_all
  moreover have "unrecovered base (length ms) recs \<subseteq> {t. t < length ms \<and> base + of_nat t \<notin> media_seqs (concat calls)}"
    using remembersD(1) [OF d(4)] by (auto simp: unrecovered_def)
  ultimately show thesis using d(1,2) by (intro that) simp_all
qed

section \<open>Properties\<close>

text \<open>What a receiver may get of a group whose FEC packets are \<open>fecs\<close>, whatever the numbers of the FEC packets.\<close>

definition sent_rx :: "16 word \<Rightarrow> 32 word \<Rightarrow> Packet list \<Rightarrow> Packet list \<Rightarrow> ReceivedPacket \<Rightarrow> bool" where
  "sent_rx base ssrc ms fecs rx \<longleftrightarrow>
     (if is_fec rx then rx_ssrc rx = ssrc \<and> rx_pkt rx \<in> set fecs else carries base ms (rx_seq_num rx) (rx_pkt rx))"

text \<open>The same when the FEC packets are numbered in order after the media packets.\<close>

definition sent_in_order :: "16 word \<Rightarrow> 32 word \<Rightarrow> Packet list \<Rightarrow> Packet list \<Rightarrow> ReceivedPacket \<Rightarrow> bool" where
  "sent_in_order base ssrc ms fecs rx \<longleftrightarrow>
     (if is_fec rx then rx_ssrc rx = ssrc \<and>
        (\<exists>i<length fecs. rx_seq_num rx = base + of_nat (length ms + i) \<and> rx_pkt rx = fecs ! i)
      else carries base ms (rx_seq_num rx) (rx_pkt rx))"

lemma dec_inv_LessThan:
  assumes "media_group base ssrc ms" "dec_inv base ssrc ms recs fecs"
  shows "sorted_wrt (\<lambda>a b. LessThan (rec_seq_num a) (rec_seq_num b)) recs"
proof (rule sorted_wrt_mono_rel)
  show "sorted_wrt (\<lambda>a b. pos base (rec_seq_num a) < pos base (rec_seq_num b)) recs" using assms(2) by (simp add: dec_inv_def)
  show "LessThan (rec_seq_num a) (rec_seq_num b)"
    if "a \<in> set recs" "b \<in> set recs" "pos base (rec_seq_num a) < pos base (rec_seq_num b)" for a b
    using that dec_inv_rec(1) [OF assms] LessThan_pos [of base "rec_seq_num a" "rec_seq_num b"] by simp
qed

lemma generated_length [simp]: "length (generated_fec_packets new_ForwardErrorCorrection) = 48"
  by (simp add: new_ForwardErrorCorrection_def kMaxMediaPackets_def)

text \<open>Two packets with sequence numbers 7 and 8 and two bytes of payload each, for the witnesses.\<close>

definition example_packet :: "byte \<Rightarrow> byte \<Rightarrow> Packet" where
  "example_packet n x = \<lparr>pkt_length = 14, pkt_data = [0x80, 96, 0, n, 0, 0, 0, 1, 0, 0, 0, 5, x, x] @ replicate 1486 0\<rparr>"

abbreviation example_media :: "Packet list" where
  "example_media \<equiv> [example_packet 7 1, example_packet 8 2]"

abbreviation example_rx :: "16 word \<Rightarrow> bool \<Rightarrow> Packet \<Rightarrow> ReceivedPacket" where
  "example_rx n fec p \<equiv> \<lparr>rx_seq_num = n, rx_ssrc = 5, is_fec = fec, rx_pkt = p\<rparr>"

lemma example_group: "media_group 7 5 example_media"
proof -
  have "WriteBigEndian4 False (5 :: 32 word) = [0, 0, 0, 5]" by code_simp
  then show ?thesis
    by (simp add: media_group_def numbered_Cons media_fits_def example_packet_def ParseSequenceNumber_def fec_sizes
        numbered_def [of _ "[]"] two_bytes_def)
qed

lemma example_sizes: "length example_media = 2" "(128 :: byte) \<noteq> 0" "(255 :: byte) \<noteq> 0" "0 \<le> length example_media"
  "GetNumberOfFecPackets (length example_media) (unat (128 :: byte)) = 1"
  "GetNumberOfFecPackets (length example_media) (unat (255 :: byte)) = 2"
  "unat (7 :: 16 word) + length example_media + 1 \<le> 65536" "unat (7 :: 16 word) + length example_media + 2 \<le> 65536"
  by simp_all (simp_all add: GetNumberOfFecPackets_def)

lemma example_table: "table_ok (length example_media) (PacketMaskTable [] kFecMaskBursty (length example_media))"
  by (simp only: example_sizes(1)) code_simp

lemma example_carries: "carries 7 example_media 8 (example_packet 8 2)"
  unfolding carries_def by (intro exI [of _ 1]) (simp add: example_packet_def)

text \<open>C2. Whatever is received of a group of media packets and of the FEC packets \<^verbatim>\<open>GenerateFEC\<close> made for it, in
  whatever order, split into whatever calls of \<^verbatim>\<open>DecodeFEC\<close>, with losses and duplicates: generation and every
  call return 0, no access is outside a buffer or list, the recovered list is in the order of
  the sequence numbers, every packet in it, received or recovered, has the length and the bytes of the
  packet that was sent, and every FEC packet that is kept still misses two packets.\<close>

theorem fec_recovers_originals:
  assumes "media_group base ssrc ms" "pf \<noteq> 0" "imp \<le> length ms"
    and "table_ok (length ms) (PacketMaskTable random_tbl mask_type (length ms))"
  shows "\<exists>fecs g. GenerateFEC random_tbl ms pf imp uep mask_type (generated_fec_packets new_ForwardErrorCorrection) =
      Some (0, fecs, g) \<and> length fecs = GetNumberOfFecPackets (length ms) (unat pf) \<and>
    (\<forall>calls. (\<forall>rxs \<in> set calls. rxs \<noteq> [] \<and> (\<forall>rx \<in> set rxs. sent_rx base ssrc ms fecs rx)) \<longrightarrow>
      (\<exists>recs s. decode_calls calls ([], new_ForwardErrorCorrection) = Some (recs, s) \<and>
         sorted_wrt (\<lambda>a b. LessThan (rec_seq_num a) (rec_seq_num b)) recs \<and>
         (\<forall>r \<in> set recs. carries base ms (rec_seq_num r) (rec_pkt r)) \<and>
         (\<forall>f \<in> set (fec_packet_list s). NumCoveredPacketsMissing f = 2)))"
proof -
  from GenerateFEC_protects [OF assms(1,2) refl assms(4,3) generated_length, of uep] obtain fecs g where g:
    "GenerateFEC random_tbl ms pf imp uep mask_type (generated_fec_packets new_ForwardErrorCorrection) = Some (0, fecs, g)"
    "length fecs = GetNumberOfFecPackets (length ms) (unat pf)" "\<forall>i<length fecs. \<exists>ts. protects base ms ts (pkt_data (fecs ! i))"
    by auto blast
  have rx: "group_rx base ssrc ms rx" if "sent_rx base ssrc ms fecs rx" for rx
    using that g(3) unfolding sent_rx_def group_rx_def by (metis in_set_conv_nth)
  have e: "fec_packet_list new_ForwardErrorCorrection = []" by (simp add: new_ForwardErrorCorrection_def)
  have "\<exists>recs s. decode_calls calls ([], new_ForwardErrorCorrection) = Some (recs, s) \<and>
      sorted_wrt (\<lambda>a b. LessThan (rec_seq_num a) (rec_seq_num b)) recs \<and>
      (\<forall>r \<in> set recs. carries base ms (rec_seq_num r) (rec_pkt r)) \<and>
      (\<forall>f \<in> set (fec_packet_list s). NumCoveredPacketsMissing f = 2)"
    if "\<forall>rxs \<in> set calls. rxs \<noteq> [] \<and> (\<forall>rx \<in> set rxs. sent_rx base ssrc ms fecs rx)" for calls
  proof -
    from that rx have "\<forall>rxs \<in> set calls. rxs \<noteq> [] \<and> (\<forall>rx \<in> set rxs. group_rx base ssrc ms rx)" by simp
    from decode_calls_inv [OF assms(1) _ _ this, of "[]" new_ForwardErrorCorrection] obtain recs s where
      "decode_calls calls ([], new_ForwardErrorCorrection) = Some (recs, s)" "dec_inv base ssrc ms recs (fec_packet_list s)"
      "\<forall>f \<in> set (fec_packet_list s). 2 \<le> length (missing (protected_pkt_list f))" by (auto simp: e dec_inv_empty)
    then show ?thesis using dec_inv_LessThan [OF assms(1), of recs]
      by (auto simp: NumCoveredPacketsMissing_eq dec_inv_def)
  qed
  with g(1,2) show ?thesis by blast
qed

theorem fec_recovers_originals_witness:
  "\<exists>fecs g recs s. GenerateFEC [] example_media 128 0 False kFecMaskBursty
      (generated_fec_packets new_ForwardErrorCorrection) = Some (0, fecs, g) \<and> length fecs = 1 \<and>
    decode_calls [[example_rx 9 True (fecs ! 0)], [example_rx 8 False (example_packet 8 2)]]
      ([], new_ForwardErrorCorrection) = Some (recs, s) \<and>
    list_all (\<lambda>r. carries 7 example_media (rec_seq_num r) (rec_pkt r)) recs"
proof -
  from fec_recovers_originals [OF example_group example_sizes(2,4) example_table, of False] obtain fecs g where
    g: "GenerateFEC [] example_media 128 0 False kFecMaskBursty
      (generated_fec_packets new_ForwardErrorCorrection) = Some (0, fecs, g)" "length fecs = 1" and
    r: "\<forall>calls. (\<forall>rxs \<in> set calls. rxs \<noteq> [] \<and> (\<forall>rx \<in> set rxs. sent_rx 7 5 example_media fecs rx)) \<longrightarrow>
      (\<exists>recs s. decode_calls calls ([], new_ForwardErrorCorrection) = Some (recs, s) \<and>
         sorted_wrt (\<lambda>a b. LessThan (rec_seq_num a) (rec_seq_num b)) recs \<and>
         (\<forall>r \<in> set recs. carries 7 example_media (rec_seq_num r) (rec_pkt r)) \<and>
         (\<forall>f \<in> set (fec_packet_list s). NumCoveredPacketsMissing f = 2))"
    unfolding example_sizes(5) by (elim exE conjE) (rule that)
  have "\<forall>rxs \<in> set [[example_rx 9 True (fecs ! 0)], [example_rx 8 False (example_packet 8 2)]].
      rxs \<noteq> [] \<and> (\<forall>rx \<in> set rxs. sent_rx 7 5 example_media fecs rx)"
    using g(2) example_carries by (simp add: sent_rx_def)
  with r obtain recs s where "decode_calls [[example_rx 9 True (fecs ! 0)], [example_rx 8 False (example_packet 8 2)]]
      ([], new_ForwardErrorCorrection) = Some (recs, s)"
    "\<forall>r \<in> set recs. carries 7 example_media (rec_seq_num r) (rec_pkt r)" by (elim allE impE exE conjE) assumption+
  with g show ?thesis
    by - (rule exI [of _ fecs], rule exI [of _ g], rule exI [of _ recs], rule exI [of _ s],
      simp only: list_all_iff simp_thms)
qed

lemma sent_numbered:
  assumes "\<forall>i<m. protects base ms (rows i) (pkt_data (fecs ! i))" "length fecs = m" "sent_in_order base ssrc ms fecs rx"
  shows "numbered_rx base ssrc ms m rows rx"
  using assms by (auto simp: sent_in_order_def numbered_rx_def split: if_splits)

text \<open>The outcome for a group whose FEC packets are numbered in order: it is enough that the FEC packets \<open>is\<close>
  arrived and that they can recover \<open>miss\<close>.\<close>

lemma sent_in_order_recovered:
  assumes grp: "media_group base ssrc ms" and pf: "pf \<noteq> 0" and imp: "imp \<le> length ms"
    and tbl: "table_ok (length ms) (PacketMaskTable random_tbl mask_type (length ms))"
    and m: "m = GetNumberOfFecPackets (length ms) (unat pf)" and base: "unat base + length ms + m \<le> 65536"
  obtains fecs g where
    "GenerateFEC random_tbl ms pf imp uep mask_type (generated_fec_packets new_ForwardErrorCorrection) = Some (0, fecs, g)"
    "length fecs = m" "1 \<le> m" "m \<le> length ms"
    "\<And>calls is miss. \<forall>rxs \<in> set calls. rxs \<noteq> [] \<and> (\<forall>rx \<in> set rxs. sent_in_order base ssrc ms fecs rx) \<Longrightarrow>
      \<forall>i \<in> set is. i < m \<and> base + of_nat (length ms + i) \<in> fec_seqs_rx (concat calls) \<Longrightarrow>
      {t. t < length ms \<and> base + of_nat t \<notin> media_seqs (concat calls)} \<subseteq> set miss \<Longrightarrow>
      recoverable (map (row_positions (mask_bytes (length ms > 16)) (length ms)
        (group_mask random_tbl (length ms) m imp uep mask_type)) is) miss \<Longrightarrow>
      \<exists>recs s. decode_calls calls ([], new_ForwardErrorCorrection) = Some (recs, s) \<and>
         map rec_seq_num recs = map (\<lambda>t. base + of_nat t) [0..<length ms] \<and>
         (\<forall>r \<in> set recs. carries base ms (rec_seq_num r) (rec_pkt r))"
proof -
  let ?rows = "row_positions (mask_bytes (length ms > 16)) (length ms) (group_mask random_tbl (length ms) m imp uep mask_type)"
  have mk: "1 \<le> m" "m \<le> length ms"
    using grp pf GetNumberOfFecPackets_le [of "length ms" "unat pf"] unsigned_less [of pf]
    by (simp_all add: m media_group_def Suc_le_eq unat_gt_0)
  then have num: "fec_numbering base (length ms) m" using grp base by (simp add: fec_numbering_def media_group_def)
  from GenerateFEC_protects [OF grp pf m tbl imp generated_length, of uep] obtain fecs g where g:
    "GenerateFEC random_tbl ms pf imp uep mask_type (generated_fec_packets new_ForwardErrorCorrection) = Some (0, fecs, g)"
    "length fecs = m" "\<forall>i<m. protects base ms (?rows i) (pkt_data (fecs ! i))" by auto
  have rx: "numbered_rx base ssrc ms m ?rows rx" if "sent_in_order base ssrc ms fecs rx" for rx
    using sent_numbered [OF g(3,2) that] .
  have rows: "\<forall>i<m. \<forall>t \<in> set (?rows i). t < length ms" by (simp add: row_positions_def)
  show thesis
  proof (rule that [OF g(1,2) mk])
    fix calls "is" miss
    assume calls: "\<forall>rxs \<in> set calls. rxs \<noteq> [] \<and> (\<forall>rx \<in> set rxs. sent_in_order base ssrc ms fecs rx)"
      and got: "\<forall>i \<in> set is. i < m \<and> base + of_nat (length ms + i) \<in> fec_seqs_rx (concat calls)"
      and miss: "{t. t < length ms \<and> base + of_nat t \<notin> media_seqs (concat calls)} \<subseteq> set miss"
      and peel: "recoverable (map ?rows is) miss"
    from calls rx have n: "\<forall>rxs \<in> set calls. rxs \<noteq> [] \<and> (\<forall>rx \<in> set rxs. numbered_rx base ssrc ms m ?rows rx)" by simp
    obtain recs s where
      d: "decode_calls calls ([], new_ForwardErrorCorrection) = Some (recs, s)" "dec_inv base ssrc ms recs (fec_packet_list s)"
      "unrecovered base (length ms) recs \<subseteq> {t. t < length ms \<and> base + of_nat t \<notin> media_seqs (concat calls)}"
      "\<And>i. i < m \<Longrightarrow> base + of_nat (length ms + i) \<in> fec_seqs_rx (concat calls) \<Longrightarrow>
        length (filter (\<lambda>t. t \<in> unrecovered base (length ms) recs) (?rows i)) \<noteq> 1"
      by (rule decode_calls_outcome [OF grp num rows n]) blast
    have "unrecovered base (length ms) recs = {}"
      using peel d(4) got subset_trans [OF d(3) miss] by (intro recoverable_complete) auto
    from recovered_all [OF grp d(2) this] d(1,2) show "\<exists>recs s.
        decode_calls calls ([], new_ForwardErrorCorrection) = Some (recs, s) \<and>
        map rec_seq_num recs = map (\<lambda>t. base + of_nat t) [0..<length ms] \<and>
        (\<forall>r \<in> set recs. carries base ms (rec_seq_num r) (rec_pkt r))" by (simp add: dec_inv_def)
  qed
qed



end
