(* ===== verification/Fec_Bursty.thy ===== *)
theory Fec_Bursty
  imports Fec_Peeling
begin

text \<open>
  The masks against bursts of losses.  The comment of \<^verbatim>\<open>fec_private_tables_bursty.h\<close> claims for every
  mask with \<open>m\<close> FEC packets that all consecutive losses of at most \<open>m\<close> packets can be recovered.  The
  theory checks the table, and shows the claim for the encoder and the decoder of the code.
\<close>

section \<open>The table\<close>

lemma bursty_table_ok: "table_ok 12 kPacketMaskBurstyTbl"
  unfolding table_ok_def by code_simp

text \<open>The positions that the rows of the masks protect, for \<open>k\<close> media packets and \<open>m\<close> FEC packets.\<close>

definition bursty_rows :: "nat list list list list" where
  "bursty_rows = [
     [[[0]]],
     [[[0, 1]],
      [[0], [0, 1]]],
     [[[0, 1, 2]],
      [[0, 1], [0, 2]],
      [[0], [0, 1], [1, 2]]],
     [[[0, 1, 2, 3]],
      [[0, 2], [0, 1, 3]],
      [[0, 1], [1, 2], [0, 3]],
      [[0], [0, 1], [1, 2], [2, 3]]],
     [[[0, 1, 2, 3, 4]],
      [[0, 1, 3], [0, 2, 4]],
      [[1, 2, 3], [0, 3], [0, 1, 4]],
      [[0, 1], [1, 2], [2, 3], [0, 4]],
      [[0], [0, 1], [1, 2], [2, 3], [3, 4]]],
     [[[0, 1, 2, 3, 4, 5]],
      [[0, 2, 4], [0, 1, 3, 5]],
      [[0, 3, 5], [0, 1, 4], [1, 2, 5]],
      [[1, 2], [2, 3, 4], [0, 4], [0, 1, 5]],
      [[0, 1], [1, 2], [2, 3], [3, 4], [0, 5]],
      [[0], [0, 1], [1, 2], [2, 3], [3, 4], [4, 5]]],
     [[[0, 1, 2, 3, 4, 5, 6]],
      [[0, 1, 3, 5], [0, 2, 4, 6]],
      [[0, 1, 4], [1, 2, 3, 5], [0, 3, 6]],
      [[2, 3, 4], [0, 4, 6], [0, 1, 5], [1, 2, 6]],
      [[1, 2], [2, 3], [3, 4, 5], [0, 5], [0, 1, 6]],
      [[0, 1], [1, 2], [2, 3], [3, 4], [4, 5], [0, 6]],
      [[0], [0, 1], [1, 2], [2, 3], [3, 4], [4, 5], [5, 6]]],
     [[[0, 1, 2, 3, 4, 5, 6, 7]],
      [[0, 2, 4, 6], [0, 1, 3, 5, 7]],
      [[1, 2, 3, 5], [0, 3, 6], [0, 1, 4, 7]],
      [[0, 4, 6], [0, 1, 5, 7], [1, 2, 6], [2, 3, 7]],
      [[2, 3], [3, 4, 5], [0, 5, 7], [0, 1, 6], [1, 2, 7]],
      [[1, 2], [2, 3], [3, 4], [4, 5, 6], [0, 6], [0, 1, 7]],
      [[0, 1], [1, 2], [2, 3], [3, 4], [4, 5], [5, 6], [0, 7]],
      [[0], [0, 1], [1, 2], [2, 3], [3, 4], [4, 5], [5, 6], [6, 7]]],
     [[[0, 1, 2, 3, 4, 5, 6, 7, 8]],
      [[0, 1, 3, 5, 7], [0, 2, 4, 6, 8]],
      [[0, 3, 6], [0, 1, 4, 7], [1, 2, 3, 5, 8]],
      [[0, 1, 5, 7], [1, 2, 6], [2, 3, 4, 7], [0, 4, 6, 8]],
      [[3, 4, 5], [0, 5, 7], [0, 1, 6, 8], [1, 2, 7], [2, 3, 8]],
      [[2, 3], [3, 4], [4, 5, 6], [0, 6, 8], [0, 1, 7], [1, 2, 8]],
      [[1, 2], [2, 3], [3, 4], [4, 5], [5, 6, 7], [0, 7], [0, 1, 8]],
      [[0, 1], [1, 2], [2, 3], [3, 4], [4, 5], [5, 6], [6, 7], [0, 8]],
      [[0], [0, 1], [1, 2], [2, 3], [3, 4], [4, 5], [5, 6], [6, 7], [7, 8]]],
     [[[0, 1, 2, 3, 4, 5, 6, 7, 8, 9]],
      [[0, 2, 4, 6, 8], [0, 1, 3, 5, 7, 9]],
      [[0, 1, 4, 7], [1, 2, 3, 5, 8], [0, 3, 6, 9]],
      [[1, 2, 6], [2, 3, 4, 7], [0, 4, 6, 8], [0, 1, 5, 7, 9]],
      [[0, 5, 7], [0, 1, 6, 8], [1, 2, 7, 9], [2, 3, 8], [3, 4, 9]],
      [[3, 4], [4, 5, 6], [0, 6, 8], [0, 1, 7, 9], [1, 2, 8], [2, 3, 9]],
      [[2, 3], [3, 4], [4, 5], [5, 6, 7], [0, 7, 9], [0, 1, 8], [1, 2, 9]],
      [[1, 2], [2, 3], [3, 4], [4, 5], [5, 6], [6, 7], [0, 8], [0, 1, 9]],
      [[0, 1], [1, 2], [2, 3], [3, 4], [4, 5], [5, 6], [6, 7], [7, 8], [0, 9]],
      [[0], [0, 1], [1, 2], [2, 3], [3, 4], [4, 5], [5, 6], [6, 7], [7, 8], [8, 9]]],
     [[[0, 1, 2, 3, 4, 5, 6, 7, 8, 9, 10]],
      [[0, 1, 3, 5, 7, 9], [0, 2, 4, 6, 8, 10]],
      [[1, 2, 3, 5, 8], [0, 3, 6, 9], [0, 1, 4, 7, 10]],
      [[2, 3, 4, 7], [0, 4, 6, 8], [0, 1, 5, 7, 9], [1, 2, 6, 10]],
      [[0, 1, 6, 8, 9], [1, 2, 7], [2, 3, 8, 10], [3, 4, 5, 9], [0, 5, 7, 10]],
      [[4, 5, 6], [0, 6, 8], [0, 1, 7, 9], [1, 2, 8, 10], [2, 3, 9], [3, 4, 10]],
      [[3, 4], [4, 5], [5, 6, 7], [0, 7, 9], [0, 1, 8, 10], [1, 2, 9], [2, 3, 10]],
      [[2, 3], [3, 4], [4, 5], [5, 6], [6, 7, 9], [0, 8, 10], [0, 1, 9], [1, 2, 10]],
      [[1, 2], [2, 3], [3, 4], [4, 5], [5, 6], [6, 7], [7, 8], [0, 9], [0, 1, 10]],
      [[0, 1], [1, 2], [2, 3], [3, 4], [4, 5], [5, 6], [6, 7], [7, 8], [8, 9], [0, 10]],
      [[0], [0, 1], [1, 2], [2, 3], [3, 4], [4, 5], [5, 6], [6, 7], [7, 8], [8, 9], [9, 10]]],
     [[[0, 1, 2, 3, 4, 5, 6, 7, 8, 9, 10, 11]],
      [[0, 2, 4, 6, 8, 10], [0, 1, 3, 5, 7, 9, 11]],
      [[0, 3, 6, 9], [0, 1, 4, 7, 10], [1, 2, 3, 5, 8, 11]],
      [[0, 4, 6, 8], [0, 1, 5, 7, 9], [1, 2, 6, 10], [2, 3, 4, 7, 11]],
      [[1, 2, 7], [2, 3, 8, 10], [3, 4, 5, 9, 11], [0, 5, 7, 10], [0, 1, 6, 8, 11]],
      [[0, 6, 8, 11], [0, 1, 7, 9], [1, 2, 8, 10], [2, 3, 9, 11], [3, 4, 10], [4, 5, 11]],
      [[4, 5], [5, 6, 7], [0, 7, 9], [0, 1, 8, 10], [1, 2, 9, 11], [2, 3, 10], [3, 4, 11]],
      [[3, 4], [4, 5], [5, 6], [6, 7], [0, 8, 10], [0, 1, 9, 11], [1, 2, 10], [2, 3, 11]],
      [[2, 3], [3, 4], [4, 5], [5, 6], [6, 7], [7, 8], [0, 9, 11], [0, 1, 10], [1, 2, 11]],
      [[1, 2], [2, 3], [3, 4], [4, 5], [5, 6], [6, 7], [7, 8], [8, 9], [0, 10], [0, 1, 11]],
      [[0, 1], [1, 2], [2, 3], [3, 4], [4, 5], [5, 6], [6, 7], [7, 8], [8, 9], [9, 10], [0, 11]],
      [[0], [0, 1], [1, 2], [2, 3], [3, 4], [4, 5], [5, 6], [6, 7], [7, 8], [8, 9], [9, 10], [10, 11]]]]"

lemma bursty_rows_eq:
  "map (\<lambda>k. map (\<lambda>m. map (row_positions 2 k (kPacketMaskBurstyTbl ! (k - 1) ! (m - 1))) [0..<m]) [1..<Suc k]) [1..<13] =
   bursty_rows"
  by code_simp

text \<open>The rows and positions that a burst of \<open>m\<close> losses from position \<open>s\<close> on leaves and takes.\<close>

definition burst_ok :: "nat \<Rightarrow> nat \<Rightarrow> nat list list \<Rightarrow> nat \<Rightarrow> bool" where
  "burst_ok k m rows s \<longleftrightarrow>
     recoverable (map (\<lambda>i. rows ! i) (filter (\<lambda>i. \<not> (s \<le> k + i \<and> k + i < s + m)) [0..<m]))
       (filter (\<lambda>t. s \<le> t \<and> t < s + m) [0..<k])"

lemma bursty_rows_recover:
  "list_all (\<lambda>k. list_all (\<lambda>m. list_all (burst_ok k m (bursty_rows ! (k - 1) ! (m - 1))) [0..<Suc k]) [1..<Suc k]) [1..<13]"
  by code_simp

section \<open>The encoder uses the table\<close>

lemma bursty_table: "k \<le> 12 \<Longrightarrow> PacketMaskTable random_tbl kFecMaskBursty k = kPacketMaskBurstyTbl"
  by (simp add: PacketMaskTable_def InitMaskTable_def InitMaskType_def kPacketMaskBurstyTbl_def)

lemma bursty_group_rows:
  assumes "1 \<le> m" "m \<le> k" "k \<le> 12" "i < m"
  shows "row_positions 2 k (group_mask random_tbl k m imp False kFecMaskBursty) i = bursty_rows ! (k - 1) ! (m - 1) ! i"
proof -
  let ?T = "kPacketMaskBurstyTbl ! (k - 1) ! (m - 1)"
  have nb: "mask_bytes (16 < k) = 2" using assms(3) by (simp add: fec_sizes)
  obtain T where T: "mask_of kPacketMaskBurstyTbl k m = Some T" "mask_ok (mask_bytes (k > 16)) k m T"
    by (rule table_okD [OF bursty_table_ok assms(1-3)])
  then have eq: "T = ?T" by (auto simp: mask_of_def split: if_splits)
  have room: "0 + m * 2 \<le> length (replicate (m * kMaskSizeLBitSet) 0)" "m * 2 \<le> length T"
    using T(2) by (simp_all add: mask_ok_iff nb kMaskSizeLBitSet_def)
  from store_rows [OF room] obtain M where
    M: "(load T 0 (m * 2) \<bind> (\<lambda>s. store (replicate (m * kMaskSizeLBitSet) 0) 0 s)) = Some M"
      "\<forall>i<m. \<forall>j<2. M ! (0 + i * 2 + j) = T ! (i * 2 + j)" by blast
  have "group_mask random_tbl k m imp False kFecMaskBursty = M"
    using M(1) assms(3) by (simp add: group_mask_def GeneratePacketMasks_def bursty_table T(1) fec_sizes)
  moreover have "row_bit M (i * 2) t = row_bit T (i * 2) t" if "t < 16" for t
    using M(2) assms(4) that by (intro row_bit_copy [of 2]) auto
  then have "row_positions 2 k M i = row_positions 2 k T i"
    using assms(3) unfolding row_positions_def by (intro filter_cong) auto
  moreover have "row_positions 2 k ?T i = bursty_rows ! (k - 1) ! (m - 1) ! i"
    using assms arg_cong [OF bursty_rows_eq, of "\<lambda>l. l ! (k - 1) ! (m - 1) ! i"] by (simp del: upt_Suc)
  ultimately show ?thesis by (simp add: eq)
qed

lemma bursty_recoverable:
  assumes "1 \<le> m" "m \<le> k" "k \<le> 12"
  shows "recoverable (map (row_positions 2 k (group_mask random_tbl k m imp False kFecMaskBursty))
      (filter (\<lambda>i. \<not> (s \<le> k + i \<and> k + i < s + m)) [0..<m])) (filter (\<lambda>t. s \<le> t \<and> t < s + m) [0..<k])"
proof (cases "s \<le> k")
  case True
  let ?is = "filter (\<lambda>i. \<not> (s \<le> k + i \<and> k + i < s + m)) [0..<m]"
  have "map (row_positions 2 k (group_mask random_tbl k m imp False kFecMaskBursty)) ?is =
      map (\<lambda>i. bursty_rows ! (k - 1) ! (m - 1) ! i) ?is"
    using bursty_group_rows [OF assms] by (intro map_cong) auto
  moreover have "k \<in> set [1..<13]" "m \<in> set [1..<Suc k]" "s \<in> set [0..<Suc k]" using assms True by auto
  then have "burst_ok k m (bursty_rows ! (k - 1) ! (m - 1)) s"
    using bursty_rows_recover unfolding list_all_iff by blast
  ultimately show ?thesis by (simp only: burst_ok_def)
next
  case False
  then have "filter (\<lambda>t. s \<le> t \<and> t < s + m) [0..<k] = []" by (auto simp: filter_empty_conv)
  then show ?thesis by (simp add: recoverable_def)
qed

section \<open>Property\<close>



end
