(* ===== verification/Fec_Transport.thy ===== *)
theory Fec_Transport
  imports Fec_Red Fec_Bursty
begin

text \<open>
  A frame on its way: the packets of a video frame are sent with RED and FEC, some of what is sent
  arrives, and the receiver hands packets to its callback.  The theory composes the sender, the
  producer, the encoder, the receiver and the decoder.
\<close>

section \<open>Sending a frame\<close>

text \<open>Packets with the lengths of their RTP headers.  The header of a packet has been built before it is sent, and has
  used up a sequence number.  The frame is sent when every call returns 0.\<close>

primrec send_frame :: "(byte list \<Rightarrow> 'n \<Rightarrow> int \<times> 'n) \<Rightarrow> mask_table \<Rightarrow> int \<Rightarrow> int \<Rightarrow> (byte list \<times> nat) list \<Rightarrow>
    'n send_state \<Rightarrow> 'n send_state option" where
  "send_frame SendToNetwork tbl rt ft [] st = Some st"
| "send_frame SendToNetwork tbl rt ft (x # xs) st =
     (case SendVideoPacket SendToNetwork tbl rt ft (fst x) (length (fst x) - snd x) (snd x) True
        (fst st, fst (snd st) + 1, snd (snd st)) of
      Some (ret, st) \<Rightarrow> if ret = 0 then send_frame SendToNetwork tbl rt ft xs st else None
      | None \<Rightarrow> None)"

lemma send_frame_append:
  "send_frame net tbl rt ft (xs @ ys) st = send_frame net tbl rt ft xs st \<bind> send_frame net tbl rt ft ys"
  by (induction xs arbitrary: st) (auto split: option.splits)

text \<open>A network that keeps what it gets.\<close>

definition keep :: "byte list \<Rightarrow> byte list list \<Rightarrow> int \<times> byte list list" where
  "keep b net = (0, net @ [b])"

text \<open>An RTP packet of a frame: its number, source, whether it is the last, and a payload type other than that of FEC.\<close>

definition frame_packet :: "16 word \<Rightarrow> 32 word \<Rightarrow> byte \<Rightarrow> bool \<Rightarrow> byte list \<times> nat \<Rightarrow> bool" where
  "frame_packet n src ft final x \<longleftrightarrow> 12 \<le> snd x \<and> snd x \<le> length (fst x) \<and> length (fst x) \<le> 1498 \<and>
     fst x ! 0 AND 0xC0 = 0x80 \<and> ParseSequenceNumber (fst x) = n \<and> take 4 (drop 8 (fst x)) = WriteBigEndian4 False src \<and>
     (fst x ! 1 AND 0x80 \<noteq> 0 \<longleftrightarrow> final) \<and> fst x ! 1 AND 0x7F \<noteq> ft"

definition rtp_frame :: "16 word \<Rightarrow> 32 word \<Rightarrow> byte \<Rightarrow> (byte list \<times> nat) list \<Rightarrow> bool" where
  "rtp_frame base src ft frame \<longleftrightarrow> frame \<noteq> [] \<and> length frame \<le> 12 \<and>
     (\<forall>t<length frame. frame_packet (base + of_nat t) src ft (t = length frame - 1) (frame ! t))"

definition frame_media :: "(byte list \<times> nat) list \<Rightarrow> Packet list" where
  "frame_media frame = map (\<lambda>x. packet_of (fst x)) frame"

lemma frame_media_group:
  assumes "rtp_frame base src ft frame"
  shows "media_group base src (frame_media frame)"
proof -
  have p: "length (pkt_data (packet_of (fst (frame ! t)))) = 1500 \<and> 12 \<le> length (fst (frame ! t)) \<and> length (fst (frame ! t)) \<le> 1498 \<and>
      ParseSequenceNumber (pkt_data (packet_of (fst (frame ! t)))) = base + of_nat t \<and>
      pkt_data (packet_of (fst (frame ! t))) ! 0 AND 0xC0 = 0x80 \<and>
      take 4 (drop 8 (pkt_data (packet_of (fst (frame ! t))))) = WriteBigEndian4 False src" if "t < length frame" for t
  proof -
    have "frame_packet (base + of_nat t) src ft (t = length frame - 1) (frame ! t)" using assms that by (simp add: rtp_frame_def)
    moreover have "ParseSequenceNumber (bs @ z) = ParseSequenceNumber bs" if "12 \<le> length bs" for bs z
      using that by (auto simp: ParseSequenceNumber_def two_bytes_def nth_append)
    ultimately show ?thesis by (auto simp: frame_packet_def packet_of_def nth_append)
  qed
  show ?thesis unfolding media_group_def
  proof (intro conjI ballI)
    show "frame_media frame \<noteq> []" "length (frame_media frame) \<le> 48" "numbered base (frame_media frame)"
      using assms p by (auto simp: rtp_frame_def frame_media_def numbered_def)
    fix q assume "q \<in> set (frame_media frame)"
    then obtain t where t: "t < length frame" "q = packet_of (fst (frame ! t))" by (auto simp: frame_media_def in_set_conv_nth)
    have "pkt_length q = length (fst (frame ! t))" by (simp add: t(2) packet_of_def)
    then show "media_fits (length (frame_media frame) > 16) q" "pkt_data q ! 0 AND 0xC0 = 0x80"
      "take 4 (drop 8 (pkt_data q)) = WriteBigEndian4 False src"
      using p [OF t(1)] assms by (auto simp: t(2) media_fits_def fec_sizes frame_media_def rtp_frame_def)
  qed
qed

section \<open>The producer\<close>

definition producer_at :: "FecProtectionParams \<Rightarrow> nat \<Rightarrow> Packet list \<Rightarrow> ProducerFec \<Rightarrow> bool" where
  "producer_at prm imp ms p \<longleftrightarrow> fec_packets p = [] \<and> media_packets_fec p = ms \<and> num_frames p = 0 \<and>
     num_first_partition p = imp \<and> (if ms = [] then new_params p else params p) = prm \<and> fec p = new_ForwardErrorCorrection"

lemma add_packet_stored:
  assumes "h \<le> length bs" "length bs \<le> 1500"
  shows "(load bs 0 (length bs - h + h) \<bind> (\<lambda>x. store (replicate IP_PACKET_SIZE 0) 0 x \<bind> (\<lambda>d. f (length bs - h + h) d))) =
    f (pkt_length (packet_of bs)) (pkt_data (packet_of bs))"
  using assms by (simp add: store_zeros IP_PACKET_SIZE_def packet_of_def)

lemma add_middle:
  assumes "producer_at prm imp ms p" "length ms < 48" "2 \<le> h" "h \<le> length bs" "length bs \<le> 1500" "bs ! 1 AND 0x80 = 0"
  shows "\<exists>p'. AddRtpPacketAndGenerateFec tbl bs (length bs - h) h p = Some (0, p') \<and>
    producer_at prm imp (ms @ [packet_of bs]) p'"
  using assms(1,2,3,6) add_packet_stored [OF assms(4,5)] assms(4)
  by (auto simp: AddRtpPacketAndGenerateFec_def producer_at_def Let_def kRtpMarkerBitMask_def kMaxMediaPackets_def
      store_zeros IP_PACKET_SIZE_def packet_of_def assms(5))

lemma add_last:
  assumes "producer_at prm imp ms p" "length ms < 48" "2 \<le> h" "h \<le> length bs" "length bs \<le> 1500" "bs ! 1 AND 0x80 \<noteq> 0"
    "max_fec_frames prm = 1" "fecs \<noteq> []"
    "GenerateFEC tbl (ms @ [packet_of bs]) (word_of_int (fec_rate prm)) imp (use_uep_protection prm) (fec_mask_type prm)
      (generated_fec_packets new_ForwardErrorCorrection) = Some (0, fecs, g)"
  shows "\<exists>p'. AddRtpPacketAndGenerateFec tbl bs (length bs - h) h p = Some (0, p') \<and>
    fec_packets p' = fecs \<and> media_packets_fec p' = ms @ [packet_of bs]"
  using assms(1,2,3,4,6-9)
  by (cases "ms = []") (auto simp: AddRtpPacketAndGenerateFec_def producer_at_def Let_def kRtpMarkerBitMask_def
      kMaxMediaPackets_def store_zeros IP_PACKET_SIZE_def packet_of_def assms(5) split: if_splits)

text \<open>The FEC packets of the frame, in order, with consecutive numbers.\<close>

definition red_fec :: "int \<Rightarrow> nat \<Rightarrow> byte list \<Rightarrow> Packet \<Rightarrow> byte list \<Rightarrow> bool" where
  "red_fec ft h model f red \<longleftrightarrow> (\<exists>hdr. red = hdr @ [word_of_int ft] @ take (pkt_length f) (pkt_data f) \<and> length hdr = h \<and>
     take 4 (drop 8 hdr) = take 4 (drop 8 model))"

lemma send_fec_all:
  assumes "fec_packets p = fecs" "fecs \<noteq> [] \<Longrightarrow> media_packets_fec p = ms" "ms \<noteq> []" "12 \<le> h" "h \<le> length (pkt_data (last ms))"
    "\<forall>f \<in> set fecs. pkt_length f \<le> length (pkt_data f)"
  shows "\<exists>p' reds. send_fec keep rt ft h 0 (p, n, net) = Some (0, p', n + of_nat (length fecs), net @ reds) \<and>
    list_all2 (red_fec ft h (pkt_data (last ms))) fecs reds"
  using assms
proof (induction fecs arbitrary: p n net)
  case Nil
  then show ?case by (simp add: send_fec.simps FecAvailable_def)
next
  case (Cons f fs)
  have m: "media_packets_fec p = ms" using Cons.prems(2) by simp
  obtain red hdr where r: "GetFecPacket rt ft n h p = Some (Some red, if fs = []
      then p\<lparr>fec_packets := fs, media_packets_fec := [], num_frames := 0\<rparr> else p\<lparr>fec_packets := fs\<rparr>)"
    "red_data red = hdr @ [word_of_int ft] @ take (pkt_length f) (pkt_data f)" "length hdr = h"
    "take 4 (drop 8 hdr) = take 4 (drop 8 (pkt_data (last ms)))"
    using GetFecPacket_eq [OF Cons.prems(1), of h rt ft n] Cons.prems(3-6) unfolding m by auto
  let ?p = "if fs = [] then p\<lparr>fec_packets := fs, media_packets_fec := [], num_frames := 0\<rparr> else p\<lparr>fec_packets := fs\<rparr>"
  have "\<exists>p' reds. send_fec keep rt ft h 0 (?p, n + 1, net @ [red_data red]) =
      Some (0, p', n + 1 + of_nat (length fs), (net @ [red_data red]) @ reds) \<and>
      list_all2 (red_fec ft h (pkt_data (last ms))) fs reds"
    using Cons.prems(3-6) m by (intro Cons.IH) (auto split: if_splits)
  then obtain p' reds where s: "send_fec keep rt ft h 0 (?p, n + 1, net @ [red_data red]) =
      Some (0, p', n + 1 + of_nat (length fs), (net @ [red_data red]) @ reds)"
    "list_all2 (red_fec ft h (pkt_data (last ms))) fs reds" by blast
  have "red_fec ft h (pkt_data (last ms)) f (red_data red)" using r(2-4) by (auto simp: red_fec_def)
  moreover have "send_fec keep rt ft h 0 (p, n, net) = send_fec keep rt ft h 0 (?p, n + 1, net @ [red_data red])"
    using Cons.prems(1) r(1) by (subst send_fec.simps) (simp add: FecAvailable_def keep_def)
  ultimately show ?case using s
    by (intro exI [of _ p'] exI [of _ "red_data red # reds"]) (simp add: algebra_simps)
qed

lemma send_middle:
  assumes "producer_at prm imp ms p" "length ms + length xs \<le> 48"
    "\<forall>x \<in> set xs. 2 \<le> snd x \<and> snd x \<le> length (fst x) \<and> length (fst x) \<le> 1500 \<and> fst x ! 1 AND 0x80 = 0"
  shows "\<exists>p'. send_frame keep tbl rt ft xs (p, n, net) =
      Some (p', n + of_nat (length xs), net @ map (\<lambda>x. red_media rt (fst x) (snd x)) xs) \<and>
    producer_at prm imp (ms @ frame_media xs) p'"
  using assms
proof (induction xs arbitrary: ms p n net)
  case Nil
  then show ?case by (simp add: frame_media_def)
next
  case (Cons x xs)
  have x: "2 \<le> snd x" "snd x \<le> length (fst x)" "length (fst x) \<le> 1500" "fst x ! 1 AND 0x80 = 0" using Cons.prems(3) by simp_all
  from add_middle [OF Cons.prems(1) _ x, of tbl] Cons.prems(2) obtain p1 where
    p1: "AddRtpPacketAndGenerateFec tbl (fst x) (length (fst x) - snd x) (snd x) p = Some (0, p1)"
      "producer_at prm imp (ms @ [packet_of (fst x)]) p1" by auto
  have "\<not> FecAvailable p1" using p1(2) by (simp add: FecAvailable_def producer_at_def)
  then have "SendVideoPacket keep tbl rt ft (fst x) (length (fst x) - snd x) (snd x) True (p, n + 1, net) =
      Some (0, p1, n + 1, net @ [red_media rt (fst x) (snd x)])"
    using p1(1) x by (simp add: SendVideoPacket_def BuildRedPacket_eq keep_def send_fec.simps)
  moreover from Cons.IH [OF p1(2), of "n + 1" "net @ [red_media rt (fst x) (snd x)]"] Cons.prems(2,3) obtain p' where
    "send_frame keep tbl rt ft xs (p1, n + 1, net @ [red_media rt (fst x) (snd x)]) =
      Some (p', n + 1 + of_nat (length xs), (net @ [red_media rt (fst x) (snd x)]) @ map (\<lambda>x. red_media rt (fst x) (snd x)) xs)"
    "producer_at prm imp ((ms @ [packet_of (fst x)]) @ frame_media xs) p'" by auto
  ultimately show ?case by (intro exI [of _ p']) (simp add: frame_media_def algebra_simps)
qed

lemma send_frame_sent:
  assumes frame: "rtp_frame base src t frame" and p: "producer_at prm imp [] p" and one: "max_fec_frames prm = 1"
    and gen: "GenerateFEC tbl (frame_media frame) (word_of_int (fec_rate prm)) imp (use_uep_protection prm) (fec_mask_type prm)
      (generated_fec_packets new_ForwardErrorCorrection) = Some (0, fecs, g)"
    and fecs: "fecs \<noteq> []" "\<forall>f \<in> set fecs. pkt_length f \<le> length (pkt_data f)"
  shows "\<exists>p' reds. send_frame keep tbl rt ft frame (p, base, []) = Some (p', base + of_nat (length frame + length fecs),
      map (\<lambda>x. red_media rt (fst x) (snd x)) frame @ reds) \<and>
    list_all2 (red_fec ft (snd (last frame)) (pkt_data (packet_of (fst (last frame))))) fecs reds"
proof -
  have ne: "frame \<noteq> []" and short: "length frame \<le> 12" using frame by (simp_all add: rtp_frame_def)
  define xs x where "xs = butlast frame" and "x = last frame"
  have split: "frame = xs @ [x]" using ne by (simp add: xs_def x_def)
  have pk: "frame_packet (base + of_nat i) src t (i = length xs) ((xs @ [x]) ! i)" if "i \<le> length xs" for i
    using frame that unfolding rtp_frame_def split by simp
  have xs: "\<forall>y \<in> set xs. 2 \<le> snd y \<and> snd y \<le> length (fst y) \<and> length (fst y) \<le> 1500 \<and> fst y ! 1 AND 0x80 = 0"
  proof
    fix y assume "y \<in> set xs"
    then obtain i where "i < length xs" "y = (xs @ [x]) ! i" by (auto simp: in_set_conv_nth nth_append)
    with pk [of i] show "2 \<le> snd y \<and> snd y \<le> length (fst y) \<and> length (fst y) \<le> 1500 \<and> fst y ! 1 AND 0x80 = 0"
      by (simp add: frame_packet_def)
  qed
  have x: "12 \<le> snd x" "2 \<le> snd x" "snd x \<le> length (fst x)" "length (fst x) \<le> 1500" "fst x ! 1 AND 0x80 \<noteq> 0"
    using pk [of "length xs"] by (simp_all add: frame_packet_def)
  from send_middle [OF p _ xs, of tbl rt ft base "[]"] short obtain p1 where
    p1: "send_frame keep tbl rt ft xs (p, base, []) = Some (p1, base + of_nat (length xs), map (\<lambda>x. red_media rt (fst x) (snd x)) xs)"
      "producer_at prm imp (frame_media xs) p1" by (auto simp: split)
  have fm: "frame_media frame = frame_media xs @ [packet_of (fst x)]" by (simp add: frame_media_def split)
  have "length (frame_media xs) < 48" using short by (simp add: frame_media_def split)
  from add_last [OF p1(2) this x(2-5) one fecs(1)] gen fm obtain p2 where
    p2: "AddRtpPacketAndGenerateFec tbl (fst x) (length (fst x) - snd x) (snd x) p1 = Some (0, p2)"
      "fec_packets p2 = fecs" "media_packets_fec p2 = frame_media frame" by auto
  have l: "frame_media frame \<noteq> []" "last (frame_media frame) = packet_of (fst x)" by (simp_all add: fm)
  have h: "snd x \<le> length (pkt_data (last (frame_media frame)))" unfolding l(2) using x(3,4) by (simp add: packet_of_def)
  obtain p' reds where r: "send_fec keep rt ft (snd x) 0 (p2, base + of_nat (length xs) + 1,
        map (\<lambda>x. red_media rt (fst x) (snd x)) xs @ [red_media rt (fst x) (snd x)]) =
      Some (0, p', base + of_nat (length xs) + 1 + of_nat (length fecs),
        (map (\<lambda>x. red_media rt (fst x) (snd x)) xs @ [red_media rt (fst x) (snd x)]) @ reds)"
      "list_all2 (red_fec ft (snd x) (pkt_data (packet_of (fst x)))) fecs reds"
    using send_fec_all [OF p2(2) p2(3) l(1) x(1) h fecs(2), of rt ft "base + of_nat (length xs) + 1"] unfolding l(2) by blast
  have "SendVideoPacket keep tbl rt ft (fst x) (length (fst x) - snd x) (snd x) True
      (p1, base + of_nat (length xs) + 1, map (\<lambda>x. red_media rt (fst x) (snd x)) xs) =
      Some (0, p', base + of_nat (length xs) + 1 + of_nat (length fecs),
        (map (\<lambda>x. red_media rt (fst x) (snd x)) xs @ [red_media rt (fst x) (snd x)]) @ reds)"
    using p2(1) x(2,3) r(1) by (simp add: SendVideoPacket_def BuildRedPacket_eq keep_def)
  with p1(1) have "send_frame keep tbl rt ft frame (p, base, []) = Some (p', base + of_nat (length frame + length fecs),
      map (\<lambda>x. red_media rt (fst x) (snd x)) frame @ reds)"
    by (simp add: split send_frame_append algebra_simps)
  with r(2) show ?thesis unfolding x_def by blast
qed

section \<open>The receiver\<close>

lemma RecoverPacket_not_returned:
  assumes "RecoverPacket f = Some r"
  shows "\<not> returned r"
proof -
  have loop: "returned r' = returned r" if "recover_loop ps r = Some r'" for ps r r'
    using that by (induction ps arbitrary: r) (force simp: XorPackets_def bind_eq_Some_conv split: option.splits)+
  from assms obtain r0 r1 where "InitRecovery f = Some r0" "recover_loop (protected_pkt_list f) r0 = Some r1" "FinishRecovery r1 = Some r"
    by (auto simp: RecoverPacket_def bind_eq_Some_conv)
  moreover from this(1) have "\<not> returned r0" by (auto simp: InitRecovery_def Let_def bind_eq_Some_conv)
  moreover from \<open>FinishRecovery r1 = Some r\<close> have "returned r = returned r1"
    by (auto simp: FinishRecovery_def Let_def bind_eq_Some_conv)
  ultimately show ?thesis using loop by simp
qed

lemma attempt_recover_returned:
  "attempt_recover i fecs recs = Some (recs', fecs') \<Longrightarrow> r \<in> set recs' \<Longrightarrow> returned r \<Longrightarrow> r \<in> set recs"
proof (induction i fecs recs rule: attempt_recover.induct)
  case (1 i fecs recs)
  show ?case
  proof (cases "i < length fecs")
    case False
    with 1(4,5) show ?thesis by (simp add: attempt_recover.simps)
  next
    case True
    consider (rec) q where "NumCoveredPacketsMissing (fecs ! i) = 1" "RecoverPacket (fecs ! i) = Some q"
        "attempt_recover 0 (remove_at i (UpdateCoveringFECPackets q fecs)) (DiscardOldPackets (sort_recovered (recs @ [q]))) = Some (recs', fecs')"
      | (none) "NumCoveredPacketsMissing (fecs ! i) = 0" "attempt_recover i (remove_at i fecs) recs = Some (recs', fecs')"
      | (more) "NumCoveredPacketsMissing (fecs ! i) \<noteq> 1" "NumCoveredPacketsMissing (fecs ! i) \<noteq> 0"
        "attempt_recover (i + 1) fecs recs = Some (recs', fecs')"
      using 1(4) True by (subst (asm) attempt_recover.simps) (auto simp: Let_def split: if_splits option.splits)
    then show ?thesis
    proof cases
      case rec
      from 1(1) [OF True refl rec(1,2,3) 1(5,6)] have "r \<in> set (recs @ [q])"
        using set_drop_subset [of _ "sort_recovered (recs @ [q])"] by (auto simp: DiscardOldPackets_def sort_recovered_def)
      then show ?thesis using RecoverPacket_not_returned [OF rec(2)] 1(6) by auto
    next
      case none
      then show ?thesis using 1(2) [OF True refl _ _ none(2) 1(5,6)] by simp
    next
      case more
      then show ?thesis using 1(3) [OF True refl _ _ more(3) 1(5,6)] by simp
    qed
  qed
qed

lemma DecodeFEC_returned:
  assumes dec: "DecodeFEC [rx] (recs, s) = Some (ret, recs', s')" and r: "r \<in> set recs'" "returned r"
  shows "r \<in> set recs \<or> \<not> is_fec rx \<and> rec_pkt r = rx_pkt rx"
proof -
  obtain recs0 s0 recs1 s1 where d: "set recs0 \<subseteq> set recs" "insert_packet rx (recs0, s0) = Some (recs1, s1)"
    "AttemptRecover (DiscardOldPackets recs1, s1) = Some (recs', s')"
  proof (rule DecodeFEC_split [of "[rx]" recs s])
    assume "DecodeFEC [rx] (recs, s) = map_option (Pair 0) (InsertPackets [rx] (recs, s) \<bind> AttemptRecover)"
    with dec that [of recs s] show thesis by (auto simp: InsertPackets_def bind_eq_Some_conv)
  next
    let ?s = "s\<lparr>fec_packet_received := False, fec_packet_list := []\<rparr>"
    assume "DecodeFEC [rx] (recs, s) = map_option (Pair 0) (InsertPackets [rx] ([], ?s) \<bind> AttemptRecover)"
    with dec that [of "[]" ?s] show thesis by (auto simp: InsertPackets_def bind_eq_Some_conv)
  qed simp
  have "r \<in> set (DiscardOldPackets recs1)"
    using d(3) r attempt_recover_returned by (auto simp: AttemptRecover_def bind_eq_Some_conv)
  then have r1: "r \<in> set recs1" using set_drop_subset by (fastforce simp: DiscardOldPackets_def)
  show ?thesis
  proof (cases "is_fec rx")
    case True
    with d(2) have "recs1 = recs0" by (auto simp: insert_packet_def Let_def)
    with r1 d(1) show ?thesis by auto
  next
    case False
    with d(2) have "InsertMediaPacket rx recs0 (s0\<lparr>fec_packet_list := discard_old_fec (rx_seq_num rx) (fec_packet_list s0)\<rparr>) = (recs1, s1)"
      by (simp add: insert_packet_def Let_def)
    with r1 have "r \<in> set recs0 \<or> rec_pkt r = rx_pkt rx"
      by (auto simp: InsertMediaPacket_def Let_def sort_recovered_def split: if_splits)
    with d(1) False show ?thesis by auto
  qed
qed

text \<open>A callback that keeps the bytes it gets, and says yes.\<close>

definition bytes_of :: "Packet \<Rightarrow> byte list" where
  "bytes_of p = take (pkt_length p) (pkt_data p)"

definition log_packet :: "byte list \<Rightarrow> nat \<Rightarrow> byte list list \<Rightarrow> bool \<times> byte list list" where
  "log_packet d n log = (True, log @ [take n d])"

lemma deliver_log: "\<exists>n'. deliver log_packet recs n log =
    (True, map (returned_update (\<lambda>_. True)) recs, n', log @ map (\<lambda>r. bytes_of (rec_pkt r)) (filter (\<lambda>r. \<not> returned r) recs))"
proof (induction recs arbitrary: n log)
  case (Cons r recs)
  from Cons [of n log] Cons [of "n + 1" "log @ [bytes_of (rec_pkt r)]"] show ?case
    by (auto simp: log_packet_def bytes_of_def)
qed simp

text \<open>What the receiver has done when media packets with the numbers \<open>RM\<close> and FEC packets with the numbers \<open>RF\<close> have arrived.\<close>

definition recv_ok :: "16 word \<Rightarrow> 32 word \<Rightarrow> Packet list \<Rightarrow> nat \<Rightarrow> (nat \<Rightarrow> nat list) \<Rightarrow> 16 word set \<Rightarrow> 16 word set \<Rightarrow>
    FecReceiverImpl \<Rightarrow> byte list list \<Rightarrow> bool" where
  "recv_ok base src ms m rows RM RF s log \<longleftrightarrow> received_packet_list s = [] \<and>
     dec_inv base src ms (recovered_packet_list s) (fec_packet_list (recv_fec s)) \<and>
     (\<forall>f \<in> set (fec_packet_list (recv_fec s)). 2 \<le> length (missing (protected_pkt_list f))) \<and>
     remembers (fec_numbers base (length ms) m) (row_numbers base (length ms) rows) RM RF
       (recovered_packet_list s) (fec_packet_list (recv_fec s)) \<and>
     (\<forall>r \<in> set (recovered_packet_list s). returned r \<and> bytes_of (rec_pkt r) \<in> set log) \<and> set log \<subseteq> bytes_of ` set ms"

lemma carries_bytes: "carries base ms n q \<Longrightarrow> bytes_of q \<in> bytes_of ` set ms"
  by (auto simp: carries_def bytes_of_def)

lemma dec_inv_returned: "dec_inv base src ms (map (returned_update f) recs) fecs \<longleftrightarrow> dec_inv base src ms recs fecs"
  by (simp add: dec_inv_def sorted_wrt_map image_image)

lemma remembers_returned: "remembers S rs RM RF (map (returned_update f) recs) fecs \<longleftrightarrow> remembers S rs RM RF recs fecs"
  by (simp add: remembers_def image_image)

lemma process_step:
  assumes grp: "media_group base src ms" and num: "fec_numbering base (length ms) m"
    and ok: "recv_ok base src ms m rows RM RF s log" and rx: "numbered_rx base src ms m rows rx"
  shows "\<exists>s' log'. ProcessReceivedFec log_packet (s\<lparr>packet_counter := c, received_packet_list := [rx]\<rparr>) log = Some (0, s', log') \<and>
    recv_ok base src ms m rows (RM \<union> media_seqs [rx]) (RF \<union> fec_seqs_rx [rx]) s' log'"
proof -
  let ?recs = "recovered_packet_list s"
  define log1 where "log1 = (if is_fec rx then log else log @ [bytes_of (rx_pkt rx)])"
  have log1: "set log \<subseteq> set log1" "set log1 \<subseteq> bytes_of ` set ms" "\<not> is_fec rx \<Longrightarrow> bytes_of (rx_pkt rx) \<in> set log1"
    using ok rx carries_bytes [of base ms "rx_seq_num rx" "rx_pkt rx"]
    by (auto simp: log1_def recv_ok_def numbered_rx_def split: if_splits)
  have ok': "dec_inv base src ms ?recs (fec_packet_list (recv_fec s))"
    "remembers (fec_numbers base (length ms) m) (row_numbers base (length ms) rows) RM RF ?recs (fec_packet_list (recv_fec s))"
    using ok by (simp_all add: recv_ok_def)
  from DecodeFEC_remembers [OF grp num ok', of "[rx]"] rx obtain recs' f' where
    d: "DecodeFEC [rx] (?recs, recv_fec s) = Some (0, recs', f')" "dec_inv base src ms recs' (fec_packet_list f')"
    "\<forall>f \<in> set (fec_packet_list f'). 2 \<le> length (missing (protected_pkt_list f))"
    "remembers (fec_numbers base (length ms) m) (row_numbers base (length ms) rows)
      (RM \<union> media_seqs [rx]) (RF \<union> fec_seqs_rx [rx]) recs' (fec_packet_list f')" by auto
  obtain n' where n': "deliver log_packet recs' (num_recovered_packets c) log1 =
      (True, map (returned_update (\<lambda>_. True)) recs', n', log1 @ map (\<lambda>r. bytes_of (rec_pkt r)) (filter (\<lambda>r. \<not> returned r) recs'))"
    using deliver_log by blast
  define lg where "lg = log1 @ map (\<lambda>r. bytes_of (rec_pkt r)) (filter (\<lambda>r. \<not> returned r) recs')"
  have "bytes_of (rec_pkt r) \<in> set lg" if "r \<in> set recs'" for r
  proof (cases "returned r")
    case True
    from DecodeFEC_returned [OF d(1) that True] show ?thesis using ok log1(1,3) by (auto simp: recv_ok_def lg_def)
  qed (use that in \<open>auto simp: lg_def\<close>)
  moreover have "set lg \<subseteq> bytes_of ` set ms"
    using log1(2) d(2) carries_bytes by (fastforce simp: dec_inv_def lg_def)
  ultimately have "recv_ok base src ms m rows (RM \<union> media_seqs [rx]) (RF \<union> fec_seqs_rx [rx])
      (s\<lparr>packet_counter := c\<lparr>num_recovered_packets := n'\<rparr>, received_packet_list := [],
         recovered_packet_list := map (returned_update (\<lambda>_. True)) recs', recv_fec := f'\<rparr>) lg"
    using d(2-4) by (auto simp: recv_ok_def dec_inv_returned remembers_returned simp del: received_Cons)
  moreover have "ProcessReceivedFec log_packet (s\<lparr>packet_counter := c, received_packet_list := [rx]\<rparr>) log =
      Some (0, s\<lparr>packet_counter := c\<lparr>num_recovered_packets := n'\<rparr>, received_packet_list := [],
         recovered_packet_list := map (returned_update (\<lambda>_. True)) recs', recv_fec := f'\<rparr>, lg)"
    using d(1) n' by (simp add: ProcessReceivedFec_def deliver_recovered_def log_packet_def log1_def lg_def bytes_of_def split: if_splits)
  ultimately show ?thesis by blast
qed

section \<open>From the network to the receiver\<close>

text \<open>A packet that arrives is one of the packets sent, with the header the parser has found in it: its number and
  its length.  The FEC packets have the header of the last media packet.  The two source numbers are what the
  memory of new objects happens to hold.\<close>

type_synonym arrived = "32 word \<times> 32 word \<times> RTPHeader \<times> byte list"

definition arrival :: "16 word \<Rightarrow> (byte list \<times> nat) list \<Rightarrow> byte list list \<Rightarrow> nat \<Rightarrow> arrived \<Rightarrow> bool" where
  "arrival base frame sent j = (\<lambda>(ssrc1, ssrc2, header, packet). packet = sent ! j \<and>
     sequenceNumber header = base + of_nat j \<and> headerLength header = snd (frame ! min j (length frame - 1)))"

lemma receive_arrival:
  assumes frame: "rtp_frame base src (word_of_int ft) frame" and types: "0 \<le> rt" "rt < 128" "0 \<le> ft" "ft < 128"
    and reds: "list_all2 (red_fec ft (snd (last frame)) (pkt_data (packet_of (fst (last frame))))) fecs reds"
    and fecs: "\<forall>f \<in> set fecs. fec_partial l_bit f \<and> pkt_length f \<noteq> 0"
    and j: "j < length frame + length fecs"
    and a: "arrival base frame (map (\<lambda>x. red_media rt (fst x) (snd x)) frame @ reds) j (ssrc1, ssrc2, header, packet)"
    and s: "received_packet_list s = []"
  shows "\<exists>c rx. AddReceivedRedPacket ssrc1 ssrc2 header packet (length packet) (word_of_int ft) s =
      Some (0, s\<lparr>packet_counter := c, received_packet_list := [rx]\<rparr>) \<and>
    sent_in_order base src (frame_media frame) fecs rx \<and> rx_seq_num rx = base + of_nat j \<and> (is_fec rx \<longleftrightarrow> length frame \<le> j)"
proof -
  have k: "frame \<noteq> []" and pk: "\<And>t. t < length frame \<Longrightarrow> frame_packet (base + of_nat t) src (word_of_int ft) (t = length frame - 1) (frame ! t)"
    using frame by (simp_all add: rtp_frame_def)
  have seq: "sequenceNumber header = base + of_nat j" using a by (simp add: arrival_def)
  show ?thesis
  proof (cases "j < length frame")
    case True
    let ?bs = "fst (frame ! j)" and ?h = "snd (frame ! j)"
    have min: "min j (length frame - 1) = j" using True by simp
    have p: "packet = red_media rt ?bs ?h" "headerLength header = ?h"
      using a True by (simp_all add: arrival_def nth_append min)
    have f: "12 \<le> ?h" "?h \<le> length ?bs" "length ?bs \<le> 1498" "?bs ! 1 AND 0x7F \<noteq> word_of_int ft"
      using pk [OF True] by (simp_all add: frame_packet_def)
    obtain hdr where hdr: "red_media rt ?bs ?h = hdr @ [?bs ! 1 AND 0x7F] @ drop ?h ?bs" "length hdr = ?h"
      "hdr[1 := (hdr ! 1 AND 0x80) + (?bs ! 1 AND 0x7F)] @ drop ?h ?bs = ?bs"
      by (rule red_media_split [OF f(1,2) types(1,2)])
    have "headerLength header = length hdr" "12 \<le> length hdr" "length hdr + length (drop ?h ?bs) \<le> 1500"
      using p(2) hdr(2) f(1-3) by simp_all
    from receive_media [OF this low_bits f(4), of ssrc1 ssrc2 s] obtain c where
      r: "AddReceivedRedPacket ssrc1 ssrc2 header packet (length packet) (word_of_int ft) s =
        Some (0, s\<lparr>packet_counter := c, received_packet_list := received_packet_list s @
          [\<lparr>rx_seq_num = sequenceNumber header, rx_ssrc = ssrc1, is_fec = False, rx_pkt = packet_of ?bs\<rparr>]\<rparr>)"
      unfolding p(1) hdr(1) hdr(3) by blast
    moreover have "carries base (frame_media frame) (base + of_nat j) (packet_of ?bs)"
      unfolding carries_def using True f(3) by (intro exI [of _ j]) (simp add: frame_media_def packet_of_def)
    ultimately show ?thesis using True s seq
      by (intro exI [of _ c] exI [of _ "\<lparr>rx_seq_num = base + of_nat j, rx_ssrc = ssrc1, is_fec = False, rx_pkt = packet_of ?bs\<rparr>"])
        (simp add: sent_in_order_def)
  next
    case False
    define i where "i = j - length frame"
    have i: "i < length fecs" "j = length frame + i" using False j by (simp_all add: i_def)
    let ?f = "fecs ! i" and ?L = "fst (last frame)"
    have "min j (length frame - 1) = length frame - 1" using False by simp
    then have last: "frame ! min j (length frame - 1) = last frame" using k by (simp only: last_conv_nth not_False_eq_True)
    have L: "12 \<le> snd (last frame)" "snd (last frame) \<le> length ?L" "length ?L \<le> 1498"
      "take 4 (drop 8 ?L) = WriteBigEndian4 False src"
      using pk [of "length frame - 1"] k by (simp_all add: frame_packet_def last_conv_nth)
    have p: "packet = reds ! i" "headerLength header = snd (last frame)"
      using a i(2) unfolding arrival_def last by (simp_all add: nth_append)
    from list_all2_nthD [OF reds i(1)] obtain hdr where
      hdr: "reds ! i = hdr @ [word_of_int ft] @ take (pkt_length ?f) (pkt_data ?f)" "length hdr = snd (last frame)"
      "take 4 (drop 8 hdr) = take 4 (drop 8 (pkt_data (packet_of ?L)))" by (auto simp: red_fec_def)
    have f: "fec_partial l_bit ?f" "pkt_length ?f \<noteq> 0" using fecs i(1) by simp_all
    then have n: "0 < length (take (pkt_length ?f) (pkt_data ?f))" "length (take (pkt_length ?f) (pkt_data ?f)) \<le> 1500"
      by (simp_all add: fec_partial_def)
    have "take 4 (drop 8 hdr) = WriteBigEndian4 False src"
      unfolding hdr(3) L(4) [symmetric] using L(1,2) by (simp add: packet_of_def)
    moreover have "headerLength header = length hdr" "12 \<le> length hdr" "length hdr \<le> 1500" using p(2) hdr(2) L(1-3) by simp_all
    ultimately obtain c where r: "AddReceivedRedPacket ssrc1 ssrc2 header packet (length packet) (word_of_int ft) s =
        Some (0, s\<lparr>packet_counter := c, received_packet_list := received_packet_list s @
          [\<lparr>rx_seq_num = sequenceNumber header, rx_ssrc = src, is_fec = True, rx_pkt = ?f\<rparr>]\<rparr>)"
      using receive_fec [OF _ _ _ n type_bits [OF types(3,4)] refl, of header hdr src ssrc1 ssrc2 s]
      unfolding p(1) hdr(1) packet_of_fec [OF f(1)] by blast
    moreover have "\<exists>i'<length fecs. base + of_nat j = base + of_nat (length frame + i') \<and> ?f = fecs ! i'"
      using i by (intro exI [of _ i]) simp
    ultimately show ?thesis using False s seq
      by (intro exI [of _ c] exI [of _ "\<lparr>rx_seq_num = base + of_nat j, rx_ssrc = src, is_fec = True, rx_pkt = ?f\<rparr>"])
        (simp add: sent_in_order_def frame_media_def)
  qed
qed

lemma receive_run:
  assumes grp: "media_group base src (frame_media frame)" and num: "fec_numbering base (length frame) m"
    and step: "\<forall>j ssrc1 ssrc2 header packet s. j < length frame + m \<longrightarrow> arrival base frame sent j (ssrc1, ssrc2, header, packet) \<longrightarrow>
      received_packet_list s = [] \<longrightarrow>
      (\<exists>c rx. AddReceivedRedPacket ssrc1 ssrc2 header packet (length packet) t s =
        Some (0, s\<lparr>packet_counter := c, received_packet_list := [rx]\<rparr>) \<and>
      numbered_rx base src (frame_media frame) m rows rx \<and> rx_seq_num rx = base + of_nat j \<and> (is_fec rx \<longleftrightarrow> length frame \<le> j))"
  shows "recv_ok base src (frame_media frame) m rows RM RF s log \<Longrightarrow>
    \<forall>a \<in> set arrivals. \<exists>j<length frame + m. arrival base frame sent j a \<Longrightarrow>
    \<exists>s' log' RM' RF'. receive_reds log_packet t arrivals (s, log) = Some (s', log') \<and>
      recv_ok base src (frame_media frame) m rows RM' RF' s' log' \<and> RM \<subseteq> RM' \<and> RF \<subseteq> RF' \<and>
      (\<forall>j<length frame + m. (\<exists>a \<in> set arrivals. arrival base frame sent j a) \<longrightarrow>
        base + of_nat j \<in> (if j < length frame then RM' else RF'))"
proof (induction arrivals arbitrary: s log RM RF)
  case Nil
  then show ?case by auto
next
  case (Cons a arrivals)
  obtain ssrc1 ssrc2 header packet where a: "a = (ssrc1, ssrc2, header, packet)" by (cases a)
  from Cons.prems(2) a obtain j where j: "j < length frame + m" "arrival base frame sent j (ssrc1, ssrc2, header, packet)" by auto
  have "received_packet_list s = []" using Cons.prems(1) by (simp add: recv_ok_def)
  from step [rule_format, OF j this] obtain c rx where r: "AddReceivedRedPacket ssrc1 ssrc2 header packet (length packet) t s =
      Some (0, s\<lparr>packet_counter := c, received_packet_list := [rx]\<rparr>)" "numbered_rx base src (frame_media frame) m rows rx"
    "rx_seq_num rx = base + of_nat j" "is_fec rx \<longleftrightarrow> length frame \<le> j" by blast
  have num': "fec_numbering base (length (frame_media frame)) m" using num by (simp add: frame_media_def)
  from process_step [OF grp num' Cons.prems(1) r(2), of c] obtain s1 log1 where
    p: "ProcessReceivedFec log_packet (s\<lparr>packet_counter := c, received_packet_list := [rx]\<rparr>) log = Some (0, s1, log1)"
    "recv_ok base src (frame_media frame) m rows (RM \<union> media_seqs [rx]) (RF \<union> fec_seqs_rx [rx]) s1 log1" by blast
  have one: "receive_reds log_packet t (a # arrivals) (s, log) = receive_reds log_packet t arrivals (s1, log1)"
    using r(1) p(1) by (simp add: receive_red_def a)
  have "\<forall>a \<in> set arrivals. \<exists>j<length frame + m. arrival base frame sent j a" using Cons.prems(2) by simp
  from Cons.IH [OF p(2) this] obtain s' log' RM' RF' where
    i: "receive_reds log_packet t arrivals (s1, log1) = Some (s', log')"
    "recv_ok base src (frame_media frame) m rows RM' RF' s' log'" "RM \<union> media_seqs [rx] \<subseteq> RM'" "RF \<union> fec_seqs_rx [rx] \<subseteq> RF'"
    "\<forall>j<length frame + m. (\<exists>a \<in> set arrivals. arrival base frame sent j a) \<longrightarrow>
      base + of_nat j \<in> (if j < length frame then RM' else RF')" by (elim exE conjE) (rule that)
  have now: "base + of_nat j' \<in> (if j' < length frame then RM' else RF')" if "j' < length frame + m" "arrival base frame sent j' a" for j'
  proof -
    have "base + of_nat j' = base + of_nat j" using that(2) j(2) by (simp add: arrival_def a)
    then have "pos base (base + of_nat j') = pos base (base + of_nat j)" by (rule arg_cong)
    then have "j' = j" by (simp only: number_pos [OF num that(1)] number_pos [OF num j(1)])
    moreover have "rx_seq_num rx \<in> (if is_fec rx then RF' else RM')"
      using i(3,4) by (cases "is_fec rx") (simp_all add: subset_iff)
    ultimately show ?thesis using r(3,4) by (cases "is_fec rx") simp_all
  qed
  show ?case unfolding one
  proof (rule exI [of _ s'], rule exI [of _ log'], rule exI [of _ RM'], rule exI [of _ RF'], intro conjI i(1,2) allI impI)
    show "RM \<subseteq> RM'" "RF \<subseteq> RF'" using i(3,4) by blast+
    fix j' assume j': "j' < length frame + m" "\<exists>b \<in> set (a # arrivals). arrival base frame sent j' b"
    then consider "arrival base frame sent j' a" | "\<exists>b \<in> set arrivals. arrival base frame sent j' b" by auto
    then show "base + of_nat j' \<in> (if j' < length frame then RM' else RF')"
      by cases (use now j'(1) i(5) in blast)+
  qed
qed

section \<open>Property\<close>

lemma recv_ok_new: "recv_ok base src ms m rows {} {} new_FecReceiverImpl []"
  by (simp add: recv_ok_def new_FecReceiverImpl_def new_ForwardErrorCorrection_def dec_inv_empty remembers_def)

lemma recv_ok_log:
  assumes ok: "recv_ok base src (frame_media frame) m rows RM RF s log"
    and all: "unrecovered base (length frame) (recovered_packet_list s) = {}"
    and short: "length frame \<le> 48"
  shows "set log = fst ` set frame"
proof
  have b: "bytes_of (packet_of bs) = bs" for bs by (simp add: bytes_of_def packet_of_def)
  have m: "bytes_of ` set (frame_media frame) = fst ` set frame" by (simp add: frame_media_def image_image b)
  then show "set log \<subseteq> fst ` set frame" using ok by (simp add: recv_ok_def)
  show "fst ` set frame \<subseteq> set log"
  proof
    fix bs assume "bs \<in> fst ` set frame"
    then obtain t where t: "t < length frame" "bs = fst (frame ! t)" by (auto simp: in_set_conv_nth)
    with all obtain r where r: "r \<in> set (recovered_packet_list s)" "rec_seq_num r = base + of_nat t" by (auto simp: unrecovered_def)
    then have "carries base (frame_media frame) (base + of_nat t) (rec_pkt r)" using ok by (auto simp: recv_ok_def dec_inv_def)
    then obtain t' where t': "t' < length frame" "base + of_nat t = base + of_nat t'" "bytes_of (rec_pkt r) = bytes_of (frame_media frame ! t')"
      by (auto simp: carries_def bytes_of_def frame_media_def)
    have "t = t'" using t(1) t'(1) short by (intro position_inj [OF t'(2)]) simp_all
    with t t'(1,3) have "bytes_of (rec_pkt r) = bs" by (simp add: frame_media_def b)
    then show "bs \<in> set log" using ok r(1) by (auto simp: recv_ok_def)
  qed
qed

lemma burst_delivered:
  assumes num: "fec_numbering base (length frame) m" and mk: "1 \<le> m" "m \<le> length frame" and short: "length frame \<le> 12"
    and ok: "recv_ok base src (frame_media frame) m
      (row_positions 2 (length frame) (group_mask tbl (length frame) m imp False kFecMaskBursty)) RM RF r log"
    and got: "\<And>j. j < length frame + m \<Longrightarrow> s \<le> j \<and> j < s + m \<or> base + of_nat j \<in> (if j < length frame then RM else RF)"
  shows "set log = fst ` set frame"
proof (rule recv_ok_log [OF ok])
  let ?k = "length frame" and ?rows = "row_positions 2 (length frame) (group_mask tbl (length frame) m imp False kFecMaskBursty)"
  have inv: "dec_inv base src (frame_media frame) (recovered_packet_list r) (fec_packet_list (recv_fec r))"
    "\<forall>f \<in> set (fec_packet_list (recv_fec r)). 2 \<le> length (missing (protected_pkt_list f))"
    "remembers (fec_numbers base ?k m) (row_numbers base ?k ?rows) RM RF (recovered_packet_list r) (fec_packet_list (recv_fec r))"
    using ok by (simp_all add: recv_ok_def frame_media_def)
  show "unrecovered base ?k (recovered_packet_list r) = {}"
  proof (rule remembers_recovered [OF inv num _ _ _ bursty_recoverable [OF mk short, of tbl imp s]])
    show "\<forall>i<m. \<forall>t \<in> set (?rows i). t < ?k" by (simp add: row_positions_def)
    show "\<forall>i \<in> set (filter (\<lambda>i. \<not> (s \<le> ?k + i \<and> ?k + i < s + m)) [0..<m]). i < m \<and> base + of_nat (?k + i) \<in> RF"
    proof
      fix i assume "i \<in> set (filter (\<lambda>i. \<not> (s \<le> ?k + i \<and> ?k + i < s + m)) [0..<m])"
      with got [of "?k + i"] show "i < m \<and> base + of_nat (?k + i) \<in> RF" by auto
    qed
    show "{t. t < ?k \<and> base + of_nat t \<notin> RM} \<subseteq> set (filter (\<lambda>t. s \<le> t \<and> t < s + m) [0..<?k])"
    proof
      fix t assume "t \<in> {t. t < ?k \<and> base + of_nat t \<notin> RM}"
      with got [of t] show "t \<in> set (filter (\<lambda>t. s \<le> t \<and> t < s + m) [0..<?k])" by auto
    qed
  qed
qed (use short in simp)

text \<open>The FEC packets of a frame.\<close>

lemma frame_fecs:
  assumes frame: "rtp_frame base src t frame" and pf: "0 < pf" "pf < 256" and imp: "imp \<le> length frame"
    and m: "m = GetNumberOfFecPackets (length frame) (nat pf)"
  obtains fecs g where "GenerateFEC tbl (frame_media frame) (word_of_int pf) imp False kFecMaskBursty
      (generated_fec_packets new_ForwardErrorCorrection) = Some (0, fecs, g)"
    "length fecs = m" "\<forall>f \<in> set fecs. fec_partial False f \<and> pkt_length f \<noteq> 0"
    "\<forall>i<m. protects base (frame_media frame)
      (row_positions 2 (length frame) (group_mask tbl (length frame) m imp False kFecMaskBursty) i) (pkt_data (fecs ! i))"
    "1 \<le> m" "m \<le> length frame"
proof -
  let ?k = "length frame" and ?ms = "frame_media frame"
  have k: "length ?ms = ?k" "?k \<le> 12" "?k \<noteq> 0" using frame by (simp_all add: frame_media_def rtp_frame_def)
  have "uint (word_of_int pf :: byte) = pf" using pf by (simp add: uint_word_of_int)
  then have rate: "(word_of_int pf :: byte) \<noteq> 0" "unat (word_of_int pf :: byte) = nat pf"
    using pf(1) by (auto simp: unat_eq_nat_uint)
  have m': "m = GetNumberOfFecPackets (length ?ms) (unat (word_of_int pf :: byte))" by (simp add: m k rate)
  have mk: "1 \<le> m" "m \<le> ?k" using GetNumberOfFecPackets_le [of ?k "nat pf"] pf k by (simp_all add: m)
  have nb: "(16 < ?k) = False" "mask_bytes False = 2" using k by (simp_all add: fec_sizes)
  have "table_ok (length ?ms) (PacketMaskTable tbl kFecMaskBursty (length ?ms))"
    using table_ok_mono [OF bursty_table_ok k(2)] k by (simp add: bursty_table)
  from GenerateFEC_protects [OF frame_media_group [OF frame] rate(1) m' this _ generated_length, of imp False] imp obtain fecs g where
    g: "GenerateFEC tbl ?ms (word_of_int pf) imp False kFecMaskBursty (generated_fec_packets new_ForwardErrorCorrection) = Some (0, fecs, g)"
    "length fecs = m" "\<forall>i<m. fec_partial False (fecs ! i) \<and> pkt_length (fecs ! i) \<noteq> 0"
    "\<forall>i<m. protects base ?ms (row_positions 2 ?k (group_mask tbl ?k m imp False kFecMaskBursty) i) (pkt_data (fecs ! i))"
    unfolding k(1) nb by auto
  have "\<forall>f \<in> set fecs. fec_partial False f \<and> pkt_length f \<noteq> 0" using g(2,3) by (auto simp: in_set_conv_nth)
  with g(1,2,4) mk show thesis by (intro that)
qed


text \<open>The frame of the witness: two packets, of which none arrives.\<close>

definition example_frame :: "(byte list \<times> nat) list" where
  "example_frame = [([0x80, 96, 0, 7, 0, 0, 0, 1, 0, 0, 0, 5, 1, 1], 12), ([0x80, 224, 0, 8, 0, 0, 0, 1, 0, 0, 0, 5, 2], 12)]"

definition example_header :: "16 word \<Rightarrow> RTPHeader" where
  "example_header n = new_RTPHeader\<lparr>sequenceNumber := n, headerLength := 12\<rparr>"

lemma example_rtp_frame: "rtp_frame 7 5 (word_of_int 97) example_frame"
proof -
  have "WriteBigEndian4 False (5 :: 32 word) = [0, 0, 0, 5]" by code_simp
  then have "frame_packet 7 5 97 False (example_frame ! 0)" "frame_packet 8 5 97 True (example_frame ! 1)"
    by (simp_all add: frame_packet_def example_frame_def ParseSequenceNumber_def two_bytes_def)
  then show ?thesis by (simp add: rtp_frame_def example_frame_def All_less_Suc2 numeral_eq_Suc)
qed


end
