(* ===== verification/Spec2Isabelle.thy ===== *)
theory Spec2Isabelle
  imports Ring_Buffer Spl_Inline Spl_MinMax Spl_Correlation Spl_Math Spl_Splitting Vad_Core Rtp_Update Rtp_Rtx Fec_Transport
begin

text \<open>
  A verification library for the real-time communication core of this repository, a WebRTC tree.
  Paths below are under \<^verbatim>\<open>src/webrtc/\<close>.

  \<^bold>\<open>The program.\<close>  Audio is captured into frames, processed by fixed-point signal processing
  (\<^verbatim>\<open>common_audio\<close>), encoded, and put into RTP packets by the sender of \<^verbatim>\<open>modules/rtp_rtcp\<close>; on the
  receiving side the packets are parsed, lost ones are retransmitted or recovered, and the samples
  travel back through resamplers and ring buffers.  The library models two layers of it.  The first
  is the integer audio layer: the ring buffer that connects producers and consumers of samples, the
  primitives every fixed-point module is written in, the resamplers, the two-band splitting filter,
  and the voice activity detector, which uses all of them.  The second is the packet layer: byte order, the
  registry of header extensions, the header parser, the part of the sender that writes headers and
  later patches them, retransmission packets, and forward error correction from the video sender to
  the application of the receiver; the registry is shared by sender and parser, what the sender writes is
  what the parser reads, and what is lost on the way is recovered.

  \<^bold>\<open>Representation.\<close>  In the audio layer a C integer is an \<open>int\<close>, and every conversion or overflow
  of the code is an explicit \<open>i8\<close>, \<open>i16\<close>, \<open>i32\<close>, \<open>u8\<close>, \<open>u16\<close>, \<open>u32\<close> or \<open>shr\<close> of \<open>C_Prelude\<close>;
  signed overflow, undefined in C, wraps there, and the bound theorems show where it cannot occur.
  In the packet layer bytes and header fields are \<open>word\<close>s of their width.  Arrays are lists and a
  \<^verbatim>\<open>memcpy\<close> or an output array is a replacement of a segment of a list.  A structure is a \<open>record\<close>
  that each operation returns updated; a failing call returns an \<open>option\<close> or the code's result value.
  In the packet layer the result \<open>None\<close> is behaviour that C++ leaves undefined (an access outside an array or past
  the end of a list, a shift by a negative number) or a failed assertion, and the theorems show when it
  does not occur.  Reference counted packets are values.  The network, the callback that takes the
  received packets, the clock and uninitialised memory are parameters.

  \<^bold>\<open>Theories.\<close>
  \<^item> \<open>C_Prelude\<close>: integer types, shifts, \<open>memcpy\<close>, and the lemmas on them that all theories share.
  \<^item> \<open>Fifo_Interface\<close>: the locale of a bounded byte queue; \<open>Ring_Buffer\<close>: \<^verbatim>\<open>ring_buffer.c\<close>, with the
    record \<open>RingBuffer\<close>, and the interpretation of the locale.  Every buffer that can be reached keeps the
    invariant (positions inside the storage, fill level given by positions and wrap flag), reads and
    writes implement a bounded queue, and moving the read pointer is clamped and reversible.
  \<^item> \<open>Spl_Inline\<close> (\<^verbatim>\<open>spl_inl.h\<close>), \<open>Spl_MinMax\<close> (\<^verbatim>\<open>min_max_operations.c\<close>), \<open>Spl_Correlation\<close>
    (\<^verbatim>\<open>energy.c\<close>, \<^verbatim>\<open>get_scaling_square.c\<close>, the dot product and correlations), \<open>Spl_Math\<close> (division, square
    roots, random numbers, Hanning window): saturation and normalisation are exact, scans return the
    first extremum, scaled sums do not overflow (and where they do, a concrete vector is given), the
    square root is the integer square root, table reads are in bounds.
  \<^item> \<open>Stream_Filter\<close>: filters as \<open>run\<close> of a step function, the locale \<open>stream_filter\<close> and its
    consequence that processing by frames equals processing at once; \<open>Spl_Resample\<close> (\<^verbatim>\<open>resample_by_2*.c\<close>,
    \<^verbatim>\<open>resample_fractional.c\<close>, \<^verbatim>\<open>resample_48khz.c\<close>) and \<open>Spl_Splitting\<close> (\<^verbatim>\<open>splitting_filter.c\<close>)
    interpret it; loops that read and write the same memory are shown not to overwrite input.
  \<^item> \<open>Vad_Filters\<close>, \<open>Vad_Sp\<close>, \<open>Vad_Core\<close>: \<^verbatim>\<open>vad_filterbank.c\<close>, \<^verbatim>\<open>vad_sp.c\<close>, \<^verbatim>\<open>vad_gmm.c\<close>, \<^verbatim>\<open>vad_core.c\<close>
    and \<^verbatim>\<open>webrtc_vad.c\<close>, with the instance as the record \<open>VadInstT\<close>: bounds of the features, the minimum
    tracker as a sorted window, the invariant of every reachable instance, error results, hangover and
    modes.
  \<^item> \<open>Rtp_Bytes\<close>: \<^verbatim>\<open>byte_io.h\<close> and the wrapping comparisons of \<^verbatim>\<open>module_common_types.h\<close>; round trips of all
    widths, as the locale \<open>field_codec\<close> for the fields that occur in headers.
  \<^item> \<open>Rtp_Extension_Map\<close>: \<^verbatim>\<open>rtp_header_extension.cc\<close>; the \<^verbatim>\<open>std::map\<close> is the list of its entries
    in key order, an interpretation of the locale \<open>ordered_dict\<close>; the registry is a finite map, and iterating
    with \<open>First\<close> and \<open>Next\<close> ends exactly if no type occurs twice.
  \<^item> \<open>Rtp_Parser\<close>: \<^verbatim>\<open>RtpHeaderParser\<close> of \<^verbatim>\<open>rtp_utility.cc\<close>.  The result \<open>None\<close> stands for a read outside the
    packet and nothing else; theorem \<open>parse_reads_in_bounds\<close> says when it cannot occur.
  \<^item> \<open>Rtp_Sender\<close>: the members of \<^verbatim>\<open>RTPSender\<close> behind the header as a record, their setters, and the
    construction of headers and extension blocks in \<^verbatim>\<open>rtp_sender.cc\<close>.  \<open>Rtp_Roundtrip\<close>: the invariant of
    reachable senders and the round trip through the parser.
  \<^item> \<open>Rtp_Update\<close>: the extension values patched into a finished packet; \<open>Rtp_Rtx\<close>: wrapping a packet for
    retransmission and, from \<^verbatim>\<open>rtp_payload_registry.cc\<close>, unwrapping it.
  \<^item> \<open>Fec_Encoder\<close>, \<open>Fec_Masks\<close>, \<open>Fec_Decoder\<close>: \<^verbatim>\<open>forward_error_correction.cc\<close>,
    \<^verbatim>\<open>forward_error_correction_internal.cc\<close> and \<^verbatim>\<open>fec_private_tables_bursty.h\<close>: which media packets a FEC packet
    protects (the mask, with unequal protection and with gaps in the numbers), the FEC packets, and the decoder with its
    lists of FEC packets and of received or recovered packets.  The random masks are the
    parameter \<open>random_tbl\<close>; the theorems ask that each of its masks has a packet in every row and none beyond the
    group (\<open>table_ok\<close>), which the bursty table is shown to satisfy.
  \<^item> \<open>Fec_Parity\<close>: a FEC packet as the sum of the packets it protects, in the locale \<open>parity\<close>, which is interpreted for
    bytes and for packets; \<open>Fec_Generate\<close>: what \<^verbatim>\<open>GenerateFEC\<close> makes protects what its mask says; \<open>Fec_Recovery\<close>: a
    FEC packet with one packet missing gives that packet back; \<open>Fec_Lists\<close>: sorting and searching by wrapping
    numbers within a group; \<open>Fec_Decoding\<close>: the invariant of the decoder; \<open>Fec_Peeling\<close>: sequences of calls, the
    abstract peeling decoder \<open>recoverable\<close>, and that the code refines it; \<open>Fec_Bursty\<close>: the masks against bursts
    keep the promise of their comment.
  \<^item> \<open>Fec_Producer\<close>: \<^verbatim>\<open>producer_fec.cc\<close> and the protected part of \<^verbatim>\<open>RTPSenderVideo::SendVideoPacket\<close>; \<open>Fec_Receiver\<close>:
    \<^verbatim>\<open>fec_receiver_impl.cc\<close>; \<open>Fec_Red\<close>: a packet wrapped by one is unwrapped by the other;
    \<open>Fec_Transport\<close>: a frame that is sent, with a burst of losses, and delivered, all components together.

  \<^bold>\<open>Loops.\<close>  Loops over arrays are structural recursions, folds or \<open>run\<close>; loops over positions are
  functions with a measure.  The loop of \<^verbatim>\<open>BuildRTPHeaderExtension\<close> need not end (a type registered twice makes it
  circular), so \<open>build_blocks\<close> is a partial function into \<open>option\<close>, and the round trip theorem
  shows that it does return for every sender that can be reached with types registered once.  The decoder starts its search
  again after every packet it recovers; its measure is the number of FEC packets with the position of the
  search.  No definition uses fuel.

  \<^bold>\<open>Not modelled.\<close>  The assembly and SIMD versions of the audio routines; memory allocation and
  release; locks and threads (every operation is atomic in the model, as it is under the critical
  section of its class; the FEC receiver leaves it during its callback); pacing, statistics and packet history of
  the sender; the 24,000 lines of random FEC masks; RTCP messages and payload packetizers; the codecs and NetEq; everything in floating point (audio processing, bandwidth
  estimation); video coding; the engines, devices, sockets and other operating system interfaces.
\<close>

end
